(* ===== verification/Errors.thy ===== *)
theory Errors
  imports Main
begin

text \<open>
  The error vocabulary of the library (\<^verbatim>\<open>error.h\<close>, \<^verbatim>\<open>error.icc\<close>): the enumeration
  \<^verbatim>\<open>errc\<close> with its numeric values and its messages, the error codes that travel through
  callbacks, and the two ways a call can fail to return normally in C++: an exception, and an
  operation whose behaviour is undefined (a failed assertion, a dereferenced null pointer,
  \<open>front()\<close> of an empty deque, an iterator used after its container has changed, a reference to a
  variable that is gone). Both are values here, so that every such branch of the code is a branch of
  the model.
\<close>

section \<open>Library error codes\<close>

datatype errc =
    connect_error
  | no_redirect_uri
  | redirection_limit
  | unexpected_redirect
  | transfer_aborted
  | server_stopping
  | pipeline_canceled
  | upgrade_in_pipeline
  | upgrade_wrong_request

text \<open>The enumerators start at 1, so that the value 0 stays "no error".\<close>

primrec errc_value :: "errc \<Rightarrow> nat" where
  "errc_value connect_error = 1"
| "errc_value no_redirect_uri = 2"
| "errc_value redirection_limit = 3"
| "errc_value unexpected_redirect = 4"
| "errc_value transfer_aborted = 5"
| "errc_value server_stopping = 6"
| "errc_value pipeline_canceled = 7"
| "errc_value upgrade_in_pipeline = 8"
| "errc_value upgrade_wrong_request = 9"

definition error_category_name :: string where
  "error_category_name = ''unievent-http''"

text \<open>
  \<^verbatim>\<open>ErrorCategory::message\<close> is called with an integer and switches on its cast to
  \<^verbatim>\<open>errc\<close>; a value outside the enumeration gives the empty string.
\<close>

definition error_message :: "int \<Rightarrow> string" where
  "error_message condition =
     (if condition = 1 then ''connect error''
      else if condition = 2 then
        ''server did not return valid Location header in redirection response''
      else if condition = 3 then ''redirection limit exceeded''
      else if condition = 4 then ''unexpected redirection response''
      else if condition = 5 then
        ''server aborted body transfer by sending final response code''
      else if condition = 6 then ''server is stopping''
      else if condition = 7 then ''pipelined requests were canceled''
      else if condition = 8 then ''received upgrade request in a pipelined http connection''
      else if condition = 9 then ''this request can't be upgraded''
      else '''')"

text \<open>The \<^verbatim>\<open>std::errc\<close> values the sources name.\<close>

datatype std_errc =
    operation_canceled
  | timed_out
  | connection_reset
  | connection_aborted
  | not_connected

text \<open>
  An \<^verbatim>\<open>ErrorCode\<close>: none, one of ours, one of the standard ones, or one made by code outside
  the repository (the parser, the socket layer), known by its number only; \<^verbatim>\<open>nest_error\<close> puts one of
  ours around another.
\<close>

datatype error_code =
    NoError
  | HttpErrc errc
  | StdErrc std_errc
  | ExternErr nat
  | NestedErrc errc error_code

section \<open>States of a parser\<close>

text \<open>
  The parsers of messages are outside the repository; the sources compare the state they report with
  \<^verbatim>\<open>headers\<close> and \<^verbatim>\<open>done\<close>, in the order of the enumeration \<^verbatim>\<open>State\<close>.
\<close>

datatype parse_state = StHeaders | StBody | StDone | StError

primrec state_rank :: "parse_state \<Rightarrow> nat" where
  "state_rank StHeaders = 0"
| "state_rank StBody = 1"
| "state_rank StDone = 2"
| "state_rank StError = 3"

section \<open>Exceptions and undefined behaviour\<close>

datatype exn =
    HttpError string
  | LogicError string
  | PandaException string
  | BadExpectedAccess
  | UserException

datatype fault =
    AssertFailed
  | FrontOfEmpty
  | NullDeref
  | OutOfRange
  | InvalidIterator
  | DanglingReference
  | LoopBound

lemma errc_value_inj: "errc_value a = errc_value b \<Longrightarrow> a = b"
  by (cases a; cases b) simp_all

lemma errc_value_bounds: "1 \<le> errc_value e \<and> errc_value e \<le> 9"
  by (cases e) simp_all

lemma error_message_nonempty: "error_message (int (errc_value e)) \<noteq> ''''"
  by (cases e) (simp_all add: error_message_def)

end
