(* ===== verification/Prelude.thy ===== *)
theory Prelude
  imports Errors "HOL-Library.Word"
begin

text \<open>
  What the components share: the outcome of a C++ call as a value, sequencing of calls over an
  explicit state, a small calculus of postconditions for it, and generic lemmas on lists. The
  collection \<open>seq_simps\<close> evaluates a sequence of calls; \<open>post_rules\<close> are the introduction
  rules by which the component theories prove that a call establishes a postcondition.
\<close>

named_theorems seq_simps "equations that evaluate a sequence of calls"
named_theorems post_rules "introduction rules for postconditions of calls"

type_synonym u32 = "32 word"
type_synonym u64 = "64 word"

section \<open>Outcomes of a call\<close>

text \<open>
  A call either returns, or leaves with an exception (the state is what it was when the exception
  was thrown: nothing is rolled back), or runs into undefined behaviour, after which no state is
  meaningful.
\<close>

datatype 'w outcome =
    Done 'w
  | Throw exn 'w
  | Crash fault

type_synonym 'w call = "'w \<Rightarrow> 'w outcome"

text \<open>A sequence of calls: an exception or a crash skips the rest.\<close>

primrec run :: "'w call list \<Rightarrow> 'w call" where
  "run [] w = Done w"
| "run (f # fs) w =
     (case f w of Done w' \<Rightarrow> run fs w' | Throw e w' \<Rightarrow> Throw e w' | Crash x \<Rightarrow> Crash x)"

text \<open>A pure state update as a call, and a call under a condition on the state it starts in.\<close>

definition pure_step :: "('w \<Rightarrow> 'w) \<Rightarrow> 'w call" where
  "pure_step f = (\<lambda>w. Done (f w))"

definition when_step :: "('w \<Rightarrow> bool) \<Rightarrow> 'w call \<Rightarrow> 'w call" where
  "when_step b f = (\<lambda>w. if b w then f w else Done w)"

section \<open>Postconditions\<close>

text \<open>
  \<open>outcome_all c Q X out\<close>: if \<open>out\<close> returned, \<open>Q\<close> holds; if it left with an exception, \<open>X\<close>
  holds of the state then; and it did not crash, unless with a fault in the set \<open>c\<close>. With
  \<open>c = UNIV\<close> this is partial correctness, with \<open>c = {}\<close> absence of undefined behaviour is part
  of the claim, and a set without \<open>LoopBound\<close> says that the bounds on loops are large enough.
\<close>

primrec outcome_all :: "fault set \<Rightarrow> ('w \<Rightarrow> bool) \<Rightarrow> ('w \<Rightarrow> bool) \<Rightarrow> 'w outcome \<Rightarrow> bool" where
  "outcome_all c Q X (Done w) = Q w"
| "outcome_all c Q X (Throw e w) = X w"
| "outcome_all c Q X (Crash f) = (f \<in> c)"

lemma run_append [seq_simps]:
  "run (fs @ gs) w =
     (case run fs w of Done w' \<Rightarrow> run gs w' | Throw e w' \<Rightarrow> Throw e w' | Crash x \<Rightarrow> Crash x)"
  by (induction fs arbitrary: w) (auto split: outcome.split)

lemma pure_step_apply [simp, seq_simps]: "pure_step f w = Done (f w)"
  by (simp add: pure_step_def)

lemma when_step_True [simp, seq_simps]: "b w \<Longrightarrow> when_step b f w = f w"
  by (simp add: when_step_def)

lemma when_step_False [simp, seq_simps]: "\<not> b w \<Longrightarrow> when_step b f w = Done w"
  by (simp add: when_step_def)

lemma post_run_Cons [post_rules]:
  assumes "outcome_all c P X (f w)"
    and "\<And>w'. P w' \<Longrightarrow> outcome_all c Q X (run fs w')"
  shows "outcome_all c Q X (run (f # fs) w)"
  using assms by (cases "f w") simp_all

lemma post_bind [post_rules]:
  assumes "outcome_all c P X out" and "\<And>w. P w \<Longrightarrow> outcome_all c Q X (k w)"
  shows "outcome_all c Q X
    (case out of Done w \<Rightarrow> k w | Throw e w \<Rightarrow> Throw e w | Crash f \<Rightarrow> Crash f)"
  using assms by (cases out) simp_all

lemma post_run_Nil [post_rules]: "Q w \<Longrightarrow> outcome_all c Q X (run [] w)"
  by simp

lemma post_run_single: "outcome_all c Q X (run [f] w) = outcome_all c Q X (f w)"
  by (cases "f w") simp_all

lemma post_run_pure [post_rules]:
  "outcome_all c Q X (run fs (f w)) \<Longrightarrow> outcome_all c Q X (run (pure_step f # fs) w)"
  by simp

lemma post_when [post_rules]:
  assumes "b w \<Longrightarrow> outcome_all c Q X (f w)" and "\<not> b w \<Longrightarrow> Q w"
  shows "outcome_all c Q X (when_step b f w)"
  using assms by (simp add: when_step_def)

lemma post_mono:
  assumes "outcome_all c P Y out" and "\<And>w. P w \<Longrightarrow> Q w" and "\<And>w. Y w \<Longrightarrow> X w" and "c \<subseteq> d"
  shows "outcome_all d Q X out"
  using assms by (cases out) auto

lemma post_conj:
  "outcome_all c P X out \<Longrightarrow> outcome_all c Q X out \<Longrightarrow> outcome_all c (\<lambda>w. P w \<and> Q w) X out"
  by (cases out) auto

lemma post_True: "outcome_all UNIV (\<lambda>_. True) (\<lambda>_. True) out"
  by (cases out) auto

text \<open>An invariant kept by every call of a list is kept by the sequence.\<close>

lemma post_run_inv:
  assumes "\<And>f w. f \<in> set fs \<Longrightarrow> I w \<Longrightarrow> outcome_all c I X (f w)" and "I w"
  shows "outcome_all c I X (run fs w)"
  using assms
proof (induction fs arbitrary: w)
  case Nil
  then show ?case by simp
next
  case (Cons f fs)
  show ?case
    by (rule post_run_Cons [where P = I]) (use Cons in auto)
qed

section \<open>Lists\<close>

lemma last_not_in_butlast:
  "distinct xs \<Longrightarrow> xs \<noteq> [] \<Longrightarrow> last xs \<notin> set (butlast xs)"
  by (metis append_butlast_last_id distinct_butlast not_distinct_conv_prefix)

lemma sorted_wrt_less_distinct: "sorted_wrt (<) (xs :: nat list) \<Longrightarrow> distinct xs"
  by (simp add: strict_sorted_iff)

lemma sorted_wrt_less_snoc:
  "sorted_wrt (<) xs \<Longrightarrow> \<forall>x\<in>set xs. x < (n :: nat) \<Longrightarrow> sorted_wrt (<) (xs @ [n])"
  by (simp add: sorted_wrt_append)

lemma butlast_ConsD: "x \<in> set (butlast xs) \<Longrightarrow> x \<in> set (butlast (y # xs))"
  by (cases xs) auto

lemma last_in_set_Cons: "last (x # xs) \<in> insert x (set xs)"
  by (cases xs rule: rev_cases) auto

end
