(* ===== verification/ServerConfig.thy ===== *)
theory ServerConfig
  imports Prelude
begin

text \<open>
  The configuration of a server (\<^verbatim>\<open>Server.h\<close>, \<^verbatim>\<open>Server.cc\<close>): the structures
  \<^verbatim>\<open>Location\<close> and \<^verbatim>\<open>Config\<close> with their defaults and equality operators, and the two parts of
  \<^verbatim>\<open>Server::configure\<close> that do not touch the running server: the checks and the normalisation
  of the locations. An SSL context and a socket are handles of code outside the repository, so they
  are numbers here; \<open>None\<close> is the null handle and the absent socket.
\<close>

section \<open>Structures\<close>

record location =
  loc_host :: string
  loc_port :: "16 word"
  loc_path :: string
  loc_reuse_port :: bool
  loc_backlog :: "32 word"
  loc_domain :: int
  loc_tcp_nodelay :: bool
  loc_ssl_ctx :: "nat option"
  loc_sock :: "nat option"

record config =
  cf_locations :: "location list"
  cf_idle_timeout :: u32
  cf_max_headers_size :: u64
  cf_max_body_size :: u64
  cf_tcp_nodelay :: bool
  cf_max_keepalive_requests :: u32

definition DEFAULT_BACKLOG :: "32 word" where
  "DEFAULT_BACKLOG = 4096"

definition DEFAULT_IDLE_TIMEOUT :: u32 where
  "DEFAULT_IDLE_TIMEOUT = 300000"

definition DEFAULT_MAX_HEADERS_SIZE :: u64 where
  "DEFAULT_MAX_HEADERS_SIZE = 16384"

text \<open>
  \<^verbatim>\<open>SIZE_UNLIMITED\<close> and \<^verbatim>\<open>AF_INET\<close> come from outside the repository; they are arguments of the
  defaults. The platform is not Windows: \<^verbatim>\<open>DEFRPORT\<close> is true.
\<close>

definition default_location :: "int \<Rightarrow> location" where
  "default_location af_inet =
     \<lparr>loc_host = '''', loc_port = 0, loc_path = '''', loc_reuse_port = True,
      loc_backlog = DEFAULT_BACKLOG, loc_domain = af_inet, loc_tcp_nodelay = False,
      loc_ssl_ctx = None, loc_sock = None\<rparr>"

definition default_config :: "u64 \<Rightarrow> config" where
  "default_config size_unlimited =
     \<lparr>cf_locations = [], cf_idle_timeout = DEFAULT_IDLE_TIMEOUT,
      cf_max_headers_size = DEFAULT_MAX_HEADERS_SIZE, cf_max_body_size = size_unlimited,
      cf_tcp_nodelay = False, cf_max_keepalive_requests = 0\<rparr>"

section \<open>Equality operators\<close>

definition location_eq :: "location \<Rightarrow> location \<Rightarrow> bool" where
  "location_eq a b \<longleftrightarrow>
     loc_host a = loc_host b \<and> loc_port a = loc_port b \<and> loc_path a = loc_path b \<and>
     loc_reuse_port a = loc_reuse_port b \<and> loc_backlog a = loc_backlog b \<and>
     loc_domain a = loc_domain b \<and> loc_ssl_ctx a = loc_ssl_ctx b \<and>
     loc_sock a = loc_sock b \<and> loc_tcp_nodelay a = loc_tcp_nodelay b"

definition config_eq :: "config \<Rightarrow> config \<Rightarrow> bool" where
  "config_eq a b \<longleftrightarrow>
     cf_idle_timeout a = cf_idle_timeout b \<and> cf_max_headers_size a = cf_max_headers_size b \<and>
     cf_max_body_size a = cf_max_body_size b \<and> cf_tcp_nodelay a = cf_tcp_nodelay b \<and>
     cf_max_keepalive_requests a = cf_max_keepalive_requests b \<and>
     length (cf_locations a) = length (cf_locations b) \<and>
     list_all2 location_eq (cf_locations a) (cf_locations b)"

section \<open>Checks and normalisation of \<^verbatim>\<open>configure\<close>\<close>

definition location_named :: "location \<Rightarrow> bool" where
  "location_named loc \<longleftrightarrow> loc_host loc \<noteq> '''' \<or> loc_path loc \<noteq> '''' \<or> loc_sock loc \<noteq> None"

definition check_config :: "config \<Rightarrow> exn option" where
  "check_config conf =
     (if cf_locations conf = [] then Some (HttpError ''no locations to listen supplied'')
      else if \<not> list_all location_named (cf_locations conf) then
        Some (HttpError
          ''neither host nor path nor socket defined in one of the locations'')
      else None)"

definition normalize_location :: "bool \<Rightarrow> location \<Rightarrow> location" where
  "normalize_location nodelay loc =
     (let loc = (if loc_backlog loc = 0 then loc\<lparr>loc_backlog := DEFAULT_BACKLOG\<rparr> else loc)
      in if nodelay then loc\<lparr>loc_tcp_nodelay := True\<rparr> else loc)"

definition normalize_config :: "config \<Rightarrow> config" where
  "normalize_config conf =
     conf\<lparr>cf_locations := map (normalize_location (cf_tcp_nodelay conf)) (cf_locations conf)\<rparr>"

section \<open>Lemmas\<close>

lemma location_eq_iff: "location_eq a b \<longleftrightarrow> a = b"
  by (auto simp: location_eq_def)

lemma list_all2_eq_iff: "list_all2 (\<lambda>x y. x = y) xs ys \<longleftrightarrow> xs = ys"
  by (simp add: list.rel_eq)

lemma config_eq_iff: "config_eq a b \<longleftrightarrow> a = b"
proof -
  have "location_eq = (=)"
    by (intro ext) (rule location_eq_iff)
  then show ?thesis
    by (auto simp: config_eq_def list.rel_eq)
qed

lemma normalize_location_fields:
  "loc_host (normalize_location b l) = loc_host l"
  "loc_path (normalize_location b l) = loc_path l"
  "loc_sock (normalize_location b l) = loc_sock l"
  "loc_backlog (normalize_location b l) \<noteq> 0"
  by (simp_all add: normalize_location_def Let_def DEFAULT_BACKLOG_def)

lemma normalize_location_idem:
  "normalize_location b (normalize_location b l) = normalize_location b l"
  by (simp add: normalize_location_def Let_def DEFAULT_BACKLOG_def)

lemma location_named_normalize: "location_named (normalize_location b l) = location_named l"
  by (simp add: location_named_def normalize_location_fields)

end
