(* ===== verification/HttpDate.thy ===== *)
theory HttpDate
  imports Prelude "HOL-Library.Signed_Division"
begin

text \<open>
  The \<^verbatim>\<open>Date\<close> header (\<^verbatim>\<open>Server.cc\<close>, \<^verbatim>\<open>rfc822_date\<close>): formatting of a broken-down UTC
  time, character by character as the code writes it. \<^verbatim>\<open>time::gmtime\<close> is outside the repository:
  its result is the argument here. Theorems: the text has exactly the length the code reserves for
  it, and it determines the date.
\<close>

section \<open>The broken-down time\<close>

record datetime =
  dt_wday :: int
  dt_mon :: int
  dt_mday :: int
  dt_year :: int
  dt_hour :: int
  dt_min :: int
  dt_sec :: int

definition month_snames :: "string list" where
  "month_snames = [''Jan'', ''Feb'', ''Mar'', ''Apr'', ''May'', ''Jun'',
                   ''Jul'', ''Aug'', ''Sep'', ''Oct'', ''Nov'', ''Dec'']"

definition day_snames :: "string list" where
  "day_snames = [''Sun'', ''Mon'', ''Tue'', ''Wed'', ''Thu'', ''Fri'', ''Sat'']"

text \<open>
  \<open>n + '0'\<close> stored in a \<^verbatim>\<open>char\<close>: the code truncates to 8 bits. Division and remainder are C's,
  rounding towards zero.
\<close>

definition digit_char :: "int \<Rightarrow> char" where
  "digit_char n = char_of (nat ((n + 48) mod 256))"

definition two_digits :: "int \<Rightarrow> string" where
  "two_digits n = [digit_char (n sdiv 10), digit_char (n smod 10)]"

definition four_digits :: "int \<Rightarrow> string" where
  "four_digits n =
     [digit_char (n sdiv 1000), digit_char ((n smod 1000) sdiv 100),
      digit_char ((n smod 100) sdiv 10), digit_char (n smod 10)]"

text \<open>The length the code reserves: \<open>sizeof("Mon, 20 Jan 2020 20:20:20 GMT") - 1\<close>.\<close>

definition date_length :: nat where
  "date_length = length ''Mon, 20 Jan 2020 20:20:20 GMT''"

text \<open>
  The names are read from arrays of 7 and 12 entries with no check: an index outside them is
  undefined behaviour, here the value \<open>None\<close>.
\<close>

definition rfc822_date :: "datetime \<Rightarrow> string option" where
  "rfc822_date dt =
     (if 0 \<le> dt_wday dt \<and> dt_wday dt < 7 \<and> 0 \<le> dt_mon dt \<and> dt_mon dt < 12
      then Some (day_snames ! nat (dt_wday dt) @ '', ''
             @ two_digits (dt_mday dt) @ '' ''
             @ month_snames ! nat (dt_mon dt) @ '' ''
             @ four_digits (dt_year dt) @ '' ''
             @ two_digits (dt_hour dt) @ '':''
             @ two_digits (dt_min dt) @ '':''
             @ two_digits (dt_sec dt) @ '' GMT'')
      else None)"

text \<open>What \<^verbatim>\<open>gmtime\<close> guarantees of its result, for years that have four digits.\<close>

definition datetime_ok :: "datetime \<Rightarrow> bool" where
  "datetime_ok dt \<longleftrightarrow>
     0 \<le> dt_wday dt \<and> dt_wday dt < 7 \<and> 0 \<le> dt_mon dt \<and> dt_mon dt < 12 \<and>
     1 \<le> dt_mday dt \<and> dt_mday dt \<le> 31 \<and> 0 \<le> dt_year dt \<and> dt_year dt \<le> 9999 \<and>
     0 \<le> dt_hour dt \<and> dt_hour dt < 24 \<and> 0 \<le> dt_min dt \<and> dt_min dt < 60 \<and>
     0 \<le> dt_sec dt \<and> dt_sec dt \<le> 60"

section \<open>Reading the text back\<close>

text \<open>A reader of the format, the reference the formatter is compared with.\<close>

definition char_digit :: "char \<Rightarrow> int" where
  "char_digit c = int (of_char c) - 48"

fun read_digits :: "string \<Rightarrow> int \<Rightarrow> int" where
  "read_digits [] acc = acc"
| "read_digits (c # cs) acc = read_digits cs (10 * acc + char_digit c)"

fun index_of :: "'a \<Rightarrow> 'a list \<Rightarrow> int" where
  "index_of x [] = 0"
| "index_of x (y # ys) = (if x = y then 0 else 1 + index_of x ys)"

definition field :: "nat \<Rightarrow> nat \<Rightarrow> string \<Rightarrow> string" where
  "field pos len s = take len (drop pos s)"

definition read_date :: "string \<Rightarrow> datetime" where
  "read_date s =
     \<lparr>dt_wday = index_of (field 0 3 s) day_snames,
      dt_mon = index_of (field 8 3 s) month_snames,
      dt_mday = read_digits (field 5 2 s) 0,
      dt_year = read_digits (field 12 4 s) 0,
      dt_hour = read_digits (field 17 2 s) 0,
      dt_min = read_digits (field 20 2 s) 0,
      dt_sec = read_digits (field 23 2 s) 0\<rparr>"

section \<open>Lemmas\<close>

lemma length_two_digits [simp]: "length (two_digits n) = 2"
  by (simp add: two_digits_def)

lemma length_four_digits [simp]: "length (four_digits n) = 4"
  by (simp add: four_digits_def)

lemma char_digit_digit_char: "0 \<le> n \<Longrightarrow> n < 10 \<Longrightarrow> char_digit (digit_char n) = n"
  by (simp add: char_digit_def digit_char_def nat_less_iff)

lemma sdiv_nonneg: "0 \<le> (a::int) \<Longrightarrow> 0 < b \<Longrightarrow> a sdiv b = a div b"
  by (cases "a = 0") (simp_all add: signed_divide_int_def sgn_if)

lemma smod_nonneg: "0 \<le> (a::int) \<Longrightarrow> 0 < b \<Longrightarrow> a smod b = a mod b"
  by (cases "a = 0") (simp_all add: signed_modulo_int_def signed_divide_int_def sgn_if)

lemma read_two_digits: "0 \<le> n \<Longrightarrow> n < 100 \<Longrightarrow> read_digits (two_digits n) 0 = n"
  by (simp add: two_digits_def sdiv_nonneg smod_nonneg char_digit_digit_char)

lemma read_four_chars:
  assumes "a \<in> {0..<10}" "b \<in> {0..<10}" "c \<in> {0..<10}" "d \<in> {0..<10}"
  shows "read_digits [digit_char a, digit_char b, digit_char c, digit_char d] 0 =
    1000 * a + 100 * b + 10 * c + d"
  using assms by (simp add: char_digit_digit_char)

lemma decimal_expansion:
  "1000 * (n div 1000) + 100 * (n mod 1000 div 100) + 10 * (n mod 100 div 10) + n mod 10 = (n::int)"
proof -
  have m: "n mod 1000 mod 100 = n mod 100" "n mod 100 mod 10 = n mod 10"
    by (simp_all add: mod_mod_cancel)
  show ?thesis
    using div_mult_mod_eq [of n 1000] div_mult_mod_eq [of "n mod 1000" 100]
      div_mult_mod_eq [of "n mod 100" 10] m by linarith
qed

lemma four_digits_div:
  "0 \<le> n \<Longrightarrow> four_digits n =
     [digit_char (n div 1000), digit_char (n mod 1000 div 100),
      digit_char (n mod 100 div 10), digit_char (n mod 10)]"
  by (simp only: four_digits_def sdiv_nonneg smod_nonneg pos_mod_sign zero_less_numeral)

lemma read_four_digits:
  assumes "0 \<le> n" "n \<le> 9999"
  shows "read_digits (four_digits n) 0 = n"
proof -
  have d: "n div 1000 \<in> {0..<10}" "n mod 1000 div 100 \<in> {0..<10}"
    "n mod 100 div 10 \<in> {0..<10}" "n mod 10 \<in> {0..<10}"
    using assms by auto
  show ?thesis
    unfolding four_digits_div [OF assms(1)] read_four_chars [OF d] by (rule decimal_expansion)
qed

lemma nat_less_7: "0 \<le> n \<Longrightarrow> n < (7::int) \<Longrightarrow> n \<in> {0, 1, 2, 3, 4, 5, 6}"
  by auto

lemma nat_less_12: "0 \<le> n \<Longrightarrow> n < (12::int) \<Longrightarrow> n \<in> {0, 1, 2, 3, 4, 5, 6, 7, 8, 9, 10, 11}"
  by (simp, presburger)

lemma day_name:
  assumes "0 \<le> n" "n < 7"
  shows "length (day_snames ! nat n) = 3" and "index_of (day_snames ! nat n) day_snames = n"
  using nat_less_7 [OF assms] by (auto simp: day_snames_def)

lemma month_name:
  assumes "0 \<le> n" "n < 12"
  shows "length (month_snames ! nat n) = 3" and "index_of (month_snames ! nat n) month_snames = n"
  using nat_less_12 [OF assms] by (auto simp: month_snames_def)

lemma field_append_skip:
  "length a \<le> pos \<Longrightarrow> field pos len (a @ b) = field (pos - length a) len b"
  by (simp add: field_def)

lemma field_append_take: "len = length a \<Longrightarrow> field 0 len (a @ b) = a"
  by (simp add: field_def)

lemma rfc822_date_Some:
  "datetime_ok dt \<Longrightarrow> \<exists>s. rfc822_date dt = Some s"
  by (simp add: rfc822_date_def datetime_ok_def)

lemma date_fields:
  assumes "length a = 3" "length d = 2" "length m = 3" "length y = 4" "length h = 2" "length n = 2"
    "length s = 2"
    and t: "t = a @ '', '' @ d @ '' '' @ m @ '' '' @ y @ '' '' @ h @ '':'' @ n @ '':'' @ s @ '' GMT''"
  shows "length t = date_length" "field 0 3 t = a" "field 5 2 t = d" "field 8 3 t = m"
    "field 12 4 t = y" "field 17 2 t = h" "field 20 2 t = n" "field 23 2 t = s"
  using assms(1-7) by (simp_all add: t date_length_def field_def)

text \<open>
  C10: The text of a date is always 29 characters long, the length of the buffer it is written to,
  and a reader of the format gets back the date it was made from.
\<close>

theorem rfc822_date_roundtrip:
  assumes "datetime_ok dt"
  shows "\<exists>s. rfc822_date dt = Some s \<and> length s = date_length \<and> read_date s = dt"
proof -
  have ok: "0 \<le> dt_wday dt" "dt_wday dt < 7" "0 \<le> dt_mon dt" "dt_mon dt < 12" "0 \<le> dt_mday dt"
    "dt_mday dt < 100" "0 \<le> dt_year dt" "dt_year dt \<le> 9999" "0 \<le> dt_hour dt" "dt_hour dt < 100"
    "0 \<le> dt_min dt" "dt_min dt < 100" "0 \<le> dt_sec dt" "dt_sec dt < 100"
    using assms by (simp_all add: datetime_ok_def)
  define s where "s = day_snames ! nat (dt_wday dt) @ '', '' @ two_digits (dt_mday dt) @ '' '' @
    month_snames ! nat (dt_mon dt) @ '' '' @ four_digits (dt_year dt) @ '' '' @
    two_digits (dt_hour dt) @ '':'' @ two_digits (dt_min dt) @ '':'' @ two_digits (dt_sec dt) @ '' GMT''"
  have "rfc822_date dt = Some s" using ok by (simp add: rfc822_date_def s_def)
  moreover note fields = date_fields [OF day_name(1) length_two_digits month_name(1) length_four_digits
      length_two_digits length_two_digits length_two_digits s_def, OF ok(1-4)]
  have "read_date s = dt"
    using ok by (cases dt) (simp add: read_date_def fields day_name(2) month_name(2) read_two_digits
        read_four_digits)
  ultimately show ?thesis using fields(1) by blast
qed

theorem rfc822_date_roundtrip_witness:
  "rfc822_date \<lparr>dt_wday = 1, dt_mon = 0, dt_mday = 20, dt_year = 2020, dt_hour = 20, dt_min = 5,
     dt_sec = 9\<rparr> = Some ''Mon, 20 Jan 2020 20:05:09 GMT'' \<and>
   dt_hour (read_date ''Mon, 20 Jan 2020 20:05:09 GMT'') = 20"
proof -
  have shown: "rfc822_date \<lparr>dt_wday = 1, dt_mon = 0, dt_mday = 20, dt_year = 2020, dt_hour = 20,
      dt_min = 5, dt_sec = 9\<rparr> = Some ''Mon, 20 Jan 2020 20:05:09 GMT''"
    by code_simp
  have "datetime_ok \<lparr>dt_wday = 1, dt_mon = 0, dt_mday = 20, dt_year = 2020, dt_hour = 20,
      dt_min = 5, dt_sec = 9\<rparr>"
    by (simp add: datetime_ok_def)
  from rfc822_date_roundtrip [OF this] shown show ?thesis by auto
qed

end
