(* ===== verification/ServerState.thy ===== *)
theory ServerState
  imports ServerConfig HttpDate
begin

text \<open>
  The state of the server side: request, response and connection objects in a store (the code
  shares them by reference-counted pointers, and user code keeps references of its own), and the
  server object that owns the connections. The stream under a connection is code outside the
  repository; of it the state keeps what the sources read or cause: the messages given to it for
  writing, the reported size of its write queue, whether reading is ignored, whether the connection
  is its event listener, and whether it has been shut down or reset.
\<close>

section \<open>Objects\<close>

type_synonym rid = nat
type_synonym sid = nat
type_synonym cid = u64

text \<open>
  \<^verbatim>\<open>ServerRequest\<close>. The last four fields are what the parsed message answers when it is asked
  (\<^verbatim>\<open>keep_alive()\<close>, \<^verbatim>\<open>headers.connection()\<close>, \<^verbatim>\<open>expects_continue()\<close>, \<^verbatim>\<open>http_version\<close>).
\<close>

record srequest =
  r_conn :: "cid option"
  r_server :: bool
  r_resp :: "sid option"
  r_routed :: bool
  r_partial :: bool
  r_fin :: bool
  r_done :: bool
  r_secure :: bool
  r_keep :: bool
  r_connhdr :: string
  r_expects :: bool
  r_version :: nat

text \<open>
  \<^verbatim>\<open>ServerResponse\<close>. \<open>s_keep\<close> is what \<^verbatim>\<open>keep_alive()\<close> answers, \<open>s_date\<close> the \<^verbatim>\<open>Date\<close> header if
  there is one, \<open>s_headers\<close> the other headers, \<open>s_body\<close> the parts of the body.
\<close>

record sresponse =
  s_code :: int
  s_keep :: bool
  s_chunked :: bool
  s_headers :: "(string \<times> string) list"
  s_date :: "string option"
  s_body :: "string list"
  s_req :: "rid option"
  s_completed :: bool

text \<open>
  What is handed to the stream for writing. \<open>Head r s cl fin parts\<close> is \<^verbatim>\<open>res->to_vector(req)\<close>:
  the response \<open>s\<close> to the request \<open>r\<close>, \<open>parts\<close> the body it carries, \<open>cl\<close> whether it ends the
  connection (response or request not keep-alive), \<open>fin\<close> whether the message is complete with it.
\<close>

datatype wire =
    Head rid sid bool bool "string list"
  | Chunk sid string
  | Final sid string
  | Continue100 rid

record stream =
  st_open :: bool
  st_ignore :: bool
  st_listener :: bool
  st_secure :: bool
  st_out :: "wire list"
  st_wqueue :: nat

text \<open>
  \<^verbatim>\<open>ServerConnection\<close>. The idle timer is \<open>None\<close> when the pointer is null, otherwise whether it is
  active. \<open>cur\<close> is the request object the parser returned last.
\<close>

record connection =
  stream :: stream
  requests :: "rid list"
  requests_processed :: u64
  idle_timeout :: u32
  max_keepalive_requests :: u64
  idle_timer :: "bool option"
  closing :: bool
  stopping :: bool
  establish_time :: u64
  cur :: "rid option"

section \<open>Events\<close>

text \<open>The callbacks of the library, each with the arguments it is called with.\<close>

datatype event =
    RouteEvent rid
  | ReceiveEvent rid
  | RequestEvent rid
  | PartialEvent rid error_code
  | ErrorEvent rid error_code
  | DropEvent rid error_code
  | FinishEvent rid
  | ConnectEvent cid
  | RunEvent
  | StopEvent

fun event_req :: "event \<Rightarrow> rid option" where
  "event_req (RouteEvent r) = Some r"
| "event_req (ReceiveEvent r) = Some r"
| "event_req (RequestEvent r) = Some r"
| "event_req (PartialEvent r e) = Some r"
| "event_req (ErrorEvent r e) = Some r"
| "event_req (DropEvent r e) = Some r"
| "event_req (FinishEvent r) = Some r"
| "event_req (ConnectEvent i) = None"
| "event_req RunEvent = None"
| "event_req StopEvent = None"

section \<open>The server and its world\<close>

datatype sstate = Initial | Running | Stopping

datatype stream_type = TcpType | PipeType

record listener =
  l_type :: stream_type
  l_path :: string
  l_host :: string
  l_port :: "16 word"
  l_backlog :: "32 word"
  l_nodelay :: bool
  l_reuse_port :: bool
  l_ssl_ctx :: "nat option"

text \<open>
  The \<^verbatim>\<open>Server\<close> object and the store: \<open>connections\<close> lists the keys of the map
  \<^verbatim>\<open>_connections\<close>; \<open>next_rid\<close> and \<open>next_sid\<close> are the next unused object identities; \<open>unlinked\<close>
  records the socket files removed, and \<open>events\<close> the callbacks made, in order.
\<close>

record world =
  srv_state :: sstate
  srv_conf :: config
  listeners :: "listener list"
  lastid :: u64
  connections :: "cid list"
  hdate_time :: u64
  hdate_str :: string
  conn :: "cid \<Rightarrow> connection"
  req :: "rid \<Rightarrow> srequest"
  res :: "sid \<Rightarrow> sresponse"
  next_rid :: rid
  next_sid :: sid
  unlinked :: "string list"
  events :: "event list"

text \<open>
  Code outside the repository, as arguments: the loop's clock and the broken-down wall time of this
  moment, the reason phrase of a status code, the size of the stream's write queue after a write,
  and the case-insensitive comparison of \<^verbatim>\<open>Protocol-HTTP\<close>; for a socket handed over by the user,
  whether it is a unix socket and the path or the address it is bound to; whether binding works.
\<close>

record ext =
  x_now :: u64
  x_gmtime :: datetime
  x_full_message :: "int \<Rightarrow> string"
  x_after_write :: "stream \<Rightarrow> nat"
  x_iequals :: "string \<Rightarrow> string \<Rightarrow> bool"
  x_sock_unix :: "nat \<Rightarrow> string option"
  x_sock_addr :: "nat \<Rightarrow> string \<times> 16 word"
  x_bind_error :: "location \<Rightarrow> exn option"

text \<open>
  The user's code behind a callback: given the event, it may call back into the library, so it is a
  call on the world.
\<close>

type_synonym callbacks = "event \<Rightarrow> world call"

definition fire :: "callbacks \<Rightarrow> event \<Rightarrow> world call" where
  "fire cb ev w = cb ev (w\<lparr>events := events w @ [ev]\<rparr>)"

section \<open>Updates\<close>

definition upd_conn :: "cid \<Rightarrow> (connection \<Rightarrow> connection) \<Rightarrow> world \<Rightarrow> world" where
  "upd_conn i f w = w\<lparr>conn := (conn w)(i := f (conn w i))\<rparr>"

definition upd_req :: "rid \<Rightarrow> (srequest \<Rightarrow> srequest) \<Rightarrow> world \<Rightarrow> world" where
  "upd_req r f w = w\<lparr>req := (req w)(r := f (req w r))\<rparr>"

definition upd_res :: "sid \<Rightarrow> (sresponse \<Rightarrow> sresponse) \<Rightarrow> world \<Rightarrow> world" where
  "upd_res s f w = w\<lparr>res := (res w)(s := f (res w s))\<rparr>"

definition upd_stream :: "cid \<Rightarrow> (stream \<Rightarrow> stream) \<Rightarrow> world \<Rightarrow> world" where
  "upd_stream i f = upd_conn i (\<lambda>c. c\<lparr>stream := f (stream c)\<rparr>)"

abbreviation set_timer :: "cid \<Rightarrow> bool option \<Rightarrow> world \<Rightarrow> world" where
  "set_timer i t \<equiv> upd_conn i (\<lambda>c. c\<lparr>idle_timer := t\<rparr>)"

text \<open>\<open>if (idle_timer) idle_timer->stop()\<close>\<close>

definition stop_timer :: "cid \<Rightarrow> world \<Rightarrow> world" where
  "stop_timer i = upd_conn i (\<lambda>c. c\<lparr>idle_timer := map_option (\<lambda>_. False) (idle_timer c)\<rparr>)"

text \<open>
  The operations of the stream the sources use. A stream that has been shut down or reset transmits
  nothing that is written to it later.
\<close>

definition stream_write :: "ext \<Rightarrow> cid \<Rightarrow> wire \<Rightarrow> world \<Rightarrow> world" where
  "stream_write X i x = upd_stream i (\<lambda>st. if st_open st
     then st\<lparr>st_out := st_out st @ [x], st_wqueue := x_after_write X st\<rparr> else st)"

definition read_ignore :: "cid \<Rightarrow> world \<Rightarrow> world" where
  "read_ignore i = upd_stream i (\<lambda>st. st\<lparr>st_ignore := True\<rparr>)"

definition stream_unlisten :: "cid \<Rightarrow> world \<Rightarrow> world" where
  "stream_unlisten i = upd_stream i (\<lambda>st. st\<lparr>st_listener := False\<rparr>)"

definition stream_close :: "cid \<Rightarrow> world \<Rightarrow> world" where
  "stream_close i = upd_stream i (\<lambda>st. st\<lparr>st_open := False\<rparr>)"

lemmas upd_defs = upd_conn_def upd_req_def upd_res_def upd_stream_def stop_timer_def
  stream_write_def read_ignore_def stream_unlisten_def stream_close_def

named_theorems upd_simps "what an update changes and what it leaves"

lemma upd_conn_simps [simp, upd_simps]:
  "conn (upd_conn i f w) j = (if j = i then f (conn w i) else conn w j)"
  "req (upd_conn i f w) = req w" "res (upd_conn i f w) = res w"
  "next_rid (upd_conn i f w) = next_rid w" "next_sid (upd_conn i f w) = next_sid w"
  "srv_state (upd_conn i f w) = srv_state w" "connections (upd_conn i f w) = connections w"
  "events (upd_conn i f w) = events w" "listeners (upd_conn i f w) = listeners w"
  "hdate_time (upd_conn i f w) = hdate_time w" "hdate_str (upd_conn i f w) = hdate_str w"
  "lastid (upd_conn i f w) = lastid w" "srv_conf (upd_conn i f w) = srv_conf w"
  by (simp_all add: upd_conn_def)

lemma upd_req_simps [simp, upd_simps]:
  "req (upd_req r f w) q = (if q = r then f (req w r) else req w q)"
  "conn (upd_req r f w) = conn w" "res (upd_req r f w) = res w"
  "next_rid (upd_req r f w) = next_rid w" "next_sid (upd_req r f w) = next_sid w"
  "srv_state (upd_req r f w) = srv_state w" "connections (upd_req r f w) = connections w"
  "events (upd_req r f w) = events w" "listeners (upd_req r f w) = listeners w"
  "hdate_time (upd_req r f w) = hdate_time w" "hdate_str (upd_req r f w) = hdate_str w"
  "lastid (upd_req r f w) = lastid w" "srv_conf (upd_req r f w) = srv_conf w"
  by (simp_all add: upd_req_def)

lemma upd_res_simps [simp, upd_simps]:
  "res (upd_res s f w) q = (if q = s then f (res w s) else res w q)"
  "conn (upd_res s f w) = conn w" "req (upd_res s f w) = req w"
  "next_rid (upd_res s f w) = next_rid w" "next_sid (upd_res s f w) = next_sid w"
  "srv_state (upd_res s f w) = srv_state w" "connections (upd_res s f w) = connections w"
  "events (upd_res s f w) = events w" "listeners (upd_res s f w) = listeners w"
  "hdate_time (upd_res s f w) = hdate_time w" "hdate_str (upd_res s f w) = hdate_str w"
  "lastid (upd_res s f w) = lastid w" "srv_conf (upd_res s f w) = srv_conf w"
  by (simp_all add: upd_res_def)

end
