(* ===== verification/ServerCore.thy ===== *)
theory ServerCore
  imports ServerState
begin

text \<open>
  The part of \<^verbatim>\<open>Server\<close> that the connections call back: removal of a connection from the map,
  the end of a graceful stop, and the cached text of the \<^verbatim>\<open>Date\<close> header.
\<close>

section \<open>Removal of a connection, end of a graceful stop\<close>

definition stop_if_done :: "callbacks \<Rightarrow> world call" where
  "stop_if_done cb w =
     (if srv_state w \<noteq> Stopping then Crash AssertFailed
      else if connections w \<noteq> [] then Done w
      else fire cb StopEvent (w\<lparr>srv_state := Initial\<rparr>))"

definition server_remove :: "callbacks \<Rightarrow> cid \<Rightarrow> world call" where
  "server_remove cb i w =
     run [pure_step (\<lambda>w. w\<lparr>connections := filter (\<lambda>j. j \<noteq> i) (connections w)\<rparr>),
          when_step (\<lambda>w. srv_state w = Stopping) (stop_if_done cb)] w"

section \<open>The \<^verbatim>\<open>Date\<close> header\<close>

text \<open>
  \<^verbatim>\<open>date_header_now\<close> returns a reference to \<open>hdate_str\<close>, refreshed first when it is a second old.
  The clock is an unsigned 64-bit count of milliseconds and \<open>now - 1000\<close> wraps below 1000.
\<close>

definition date_stale :: "ext \<Rightarrow> world \<Rightarrow> bool" where
  "date_stale X w \<longleftrightarrow> hdate_time w = 0 \<or> hdate_time w \<le> x_now X - 1000"

definition date_header_now :: "ext \<Rightarrow> world call" where
  "date_header_now X w =
     (if date_stale X w
      then (case rfc822_date (x_gmtime X) of
              None \<Rightarrow> Crash OutOfRange
            | Some s \<Rightarrow> Done (w\<lparr>hdate_time := x_now X, hdate_str := s\<rparr>))
      else Done w)"

lemma date_header_now_cases:
  obtains (crash) "date_header_now X w = Crash OutOfRange" "rfc822_date (x_gmtime X) = None"
  | (keep) "date_header_now X w = Done w"
  | (refresh) s where "rfc822_date (x_gmtime X) = Some s"
      "date_header_now X w = Done (w\<lparr>hdate_time := x_now X, hdate_str := s\<rparr>)"
  by (cases "date_stale X w"; cases "rfc822_date (x_gmtime X)") (auto simp: date_header_now_def)

end
