(* ===== verification/ServerConnection.thy ===== *)
theory ServerConnection
  imports ServerCore
begin

text \<open>
  \<^verbatim>\<open>ServerConnection\<close>: one HTTP connection of the server, with its queue of pipelined requests.
  The definitions follow \<^verbatim>\<open>ServerConnection.cc\<close> method by method. Every callback is a call of
  \<open>cb\<close>, which may itself call into the connection; all state is read again after it returns, as
  the code does. \<open>requests.front()\<close> of an empty deque, a null pointer that is dereferenced and a
  failed \<^verbatim>\<open>assert\<close> are crashes.
\<close>

section \<open>Construction\<close>

definition new_srequest :: "cid \<Rightarrow> world \<Rightarrow> srequest" where
  "new_srequest i w =
     \<lparr>r_conn = Some i, r_server = False, r_resp = None, r_routed = False, r_partial = False,
      r_fin = False, r_done = False, r_secure = st_secure (stream (conn w i)),
      r_keep = False, r_connhdr = '''', r_expects = False, r_version = 0\<rparr>"

definition new_stream :: "bool \<Rightarrow> stream" where
  "new_stream secure =
     \<lparr>st_open = True, st_ignore = False, st_listener = True, st_secure = secure,
      st_out = [], st_wqueue = 0\<rparr>"

definition new_connection :: "ext \<Rightarrow> config \<Rightarrow> bool \<Rightarrow> connection" where
  "new_connection X conf secure =
     \<lparr>stream = new_stream secure, requests = [], requests_processed = 0,
      idle_timeout = cf_idle_timeout conf,
      max_keepalive_requests = ucast (cf_max_keepalive_requests conf),
      idle_timer = (if cf_idle_timeout conf \<noteq> 0 then Some True else None),
      closing = False, stopping = False, establish_time = x_now X, cur = None\<rparr>"

text \<open>\<^verbatim>\<open>new_request()\<close> with no user factory: the object, and its identity as \<open>next_rid\<close> before.\<close>

definition new_request :: "cid \<Rightarrow> world \<Rightarrow> world" where
  "new_request i w = (upd_req (next_rid w) (\<lambda>_. new_srequest i w) w)\<lparr>next_rid := Suc (next_rid w)\<rparr>"

section \<open>Removing requests, closing\<close>

definition cleanup_request :: "callbacks \<Rightarrow> cid \<Rightarrow> world call" where
  "cleanup_request cb i w =
     (case requests (conn w i) of
        [] \<Rightarrow> Crash FrontOfEmpty
      | r # rs \<Rightarrow>
          fire cb (FinishEvent r)
            (upd_conn i (\<lambda>c. c\<lparr>requests := rs\<rparr>)
              (upd_req r (\<lambda>q. q\<lparr>r_conn := None, r_server := False\<rparr>) w)))"

definition notify_dropped :: "callbacks \<Rightarrow> rid \<Rightarrow> error_code \<Rightarrow> world call" where
  "notify_dropped cb r err w =
     (if \<not> r_done (req w r) then
        (if r_partial (req w r) then fire cb (PartialEvent r err) w
         else fire cb (ErrorEvent r err) w)
      else
        (case r_resp (req w r) of
           Some s \<Rightarrow> if s_completed (res w s) then Done w else fire cb (DropEvent r err) w
         | None \<Rightarrow> fire cb (DropEvent r err) w))"

text \<open>
  The loop of \<^verbatim>\<open>drop_requests\<close> runs while there are requests; the bound is their number when it
  starts, and each round removes one.
\<close>

primrec drop_loop :: "callbacks \<Rightarrow> cid \<Rightarrow> error_code \<Rightarrow> nat \<Rightarrow> world call" where
  "drop_loop cb i err 0 w = (if requests (conn w i) = [] then Done w else Crash LoopBound)"
| "drop_loop cb i err (Suc n) w =
     (case requests (conn w i) of
        [] \<Rightarrow> Done w
      | r # _ \<Rightarrow> run [cleanup_request cb i, notify_dropped cb r err, drop_loop cb i err n] w)"

definition drop_requests :: "callbacks \<Rightarrow> cid \<Rightarrow> error_code \<Rightarrow> world call" where
  "drop_requests cb i err w = drop_loop cb i err (length (requests (conn w i))) w"

definition do_close :: "callbacks \<Rightarrow> cid \<Rightarrow> error_code \<Rightarrow> bool \<Rightarrow> world call" where
  "do_close cb i err soft w =
     run [pure_step (if soft then stream_close i
                     else stream_close i \<circ> stream_unlisten i \<circ> stop_timer i),
          drop_requests cb i err,
          when_step (\<lambda>_. \<not> soft) (server_remove cb i)] w"

definition close :: "callbacks \<Rightarrow> cid \<Rightarrow> error_code \<Rightarrow> world call" where
  "close cb i err = do_close cb i err False"

definition shutdown :: "callbacks \<Rightarrow> cid \<Rightarrow> error_code \<Rightarrow> world call" where
  "shutdown cb i err = do_close cb i err True"

definition graceful_stop :: "callbacks \<Rightarrow> cid \<Rightarrow> world call" where
  "graceful_stop cb i w =
     (if requests (conn w i) = [] then shutdown cb i (HttpErrc server_stopping) w
      else Done (upd_conn i (\<lambda>c. c\<lparr>stopping := True\<rparr>) w))"

text \<open>\<open>idle_timer->active()\<close> is read only when there is no request.\<close>

definition check_if_idle :: "cid \<Rightarrow> world call" where
  "check_if_idle i w =
     (if requests (conn w i) \<noteq> [] then Done w
      else (case idle_timer (conn w i) of
              None \<Rightarrow> Crash NullDeref
            | Some active \<Rightarrow>
                if \<not> active \<and> st_wqueue (stream (conn w i)) = 0
                then Done (set_timer i (Some True) w) else Done w))"

section \<open>Writing responses\<close>

definition body_length :: "sresponse \<Rightarrow> nat" where
  "body_length s = length (concat (s_body s))"

text \<open>\<open>if (!res->code) ...; if (!res->headers.has("Date")) ...\<close>\<close>

definition fill_defaults :: "ext \<Rightarrow> sid \<Rightarrow> world call" where
  "fill_defaults X s w =
     run [pure_step (upd_res s (\<lambda>p. if s_code p = 0 then p\<lparr>s_code := 200\<rparr> else p)),
          when_step (\<lambda>w. s_date (res w s) = None)
            (\<lambda>w. run [date_header_now X,
                      \<lambda>w. Done (upd_res s (\<lambda>p. p\<lparr>s_date := Some (hdate_str w)\<rparr>) w)] w)] w"

text \<open>The chunks that are taken out of the body so that they follow the head one by one.\<close>

definition takes_chunks :: "sresponse \<Rightarrow> bool" where
  "takes_chunks p \<longleftrightarrow> s_chunked p \<and> \<not> s_completed p \<and> body_length p > 0"

definition ends_connection :: "world \<Rightarrow> rid \<Rightarrow> sid \<Rightarrow> bool" where
  "ends_connection w r s \<longleftrightarrow> \<not> s_keep (res w s) \<or> \<not> r_keep (req w r)"

definition write_head :: "ext \<Rightarrow> cid \<Rightarrow> rid \<Rightarrow> sid \<Rightarrow> world \<Rightarrow> world" where
  "write_head X i r s w =
     stream_write X i
       (Head r s (ends_connection w r s) (s_completed (res w s)) (s_body (res w s))) w"

fun write_chunks :: "ext \<Rightarrow> cid \<Rightarrow> sid \<Rightarrow> string list \<Rightarrow> world \<Rightarrow> world" where
  "write_chunks X i s [] w = w"
| "write_chunks X i s (x # xs) w = write_chunks X i s xs (stream_write X i (Chunk s x) w)"

text \<open>
  \<open>requests.pop_front(); drop_requests(errc::pipeline_canceled); requests.push_front(req)\<close>, when
  there is more than one request.
\<close>

definition drop_pipelined :: "callbacks \<Rightarrow> cid \<Rightarrow> rid \<Rightarrow> world call" where
  "drop_pipelined cb i r =
     when_step (\<lambda>w. length (requests (conn w i)) > 1)
       (run [pure_step (upd_conn i (\<lambda>c. c\<lparr>requests := tl (requests c)\<rparr>)),
             drop_requests cb i (HttpErrc pipeline_canceled),
             pure_step (upd_conn i (\<lambda>c. c\<lparr>requests := r # requests c\<rparr>))])"

definition stop_accepting :: "callbacks \<Rightarrow> cid \<Rightarrow> rid \<Rightarrow> world call" where
  "stop_accepting cb i r =
     run [pure_step (upd_conn i (\<lambda>c. c\<lparr>closing := True\<rparr>)),
          pure_step (\<lambda>w. if r_done (req w r) then read_ignore i w else w),
          drop_pipelined cb i r]"

text \<open>
  \<^verbatim>\<open>finish_request\<close>, with the call \<^verbatim>\<open>write_next_response()\<close> it ends in as the argument \<open>next\<close>
  (the two methods call each other).
\<close>

definition finish_with :: "callbacks \<Rightarrow> cid \<Rightarrow> world call \<Rightarrow> world call" where
  "finish_with cb i next w =
     (case requests (conn w i) of
        [] \<Rightarrow> Crash FrontOfEmpty
      | r # _ \<Rightarrow>
          (case r_resp (req w r) of
             None \<Rightarrow> Crash AssertFailed
           | Some s \<Rightarrow>
               if \<not> s_completed (res w s) then Crash AssertFailed
               else if \<not> r_done (req w r) then Done (upd_req r (\<lambda>q. q\<lparr>r_fin := True\<rparr>) w)
               else run
                 [cleanup_request cb i,
                  \<lambda>w. if closing (conn w i) \<or> stopping (conn w i) then
                        (if requests (conn w i) \<noteq> [] then Crash AssertFailed
                         else shutdown cb i NoError w)
                      else (case requests (conn w i) of
                              [] \<Rightarrow> check_if_idle i w
                            | r' # _ \<Rightarrow> if r_resp (req w r') \<noteq> None then next w else Done w)] w))"

definition write_with :: "ext \<Rightarrow> callbacks \<Rightarrow> cid \<Rightarrow> world call \<Rightarrow> world call" where
  "write_with X cb i finish w =
     (case requests (conn w i) of
        [] \<Rightarrow> Crash FrontOfEmpty
      | r # _ \<Rightarrow>
          (case r_resp (req w r) of
             None \<Rightarrow> Crash NullDeref
           | Some s \<Rightarrow>
               (case fill_defaults X s w of
                  Done w \<Rightarrow>
                    let takes = takes_chunks (res w s);
                        tmp = (if takes then s_body (res w s) else []);
                        w = (if takes then upd_res s (\<lambda>p. p\<lparr>s_body := []\<rparr>) w else w);
                        ends = ends_connection w r s
                    in run [pure_step (write_head X i r s),
                            when_step (\<lambda>_. ends) (stop_accepting cb i r),
                            \<lambda>w. if \<not> s_completed (res w s) then Done (write_chunks X i s tmp w)
                                else finish w] w
                | Throw e w \<Rightarrow> Throw e w
                | Crash x \<Rightarrow> Crash x)))"

text \<open>
  Each round of the mutual recursion removes a request from the queue, so the number of requests
  when it starts bounds the rounds.
\<close>

primrec write_next_response :: "ext \<Rightarrow> callbacks \<Rightarrow> cid \<Rightarrow> nat \<Rightarrow> world call" where
  "write_next_response X cb i 0 w = Crash LoopBound"
| "write_next_response X cb i (Suc n) w =
     write_with X cb i (finish_with cb i (write_next_response X cb i n)) w"

definition finish_request :: "ext \<Rightarrow> callbacks \<Rightarrow> cid \<Rightarrow> world call" where
  "finish_request X cb i w =
     finish_with cb i (write_next_response X cb i (length (requests (conn w i)))) w"

section \<open>Responding\<close>

definition link_response :: "rid \<Rightarrow> sid \<Rightarrow> world \<Rightarrow> world" where
  "link_response r s w =
     upd_res s (\<lambda>p. p\<lparr>s_req := Some r\<rparr>) (upd_req r (\<lambda>q. q\<lparr>r_resp := Some s\<rparr>) w)"

definition keepalive_limit_hit :: "cid \<Rightarrow> world \<Rightarrow> bool" where
  "keepalive_limit_hit i w \<longleftrightarrow>
     max_keepalive_requests (conn w i) \<noteq> 0 \<and>
     max_keepalive_requests (conn w i) \<le> requests_processed (conn w i) \<and>
     length (requests (conn w i)) = 1"

definition mark_completed :: "sid \<Rightarrow> world \<Rightarrow> world" where
  "mark_completed s = upd_res s (\<lambda>p. if \<not> s_chunked p \<or> body_length p > 0
     then p\<lparr>s_completed := True\<rparr> else p)"

definition respond :: "ext \<Rightarrow> callbacks \<Rightarrow> cid \<Rightarrow> rid \<Rightarrow> sid \<Rightarrow> world call" where
  "respond X cb i r s w =
     (if r_conn (req w r) \<noteq> Some i then Crash AssertFailed
      else if r_resp (req w r) \<noteq> None then
        Throw (HttpError ''double response for request given'') w
      else run
        [pure_step (link_response r s),
         pure_step (upd_conn i (\<lambda>c. c\<lparr>requests_processed := requests_processed c + 1\<rparr>)),
         when_step (keepalive_limit_hit i) (graceful_stop cb i),
         pure_step (\<lambda>w. if stopping (conn w i) then upd_res s (\<lambda>p. p\<lparr>s_keep := False\<rparr>) w else w),
         pure_step (mark_completed s),
         \<lambda>w. case requests (conn w i) of
               [] \<Rightarrow> Crash FrontOfEmpty
             | f # _ \<Rightarrow> if f = r
                 then write_next_response X cb i (length (requests (conn w i))) w
                 else Done w] w)"

definition send_continue :: "ext \<Rightarrow> cid \<Rightarrow> rid \<Rightarrow> world call" where
  "send_continue X i r w =
     (case requests (conn w i) of
        [] \<Rightarrow> Crash AssertFailed
      | f # _ \<Rightarrow>
          if f \<noteq> r then Done w
          else if \<not> r_expects (req w r) \<or> r_version (req w r) = 10 then Done w
          else if r_resp (req w r) \<noteq> None then
            Throw (HttpError ''100-continue can only be sent before response'') w
          else Done (stream_write X i (Continue100 r) w))"

definition send_chunk :: "ext \<Rightarrow> cid \<Rightarrow> sid \<Rightarrow> string \<Rightarrow> world call" where
  "send_chunk X i s chunk w =
     (case requests (conn w i) of
        [] \<Rightarrow> Crash AssertFailed
      | f # _ \<Rightarrow>
          if chunk = [] then Done w
          else if r_resp (req w f) = Some s then Done (stream_write X i (Chunk s chunk) w)
          else Done (upd_res s (\<lambda>p. p\<lparr>s_body := s_body p @ [chunk]\<rparr>) w))"

definition send_final_chunk :: "ext \<Rightarrow> callbacks \<Rightarrow> cid \<Rightarrow> sid \<Rightarrow> string \<Rightarrow> world call" where
  "send_final_chunk X cb i s chunk w =
     (case requests (conn w i) of
        [] \<Rightarrow> Crash AssertFailed
      | f # _ \<Rightarrow>
          run [pure_step (upd_res s (\<lambda>p. p\<lparr>s_completed := True\<rparr>)),
               \<lambda>w. if r_resp (req w f) \<noteq> Some s then Done w
                   else finish_request X cb i (stream_write X i (Final s chunk) w)] w)"

section \<open>Errors while receiving\<close>

definition error_padding :: string where
  "error_padding = ''<!-- a padding to disable MSIE and Chrome friendly error page -->'' @ [CHR 10]"

definition error_body :: "string \<Rightarrow> string" where
  "error_body full_message =
     ''<html>'' @ [CHR 10] @ ''<head><title>'' @ full_message @ ''</title></head>'' @ [CHR 10] @
     ''<body bgcolor='' @ [CHR 34] @ ''white'' @ [CHR 34] @ ''>'' @ [CHR 10] @
     ''<center><h1>'' @ full_message @ ''</h1></center>'' @ [CHR 10] @
     ''<hr><center>UniEvent-HTTP</center>'' @ [CHR 10] @ ''</body>'' @ [CHR 10] @
     ''</html>'' @ [CHR 10] @ concat (replicate 6 error_padding)"

text \<open>A new response object; its identity is \<open>next_sid\<close> before.\<close>

definition new_response :: "sresponse \<Rightarrow> world \<Rightarrow> world" where
  "new_response p w = (upd_res (next_sid w) (\<lambda>_. p) w)\<lparr>next_sid := Suc (next_sid w)\<rparr>"

definition default_error_response :: "ext \<Rightarrow> int \<Rightarrow> world call" where
  "default_error_response X code w =
     run [date_header_now X,
          \<lambda>w. Done (new_response
            \<lparr>s_code = code, s_keep = False, s_chunked = False, s_headers = [],
             s_date = Some (hdate_str w), s_body = [error_body (x_full_message X code)],
             s_req = None, s_completed = False\<rparr> w)] w"

definition request_error :: "ext \<Rightarrow> callbacks \<Rightarrow> cid \<Rightarrow> rid \<Rightarrow> error_code \<Rightarrow> world call" where
  "request_error X cb i r err w =
     run [pure_step (read_ignore i),
          \<lambda>w. if r_partial (req w r) then fire cb (PartialEvent r err) w
              else fire cb (ErrorEvent r err) w,
          \<lambda>w. case r_resp (req w r) of
                None \<Rightarrow>
                  run [default_error_response X 400, respond X cb i r (next_sid w)] w
              | Some s \<Rightarrow>
                  Done (if s_keep (res w s) then upd_res s (\<lambda>p. p\<lparr>s_keep := False\<rparr>) w else w)] w"

section \<open>Receiving\<close>

text \<open>
  The parser is outside the repository. What \<^verbatim>\<open>on_read\<close> sees of it is the sequence of results of
  \<^verbatim>\<open>parse_shift\<close> on the buffer, one for each round of its loop until the buffer is empty, so the
  buffer is that sequence here. A result tells whether the parser made a new request object for it
  or returned the one of the previous result, how far the message is parsed, the error if any, and
  what the message answers now.
\<close>

record parse_result =
  pr_new :: bool
  pr_state :: parse_state
  pr_error :: error_code
  pr_keep :: bool
  pr_connhdr :: string
  pr_expects :: bool
  pr_version :: nat

definition parsed_into :: "parse_result \<Rightarrow> srequest \<Rightarrow> srequest" where
  "parsed_into p q =
     q\<lparr>r_keep := pr_keep p, r_connhdr := pr_connhdr p, r_expects := pr_expects p,
       r_version := pr_version p\<rparr>"

text \<open>
  \<open>auto result = parser.parse_shift(buf)\<close> and \<open>auto req = ... result.request\<close>: the request is
  \<open>cur\<close> afterwards.
\<close>

definition take_result :: "cid \<Rightarrow> parse_result \<Rightarrow> world \<Rightarrow> world" where
  "take_result i p w =
     (let w = (if pr_new p \<or> cur (conn w i) = None
               then upd_conn i (\<lambda>c. c\<lparr>cur := Some (next_rid w)\<rparr>) (new_request i w) else w)
      in upd_req (the (cur (conn w i))) (parsed_into p) w)"

definition enqueue_request :: "cid \<Rightarrow> rid \<Rightarrow> world \<Rightarrow> world" where
  "enqueue_request i r w =
     (if requests (conn w i) = [] \<or> last (requests (conn w i)) \<noteq> r
      then upd_conn i (\<lambda>c. c\<lparr>requests := requests c @ [r]\<rparr>) w else w)"

text \<open>One round up to the check of the error: the request of the round and the world then.\<close>

definition receive_result :: "cid \<Rightarrow> parse_result \<Rightarrow> world \<Rightarrow> rid \<times> world" where
  "receive_result i p w =
     (let w = take_result i p (stop_timer i w);
          r = the (cur (conn w i));
          w = enqueue_request i r w
      in (r, upd_req r (\<lambda>q. q\<lparr>r_done := (state_rank (pr_state p) \<ge> state_rank StDone)\<rparr>) w))"

definition route :: "callbacks \<Rightarrow> rid \<Rightarrow> world call" where
  "route cb r =
     when_step (\<lambda>w. \<not> r_routed (req w r))
       (\<lambda>w. fire cb (RouteEvent r) (upd_req r (\<lambda>q. q\<lparr>r_routed := True, r_server := True\<rparr>) w))"

definition deliver :: "callbacks \<Rightarrow> rid \<Rightarrow> parse_state \<Rightarrow> world call" where
  "deliver cb r st w =
     (if r_partial (req w r) then fire cb (PartialEvent r NoError) w
      else if st = StDone then run [fire cb (ReceiveEvent r), fire cb (RequestEvent r)] w
      else Done w)"

definition upgrade_pipelined :: "cid \<Rightarrow> rid \<Rightarrow> world \<Rightarrow> bool" where
  "upgrade_pipelined i r w \<longleftrightarrow>
     length (requests (conn w i)) > 1 \<and> r_connhdr (req w r) = ''upgrade''"

text \<open>
  The loop. A \<open>return\<close> or \<open>break\<close> leaves the rest of the buffer unread.
\<close>

primrec read_loop :: "ext \<Rightarrow> callbacks \<Rightarrow> cid \<Rightarrow> parse_result list \<Rightarrow> world call" where
  "read_loop X cb i [] w = Done w"
| "read_loop X cb i (p # ps) w =
     (let (r, w) = receive_result i p w in
      if pr_error p \<noteq> NoError then request_error X cb i r (pr_error p) w
      else if state_rank (pr_state p) \<le> state_rank StHeaders then Done w
      else if upgrade_pipelined i r w then
        run [request_error X cb i r (HttpErrc upgrade_in_pipeline), pure_step (read_ignore i)] w
      else run
        [route cb r,
         deliver cb r (pr_state p),
         \<lambda>w. if pr_state p = StDone then
               (if r_fin (req w r) then run [finish_request X cb i, read_loop X cb i ps] w
                else if closing (conn w i) \<or> \<not> r_keep (req w r) then Done (read_ignore i w)
                else read_loop X cb i ps w)
             else read_loop X cb i ps w] w)"

text \<open>\<^verbatim>\<open>on_read\<close> with an error: the request being received, or one made for it, fails.\<close>

definition on_read_error :: "ext \<Rightarrow> callbacks \<Rightarrow> cid \<Rightarrow> error_code \<Rightarrow> world call" where
  "on_read_error X cb i err w =
     (let w = stop_timer i w;
          rs = requests (conn w i);
          w = (if rs = [] \<or> r_done (req w (last rs))
               then upd_conn i (\<lambda>c. c\<lparr>requests := requests c @ [next_rid w]\<rparr>) (new_request i w)
               else w);
          r = last (requests (conn w i))
      in request_error X cb i r err (upd_req r (\<lambda>q. q\<lparr>r_done := True\<rparr>) w))"

definition on_read :: "ext \<Rightarrow> callbacks \<Rightarrow> cid \<Rightarrow> parse_result list \<Rightarrow> error_code \<Rightarrow> world call" where
  "on_read X cb i buf err w =
     (if err \<noteq> NoError then on_read_error X cb i err w else read_loop X cb i buf w)"

section \<open>Other events of the stream and the idle timer\<close>

text \<open>\<open>wq\<close> is the size of the write queue the stream reports when the event arrives.\<close>

definition on_write :: "callbacks \<Rightarrow> cid \<Rightarrow> error_code \<Rightarrow> nat \<Rightarrow> world call" where
  "on_write cb i err wq w =
     (let w = upd_stream i (\<lambda>st. st\<lparr>st_wqueue := wq\<rparr>) w
      in if err \<noteq> NoError then close cb i err w else check_if_idle i w)"

definition on_connection :: "callbacks \<Rightarrow> cid \<Rightarrow> error_code \<Rightarrow> world call" where
  "on_connection cb i err w = (if err = NoError then Done w else close cb i err w)"

definition on_shutdown :: "callbacks \<Rightarrow> cid \<Rightarrow> error_code \<Rightarrow> world call" where
  "on_shutdown cb i err w =
     run [pure_step (stream_unlisten i \<circ> stop_timer i), server_remove cb i] w"

definition on_eof :: "callbacks \<Rightarrow> cid \<Rightarrow> world call" where
  "on_eof cb i = shutdown cb i (StdErrc connection_reset)"

text \<open>The timer is one-shot: it is inactive when its callback runs.\<close>

definition on_idle_timer :: "callbacks \<Rightarrow> cid \<Rightarrow> world call" where
  "on_idle_timer cb i w =
     (let w = stop_timer i w
      in if requests (conn w i) \<noteq> [] then Crash AssertFailed else close cb i NoError w)"

section \<open>Upgrade\<close>

definition upgrade :: "callbacks \<Rightarrow> cid \<Rightarrow> rid \<Rightarrow> world call" where
  "upgrade cb i r w =
     (if length (requests (conn w i)) \<noteq> 1 \<or> hd (requests (conn w i)) \<noteq> r
      then Throw (LogicError ''should not happen'') w
      else run
        [pure_step (stream_unlisten i),
         pure_step (set_timer i None),
         cleanup_request cb i,
         server_remove cb i] w)"

end
