(* ===== verification/ServerRequest.thy ===== *)
theory ServerRequest
  imports ServerConnection
begin

text \<open>
  \<^verbatim>\<open>ServerRequest\<close> and \<^verbatim>\<open>ServerResponse\<close>: the methods user code calls on the objects it holds. They
  find the connection through the request's back pointer, which is null once the request has left
  the connection's queue; calls are ignored then.
\<close>

definition ServerRequest_respond :: "ext \<Rightarrow> callbacks \<Rightarrow> rid \<Rightarrow> sid \<Rightarrow> world call" where
  "ServerRequest_respond X cb r s w =
     (case r_conn (req w r) of None \<Rightarrow> Done w | Some i \<Rightarrow> respond X cb i r s w)"

definition ServerRequest_send_continue :: "ext \<Rightarrow> rid \<Rightarrow> world call" where
  "ServerRequest_send_continue X r w =
     (case r_conn (req w r) of None \<Rightarrow> Done w | Some i \<Rightarrow> send_continue X i r w)"

text \<open>
  \<^verbatim>\<open>new ServerResponse(302, Headers().location(uri))\<close>: what its \<^verbatim>\<open>keep_alive()\<close> answers with no
  \<^verbatim>\<open>Connection\<close> header is the argument \<open>dflt_keep\<close>.
\<close>

definition redirect_response :: "bool \<Rightarrow> string \<Rightarrow> sresponse" where
  "redirect_response dflt_keep uri =
     \<lparr>s_code = 302, s_keep = dflt_keep, s_chunked = False, s_headers = [(''Location'', uri)],
      s_date = None, s_body = [], s_req = None, s_completed = False\<rparr>"

definition ServerRequest_redirect ::
  "ext \<Rightarrow> callbacks \<Rightarrow> bool \<Rightarrow> rid \<Rightarrow> string \<Rightarrow> world call" where
  "ServerRequest_redirect X cb dflt_keep r uri w =
     ServerRequest_respond X cb r (next_sid w) (new_response (redirect_response dflt_keep uri) w)"

definition ServerRequest_enable_partial :: "rid \<Rightarrow> world \<Rightarrow> world" where
  "ServerRequest_enable_partial r = upd_req r (\<lambda>q. q\<lparr>r_partial := True\<rparr>)"

definition response_completed :: "world \<Rightarrow> rid \<Rightarrow> bool" where
  "response_completed w r \<longleftrightarrow>
     (case r_resp (req w r) of None \<Rightarrow> False | Some s \<Rightarrow> s_completed (res w s))"

definition ServerRequest_drop :: "callbacks \<Rightarrow> rid \<Rightarrow> world call" where
  "ServerRequest_drop cb r w =
     (case r_conn (req w r) of
        None \<Rightarrow> Done w
      | Some i \<Rightarrow> if response_completed w r then Done w
                  else close cb i (StdErrc operation_canceled) w)"

text \<open>The result is an error code or the stream, named by its connection.\<close>

definition ServerRequest_upgrade ::
  "ext \<Rightarrow> callbacks \<Rightarrow> rid \<Rightarrow> world \<Rightarrow> ((error_code + cid) \<times> world) outcome" where
  "ServerRequest_upgrade X cb r w =
     (case r_conn (req w r) of
        None \<Rightarrow> Done (Inl (StdErrc connection_aborted), w)
      | Some i \<Rightarrow>
          if \<not> x_iequals X (r_connhdr (req w r)) ''upgrade''
          then Done (Inl (HttpErrc upgrade_wrong_request), w)
          else map_outcome (\<lambda>w. (Inr i, w)) (upgrade cb i r w))"

definition ServerResponse_send_chunk :: "ext \<Rightarrow> sid \<Rightarrow> string \<Rightarrow> world call" where
  "ServerResponse_send_chunk X s chunk w =
     (if s_completed (res w s) then
        Throw (HttpError (''can'' @ [CHR 39] @
          ''t send chunk: response has already been completed'')) w
      else (case s_req (res w s) of
              None \<Rightarrow> Done w
            | Some r \<Rightarrow> (case r_conn (req w r) of
                           None \<Rightarrow> Done w
                         | Some i \<Rightarrow> send_chunk X i s chunk w)))"

definition ServerResponse_send_final_chunk ::
  "ext \<Rightarrow> callbacks \<Rightarrow> sid \<Rightarrow> string \<Rightarrow> world call" where
  "ServerResponse_send_final_chunk X cb s chunk w =
     (if s_completed (res w s) then
        Throw (HttpError (''can'' @ [CHR 39] @
          ''t send chunk: response has already been completed'')) w
      else (case s_req (res w s) of
              None \<Rightarrow> Done w
            | Some r \<Rightarrow> (case r_conn (req w r) of
                           None \<Rightarrow> Done w
                         | Some i \<Rightarrow> send_final_chunk X cb i s chunk w)))"

end
