(* ===== verification/Server.thy ===== *)
theory Server
  imports ServerRequest
begin

text \<open>
  \<^verbatim>\<open>Server\<close>: configuration, listening, running and the two ways of stopping
  (\<^verbatim>\<open>Server.cc\<close>). The sockets are outside the repository: whether binding a location works and what
  a socket handed over by the user is bound to are arguments.
\<close>

section \<open>Listening\<close>

definition pipe_listener :: "string \<Rightarrow> location \<Rightarrow> listener" where
  "pipe_listener path loc =
     \<lparr>l_type = PipeType, l_path = path, l_host = '''', l_port = 0,
      l_backlog = loc_backlog loc, l_nodelay = False, l_reuse_port = False,
      l_ssl_ctx = loc_ssl_ctx loc\<rparr>"

definition tcp_listener :: "string \<Rightarrow> 16 word \<Rightarrow> bool \<Rightarrow> location \<Rightarrow> listener" where
  "tcp_listener host port reuse loc =
     \<lparr>l_type = TcpType, l_path = '''', l_host = host, l_port = port,
      l_backlog = loc_backlog loc, l_nodelay = loc_tcp_nodelay loc, l_reuse_port = reuse,
      l_ssl_ctx = loc_ssl_ctx loc\<rparr>"

text \<open>
  The listener made for a location: on a socket handed over by the user (a unix socket or a TCP
  one), on a path, or on a host and port.
\<close>

definition listener_of :: "ext \<Rightarrow> location \<Rightarrow> listener" where
  "listener_of X loc =
     (case loc_sock loc of
        Some sock \<Rightarrow>
          (case x_sock_unix X sock of
             Some path \<Rightarrow> pipe_listener path loc
           | None \<Rightarrow> tcp_listener (fst (x_sock_addr X sock)) (snd (x_sock_addr X sock)) False loc)
      | None \<Rightarrow>
          if loc_path loc \<noteq> '''' then pipe_listener (loc_path loc) loc
          else tcp_listener (loc_host loc) (loc_port loc) (loc_reuse_port loc) loc)"

text \<open>A unix socket handed over by the user sets the location's path.\<close>

definition located :: "ext \<Rightarrow> location \<Rightarrow> location" where
  "located X loc =
     (case loc_sock loc of
        Some sock \<Rightarrow> (case x_sock_unix X sock of
                         Some path \<Rightarrow> loc\<lparr>loc_path := path\<rparr>
                       | None \<Rightarrow> loc)
      | None \<Rightarrow> loc)"

text \<open>The socket file of a path location is removed before binding.\<close>

definition unlinks :: "location \<Rightarrow> string list" where
  "unlinks loc = (if loc_sock loc = None \<and> loc_path loc \<noteq> '''' then [loc_path loc] else [])"

text \<open>
  The loop over the locations: the second argument is the number of the location in the
  configuration. An exception of \<open>bind\<close> leaves the listeners made so far.
\<close>

fun listen_loop :: "ext \<Rightarrow> nat \<Rightarrow> location list \<Rightarrow> world call" where
  "listen_loop X n [] w = Done w"
| "listen_loop X n (loc # locs) w =
     (let w = w\<lparr>unlinked := unlinked w @ unlinks loc,
                srv_conf := (srv_conf w)\<lparr>cf_locations :=
                  (cf_locations (srv_conf w))[n := located X loc]\<rparr>\<rparr>
      in (case x_bind_error X loc of
            Some e \<Rightarrow> Throw e w
          | None \<Rightarrow>
              listen_loop X (Suc n) locs (w\<lparr>listeners := listeners w @ [listener_of X loc]\<rparr>)))"

definition start_listening :: "ext \<Rightarrow> world call" where
  "start_listening X w =
     (if listeners w \<noteq> [] then Throw (HttpError ''server is already listening'') w
      else listen_loop X 0 (cf_locations (srv_conf w)) w)"

definition stop_listening :: "world \<Rightarrow> world" where
  "stop_listening w =
     w\<lparr>unlinked := unlinked w @ map l_path (filter (\<lambda>l. l_type l = PipeType) (listeners w)),
       listeners := []\<rparr>"

section \<open>Configuration\<close>

definition configure :: "ext \<Rightarrow> config \<Rightarrow> world call" where
  "configure X conf w =
     (case check_config conf of
        Some e \<Rightarrow> Throw e w
      | None \<Rightarrow>
          run [pure_step (\<lambda>w. if srv_state w = Running then stop_listening w else w),
               pure_step (\<lambda>w. w\<lparr>srv_conf := normalize_config conf\<rparr>),
               when_step (\<lambda>w. srv_state w = Running) (start_listening X)] w)"

section \<open>Running and stopping\<close>

definition server_run :: "ext \<Rightarrow> callbacks \<Rightarrow> world call" where
  "server_run X cb w =
     (if srv_state w \<noteq> Initial then Throw (HttpError ''server is already running'') w
      else run [pure_step (\<lambda>w. w\<lparr>srv_state := Running\<rparr>), start_listening X, fire cb RunEvent] w)"

text \<open>
  \<open>while (_connections.size()) _connections.begin()->second->close(...)\<close>: the map is ordered by
  the connection's number, and \<open>close\<close> removes the connection. The bound is the number of
  connections when the loop starts.
\<close>

definition first_connection :: "cid list \<Rightarrow> cid" where
  "first_connection cs = Min (set cs)"

primrec close_all :: "callbacks \<Rightarrow> error_code \<Rightarrow> nat \<Rightarrow> world call" where
  "close_all cb err 0 w = (if connections w = [] then Done w else Crash LoopBound)"
| "close_all cb err (Suc n) w =
     (if connections w = [] then Done w
      else run [close cb (first_connection (connections w)) err, close_all cb err n] w)"

definition server_stop :: "callbacks \<Rightarrow> world call" where
  "server_stop cb w =
     (if srv_state w \<noteq> Running \<and> srv_state w \<noteq> Stopping then Done w
      else run [pure_step stop_listening,
                \<lambda>w. close_all cb (HttpErrc server_stopping) (length (connections w)) w,
                pure_step (\<lambda>w. w\<lparr>srv_state := Initial\<rparr>),
                fire cb StopEvent] w)"

text \<open>The connections are collected in the map's order before the first of them is stopped.\<close>

definition server_graceful_stop :: "callbacks \<Rightarrow> world call" where
  "server_graceful_stop cb w =
     (if srv_state w \<noteq> Running then Done w
      else run [pure_step (\<lambda>w. stop_listening (w\<lparr>srv_state := Stopping\<rparr>)),
                \<lambda>w. run (map (graceful_stop cb) (sort (connections w))) w,
                stop_if_done cb] w)"

text \<open>The destructor.\<close>

definition server_destroy :: "callbacks \<Rightarrow> world call" where
  "server_destroy cb w = close_all cb (StdErrc connection_reset) (length (connections w)) w"

section \<open>Accepting a connection\<close>

definition on_establish :: "ext \<Rightarrow> callbacks \<Rightarrow> bool \<Rightarrow> error_code \<Rightarrow> world call" where
  "on_establish X cb secure err w =
     (if err \<noteq> NoError then Done w
      else (let i = lastid w + 1
            in run [pure_step (\<lambda>w. upd_conn i (\<lambda>_. new_connection X (srv_conf w) secure)
                      (w\<lparr>lastid := i, connections := i # filter (\<lambda>j. j \<noteq> i) (connections w)\<rparr>)),
                    fire cb (ConnectEvent i)] w))"

text \<open>\<^verbatim>\<open>Server::sockaddr\<close>: the address of the first listener.\<close>

definition server_sockaddr :: "world \<Rightarrow> error_code + listener" where
  "server_sockaddr w =
     (case listeners w of [] \<Rightarrow> Inl (StdErrc not_connected) | l # _ \<Rightarrow> Inr l)"

end
