(* ===== verification/Wire.thy ===== *)
theory Wire
  imports Server
begin

text \<open>
  The contract of a connection towards its client, as a grammar of what is written to the stream:
  responses are whole messages, one after the other, in the order in which the requests arrived, at
  most one for each request; the chunks of a chunked message follow its head and nothing comes
  between them; an interim response stands only between messages, for a request that has no
  response yet; and nothing follows the message that ends the connection.
\<close>

text \<open>
  The state of a reader: the number every further head must reach, the message that is being sent
  in chunks, and whether a head has announced the end of the connection. Requests are numbered in
  the order of their arrival.
\<close>

type_synonym wstate = "nat \<times> sid option \<times> bool"

fun wnext :: "wstate \<Rightarrow> wire \<Rightarrow> wstate option" where
  "wnext (n, m, e) (Head r s cl fin parts) =
     (if m = None \<and> \<not> e \<and> n \<le> r then Some (Suc r, if fin then None else Some s, cl) else None)"
| "wnext (n, m, e) (Chunk s x) = (if m = Some s then Some (n, m, e) else None)"
| "wnext (n, m, e) (Final s x) = (if m = Some s then Some (n, None, e) else None)"
| "wnext (n, m, e) (Continue100 r) =
     (if m = None \<and> \<not> e \<and> n \<le> r then Some (n, m, e) else None)"

fun wscan :: "wstate \<Rightarrow> wire list \<Rightarrow> wstate option" where
  "wscan ws [] = Some ws"
| "wscan ws (x # xs) = (case wnext ws x of None \<Rightarrow> None | Some ws' \<Rightarrow> wscan ws' xs)"

definition wire_state :: "wire list \<Rightarrow> wstate option" where
  "wire_state xs = wscan (0, None, False) xs"

definition wire_ok :: "wire list \<Rightarrow> bool" where
  "wire_ok xs \<longleftrightarrow> wire_state xs \<noteq> None"

text \<open>The requests whose responses have been started, and the data sent for one response.\<close>

fun heads :: "wire list \<Rightarrow> rid list" where
  "heads [] = []"
| "heads (Head r s cl fin parts # xs) = r # heads xs"
| "heads (x # xs) = heads xs"

fun payload :: "sid \<Rightarrow> wire list \<Rightarrow> string" where
  "payload s [] = []"
| "payload s (Head r s' cl fin parts # xs) =
     (if s' = s then concat parts else []) @ payload s xs"
| "payload s (Chunk s' x # xs) = (if s' = s then x else []) @ payload s xs"
| "payload s (Final s' x # xs) = (if s' = s then x else []) @ payload s xs"
| "payload s (Continue100 r # xs) = payload s xs"

fun ends_at :: "wire list \<Rightarrow> bool" where
  "ends_at [] = False"
| "ends_at (Head r s cl fin parts # xs) = (cl \<or> ends_at xs)"
| "ends_at (x # xs) = ends_at xs"

lemma wscan_append:
  "wscan ws (xs @ ys) = (case wscan ws xs of None \<Rightarrow> None | Some ws' \<Rightarrow> wscan ws' ys)"
  by (induction xs arbitrary: ws) (auto split: option.split)

lemma wire_ok_appendE:
  assumes "wire_ok (xs @ ys)"
  obtains n m e ws where "wscan (n, m, e) ys = Some ws"
proof -
  obtain ws0 ws where "wscan (0, None, False) xs = Some ws0" "wscan ws0 ys = Some ws"
    using assms by (auto simp: wire_ok_def wire_state_def wscan_append split: option.splits)
  then show ?thesis
    using that by (cases ws0) auto
qed

lemma wire_state_Nil [simp]: "wire_state [] = Some (0, None, False)"
  by (simp add: wire_state_def)

lemma wire_state_snoc:
  "wire_state (xs @ [x]) = (case wire_state xs of None \<Rightarrow> None | Some ws \<Rightarrow> wnext ws x)"
  by (auto simp: wire_state_def wscan_append split: option.split)

lemma heads_append [simp]: "heads (xs @ ys) = heads xs @ heads ys"
  by (induction xs rule: heads.induct) simp_all

lemma payload_append [simp]: "payload s (xs @ ys) = payload s xs @ payload s ys"
  by (induction s xs rule: payload.induct) simp_all

text \<open>What the grammar means for the heads: strictly ascending, so each request at most once.\<close>

lemma wscan_heads:
  "wscan (n, m, e) xs = Some (n', m', e') \<Longrightarrow>
     sorted_wrt (<) (heads xs) \<and> (\<forall>r\<in>set (heads xs). n \<le> r \<and> r < n') \<and> n \<le> n'"
proof (induction xs arbitrary: n m e)
  case Nil
  then show ?case by simp
next
  case (Cons x xs)
  then show ?case
    by (cases x) (fastforce split: if_splits option.splits)+
qed

lemma wire_ok_heads: "wire_ok xs \<Longrightarrow> sorted_wrt (<) (heads xs)"
  using wscan_heads by (fastforce simp: wire_ok_def wire_state_def)

text \<open>After a head that ends the connection there is no other.\<close>

lemma wscan_ended: "wscan (n, m, True) xs = Some ws \<Longrightarrow> heads xs = []"
proof (induction xs arbitrary: n m)
  case Nil
  then show ?case by simp
next
  case (Cons x xs)
  then show ?case by (cases x) (auto split: if_splits)
qed

lemma wire_ok_last_head:
  assumes "wire_ok (xs @ Head r s True fin parts # ys)"
  shows "heads ys = []"
proof -
  obtain n m e ws where "wscan (n, m, e) (Head r s True fin parts # ys) = Some ws"
    using assms by (rule wire_ok_appendE)
  then show ?thesis
    by (auto split: option.splits if_splits dest: wscan_ended)
qed

text \<open>Between the head of an unfinished message and its end there are only its own chunks.\<close>

lemma wscan_open_chunks:
  "wscan (n, Some s, e) xs = Some ws \<Longrightarrow>
     \<exists>cs ys. xs = map (Chunk s) cs @ ys \<and> (ys = [] \<or> (\<exists>x zs. ys = Final s x # zs))"
proof (induction xs)
  case Nil
  then show ?case by simp
next
  case (Cons x xs)
  show ?case
  proof (cases x)
    case (Chunk s' c)
    then have "s' = s" "wscan (n, Some s, e) xs = Some ws"
      using Cons.prems by (auto split: if_splits)
    with Cons.IH obtain cs ys where "xs = map (Chunk s) cs @ ys"
      "ys = [] \<or> (\<exists>x zs. ys = Final s x # zs)" by blast
    then have "x # xs = map (Chunk s) (c # cs) @ ys"
      using Chunk \<open>s' = s\<close> by simp
    then show ?thesis
      using \<open>ys = [] \<or> _\<close> by blast
  next
    case (Final s' c)
    then have "x # xs = map (Chunk s) [] @ Final s c # xs"
      using Cons.prems by (auto split: if_splits)
    then show ?thesis by blast
  qed (use Cons.prems in auto)
qed

lemma wire_ok_open_chunks:
  assumes "wire_ok (xs @ Head r s cl False parts # ys)"
  shows "\<exists>cs zs. ys = map (Chunk s) cs @ zs \<and> (zs = [] \<or> (\<exists>x us. zs = Final s x # us))"
proof -
  obtain n m e ws where "wscan (n, m, e) (Head r s cl False parts # ys) = Some ws"
    using assms by (rule wire_ok_appendE)
  then have "\<exists>n. wscan (n, Some s, cl) ys = Some ws"
    by (auto split: option.splits if_splits)
  then show ?thesis
    using wscan_open_chunks by blast
qed

end
