(* ===== verification/Inert.thy ===== *)
theory Inert
  imports Wire
begin

text \<open>
  Callbacks for a request that has left its connection (\<open>finish_event\<close>, \<open>drop_event\<close> and the error
  events of dropped requests) run in the middle of the connection's bookkeeping. The interface of
  this theory says what the connection relies on there: such a callback does not throw and leaves
  the connections as they are; it may do the things that have no effect on a request without a
  connection, and create responses. Under it, the methods that remove requests have a closed form.
\<close>

section \<open>The worlds such a callback may leave\<close>

definition inert :: "world \<Rightarrow> world \<Rightarrow> bool" where
  "inert w w' \<longleftrightarrow>
     conn w' = conn w \<and> lastid w' = lastid w \<and> connections w' = connections w \<and>
     srv_state w' = srv_state w \<and> next_rid w' = next_rid w \<and> next_sid w \<le> next_sid w' \<and>
     (\<forall>r. \<exists>b. req w' r = (req w r)\<lparr>r_partial := b\<rparr>) \<and>
     (\<forall>s. s_req (res w' s) = s_req (res w s) \<and>
            (s < next_sid w \<longrightarrow> s_completed (res w' s) = s_completed (res w s)) \<or>
          next_sid w \<le> s \<and> s_req (res w' s) = None)"

lemma inert_refl [simp]: "inert w w"
proof -
  have "\<exists>b. req w r = (req w r)\<lparr>r_partial := b\<rparr>" for r
    by (rule exI [of _ "r_partial (req w r)"]) simp
  then show ?thesis by (simp add: inert_def)
qed

lemma inert_trans:
  assumes "inert a b" and "inert b c"
  shows "inert a c"
proof -
  have "\<exists>p. req c r = (req a r)\<lparr>r_partial := p\<rparr>" for r
  proof -
    obtain p where "req b r = (req a r)\<lparr>r_partial := p\<rparr>"
      using assms(1) by (auto simp: inert_def)
    moreover obtain p' where "req c r = (req b r)\<lparr>r_partial := p'\<rparr>"
      using assms(2) by (auto simp: inert_def)
    ultimately show ?thesis by auto
  qed
  moreover have "s_req (res c s) = s_req (res a s) \<and>
            (s < next_sid a \<longrightarrow> s_completed (res c s) = s_completed (res a s)) \<or>
          next_sid a \<le> s \<and> s_req (res c s) = None" for s
    using assms unfolding inert_def by (smt (verit) order_less_le_trans leD order_trans)
  ultimately show ?thesis
    using assms unfolding inert_def by auto
qed

lemma inert_events [simp]: "inert w (w\<lparr>events := es\<rparr>)" "inert (w\<lparr>events := es\<rparr>) w' = inert w w'"
proof -
  have "\<exists>b. req w r = (req w r)\<lparr>r_partial := b\<rparr>" for r
    by (rule exI [of _ "r_partial (req w r)"]) simp
  then show "inert w (w\<lparr>events := es\<rparr>)" by (simp add: inert_def)
  show "inert (w\<lparr>events := es\<rparr>) w' = inert w w'" by (simp add: inert_def)
qed

lemma inert_req:
  assumes "inert w w'"
  shows "r_conn (req w' r) = r_conn (req w r)" "r_resp (req w' r) = r_resp (req w r)"
    "r_done (req w' r) = r_done (req w r)" "r_server (req w' r) = r_server (req w r)"
    "r_fin (req w' r) = r_fin (req w r)" "r_keep (req w' r) = r_keep (req w r)"
proof -
  obtain b where "req w' r = (req w r)\<lparr>r_partial := b\<rparr>"
    using assms by (auto simp: inert_def)
  then show "r_conn (req w' r) = r_conn (req w r)" "r_resp (req w' r) = r_resp (req w r)"
    "r_done (req w' r) = r_done (req w r)" "r_server (req w' r) = r_server (req w r)"
    "r_fin (req w' r) = r_fin (req w r)" "r_keep (req w' r) = r_keep (req w r)"
    by simp_all
qed

lemma inert_same:
  assumes "inert w w'"
  shows "conn w' = conn w" "lastid w' = lastid w" "connections w' = connections w"
    "srv_state w' = srv_state w" "next_rid w' = next_rid w" "next_sid w \<le> next_sid w'"
  using assms by (simp_all add: inert_def)

text \<open>An update of a connection, or of a request in other fields, commutes.\<close>

lemma inert_upd_conn: "inert w w' \<Longrightarrow> inert (upd_conn i f w) (upd_conn i f w')"
  by (simp add: inert_def upd_conn_def)

lemma inert_upd_req:
  assumes "inert w w'" and "\<And>q b. f (q\<lparr>r_partial := b\<rparr>) = (f q)\<lparr>r_partial := b\<rparr>"
  shows "inert (upd_req r f w) (upd_req r f w')"
proof -
  have "\<exists>b. req (upd_req r f w') q = (req (upd_req r f w) q)\<lparr>r_partial := b\<rparr>" for q
  proof -
    obtain b where "req w' q = (req w q)\<lparr>r_partial := b\<rparr>"
      using assms(1) by (auto simp: inert_def)
    then show ?thesis using assms(2) by auto
  qed
  with assms(1) show ?thesis by (simp add: inert_def)
qed

lemma inert_upd_res:
  assumes "\<And>p. s_req (f p) = s_req p" and "\<And>p. s_completed (f p) = s_completed p"
  shows "inert w (upd_res s f w)"
proof -
  have "\<exists>b. req w r = (req w r)\<lparr>r_partial := b\<rparr>" for r
    by (rule exI [of _ "r_partial (req w r)"]) simp
  then show ?thesis by (simp add: inert_def assms)
qed

lemma inert_hdate: "inert w (w\<lparr>hdate_time := t, hdate_str := d\<rparr>)"
proof -
  have "\<exists>b. req w r = (req w r)\<lparr>r_partial := b\<rparr>" for r
    by (rule exI [of _ "r_partial (req w r)"]) simp
  then show ?thesis by (simp add: inert_def)
qed

lemma inert_new_response:
  assumes "s_req p = None"
  shows "inert w (new_response p w)"
proof -
  have "\<exists>b. req w r = (req w r)\<lparr>r_partial := b\<rparr>" for r
    by (rule exI [of _ "r_partial (req w r)"]) simp
  then show ?thesis using assms by (simp add: inert_def new_response_def)
qed

lemma inert_enable_partial: "inert w (upd_req r (\<lambda>q. q\<lparr>r_partial := b\<rparr>) w)"
proof -
  have "\<exists>c. req (upd_req r (\<lambda>q. q\<lparr>r_partial := b\<rparr>) w) q = (req w q)\<lparr>r_partial := c\<rparr>" for q
    by (cases "q = r") (auto intro: exI [of _ b] exI [of _ "r_partial (req w q)"])
  then show ?thesis by (simp add: inert_def)
qed

lemmas inert_intros = inert_refl inert_events(1) inert_upd_conn inert_upd_res inert_hdate
  inert_new_response inert_enable_partial

section \<open>Closed forms\<close>

definition detach :: "rid set \<Rightarrow> world \<Rightarrow> world" where
  "detach R w = w\<lparr>req := (\<lambda>r. if r \<in> R then (req w r)\<lparr>r_conn := None, r_server := False\<rparr>
                            else req w r)\<rparr>"

definition set_requests :: "cid \<Rightarrow> rid list \<Rightarrow> world \<Rightarrow> world" where
  "set_requests i rs = upd_conn i (\<lambda>c. c\<lparr>requests := rs\<rparr>)"

definition popped :: "cid \<Rightarrow> world \<Rightarrow> world" where
  "popped i w = set_requests i (tl (requests (conn w i))) (detach {hd (requests (conn w i))} w)"

definition dropped :: "cid \<Rightarrow> world \<Rightarrow> world" where
  "dropped i w = set_requests i [] (detach (set (requests (conn w i))) w)"

text \<open>What \<^verbatim>\<open>write_next_response\<close> does to a connection it ends.\<close>

definition cut_pipeline :: "cid \<Rightarrow> rid \<Rightarrow> world \<Rightarrow> world" where
  "cut_pipeline i r w =
     (let w = upd_conn i (\<lambda>c. c\<lparr>closing := True\<rparr>) w;
          w = (if r_done (req w r) then read_ignore i w else w)
      in if length (requests (conn w i)) > 1
         then set_requests i [r] (detach (set (tl (requests (conn w i)))) w) else w)"

lemma detach_simps [simp]:
  "conn (detach R w) = conn w" "res (detach R w) = res w" "next_rid (detach R w) = next_rid w"
  "next_sid (detach R w) = next_sid w" "lastid (detach R w) = lastid w"
  "connections (detach R w) = connections w" "srv_state (detach R w) = srv_state w"
  "req (detach R w) r = (if r \<in> R then (req w r)\<lparr>r_conn := None, r_server := False\<rparr> else req w r)"
  by (simp_all add: detach_def)

lemma set_requests_simps [simp]:
  "conn (set_requests i rs w) j =
     (if j = i then (conn w i)\<lparr>requests := rs\<rparr> else conn w j)"
  "req (set_requests i rs w) = req w" "res (set_requests i rs w) = res w"
  "next_rid (set_requests i rs w) = next_rid w" "next_sid (set_requests i rs w) = next_sid w"
  "lastid (set_requests i rs w) = lastid w" "connections (set_requests i rs w) = connections w"
  "srv_state (set_requests i rs w) = srv_state w"
  by (simp_all add: set_requests_def)

lemma inert_detach:
  assumes "inert w w'"
  shows "inert (detach R w) (detach R w')"
proof -
  have "\<exists>b. req (detach R w') r = (req (detach R w) r)\<lparr>r_partial := b\<rparr>" for r
  proof -
    obtain b where "req w' r = (req w r)\<lparr>r_partial := b\<rparr>"
      using assms by (auto simp: inert_def)
    then show ?thesis by (intro exI [of _ b]) simp
  qed
  with assms show ?thesis by (simp add: inert_def detach_def)
qed

lemma inert_set_requests: "inert w w' \<Longrightarrow> inert (set_requests i rs w) (set_requests i rs w')"
  by (simp add: set_requests_def inert_upd_conn)

lemma inert_dropped: "inert w w' \<Longrightarrow> inert (dropped i w) (dropped i w')"
  by (simp add: dropped_def inert_same inert_set_requests inert_detach)

lemma dropped_popped:
  "requests (conn w i) = r # rs \<Longrightarrow> dropped i (popped i w) = dropped i w"
  by (auto simp: dropped_def popped_def detach_def set_requests_def upd_conn_def fun_eq_iff)

lemma dropped_Nil:
  assumes "requests (conn w i) = []"
  shows "dropped i w = w"
proof -
  have "(conn w i)\<lparr>requests := []\<rparr> = conn w i"
    using assms by (cases "conn w i") simp
  then have "(conn w)(i := (conn w i)\<lparr>requests := []\<rparr>) = conn w"
    by (metis fun_upd_triv)
  then have "w\<lparr>conn := (conn w)(i := (conn w i)\<lparr>requests := []\<rparr>)\<rparr> = w"
    by (metis world.surjective world.update_convs(8))
  then show ?thesis
    by (simp add: dropped_def detach_def set_requests_def upd_conn_def assms)
qed

section \<open>The interface and the effect of removing requests\<close>

text \<open>
  \<open>c\<close> holds the faults the callback may run into by itself; it is carried through.
\<close>

locale inert_callbacks =
  fixes cb :: callbacks and c :: "fault set"
  assumes detached_inert:
    "event_req ev = Some r \<Longrightarrow> r_conn (req w r) = None \<Longrightarrow>
       outcome_all c (inert w) (\<lambda>_. False) (cb ev w)"
begin

lemma fire_detached:
  "event_req ev = Some r \<Longrightarrow> r_conn (req w r) = None \<Longrightarrow>
     outcome_all c (inert w) (\<lambda>_. False) (fire cb ev w)"
  using detached_inert [of ev r "w\<lparr>events := events w @ [ev]\<rparr>"]
  by (simp add: fire_def inert_events(2) [abs_def])

lemma cleanup_effect:
  assumes "requests (conn w i) \<noteq> []"
  shows "outcome_all c (inert (popped i w)) (\<lambda>_. False) (cleanup_request cb i w)"
proof -
  obtain r rs where rs: "requests (conn w i) = r # rs"
    using assms by (cases "requests (conn w i)") auto
  have "upd_conn i (\<lambda>c. c\<lparr>requests := rs\<rparr>) (upd_req r (\<lambda>q. q\<lparr>r_conn := None, r_server := False\<rparr>) w)
      = popped i w"
    by (auto simp: popped_def rs detach_def set_requests_def upd_conn_def upd_req_def fun_eq_iff)
  then have "cleanup_request cb i w = fire cb (FinishEvent r) (popped i w)"
    by (simp add: cleanup_request_def rs)
  moreover have "r_conn (req (popped i w) r) = None"
    by (simp add: popped_def rs)
  ultimately show ?thesis
    using fire_detached [of "FinishEvent r" r "popped i w"] by simp
qed

lemma notify_dropped_effect:
  "r_conn (req w r) = None \<Longrightarrow>
     outcome_all c (inert w) (\<lambda>_. False) (notify_dropped cb r err w)"
  using fire_detached [of "PartialEvent r err" r w] fire_detached [of "ErrorEvent r err" r w]
    fire_detached [of "DropEvent r err" r w]
  by (simp add: notify_dropped_def split: option.split)

lemma drop_loop_effect:
  "length (requests (conn w i)) \<le> n \<Longrightarrow>
     outcome_all c (inert (dropped i w)) (\<lambda>_. False) (drop_loop cb i err n w)"
proof (induction n arbitrary: w)
  case 0
  then show ?case by (simp add: dropped_Nil)
next
  case (Suc n)
  show ?case
  proof (cases "requests (conn w i)")
    case Nil
    then show ?thesis by (simp add: dropped_Nil)
  next
    case (Cons r rs)
    have popped: "r_conn (req (popped i w) r) = None" "requests (conn (popped i w) i) = rs"
      by (simp_all add: popped_def Cons)
    have 1: "outcome_all c (inert (popped i w)) (\<lambda>_. False) (cleanup_request cb i w)"
      using Cons by (intro cleanup_effect) simp
    have 2: "outcome_all c (inert (popped i w)) (\<lambda>_. False) (notify_dropped cb r err w')"
      if "inert (popped i w) w'" for w'
      by (rule post_mono [OF notify_dropped_effect])
        (use that popped in \<open>auto simp: inert_req intro: inert_trans\<close>)
    have 3: "outcome_all c (inert (dropped i w)) (\<lambda>_. False) (drop_loop cb i err n w')"
      if "inert (popped i w) w'" for w'
    proof -
      have "length (requests (conn w' i)) \<le> n"
        using that popped Suc.prems Cons by (simp add: inert_same)
      from Suc.IH [OF this] show ?thesis
        by (rule post_mono)
          (use inert_dropped [OF that, of i] dropped_popped [OF Cons] in \<open>auto intro: inert_trans\<close>)
    qed
    show ?thesis
      unfolding drop_loop.simps Cons list.case
      by (intro post_run_Cons [where P = "inert (popped i w)"]
        post_run_Cons [where P = "inert (dropped i w)"] post_run_Nil 1 2 3)
  qed
qed

lemma drop_requests_effect:
  "outcome_all c (inert (dropped i w)) (\<lambda>_. False) (drop_requests cb i err w)"
  by (simp add: drop_requests_def drop_loop_effect)

lemma stop_accepting_effect:
  assumes "requests (conn w i) = r # rs"
  shows "outcome_all c (inert (cut_pipeline i r w)) (\<lambda>_. False) (stop_accepting cb i r w)"
proof -
  define w1 where "w1 = upd_conn i (\<lambda>c. c\<lparr>closing := True\<rparr>) w"
  define w2 where "w2 = (if r_done (req w1 r) then read_ignore i w1 else w1)"
  have rs2: "requests (conn w2 i) = r # rs"
    using assms by (simp add: w2_def w1_def read_ignore_def upd_stream_def)
  define w3 where "w3 = upd_conn i (\<lambda>c. c\<lparr>requests := tl (requests c)\<rparr>) w2"
  have w3: "w3 = set_requests i rs w2"
    by (simp add: w3_def set_requests_def upd_conn_def rs2)
  have "outcome_all c (inert (cut_pipeline i r w)) (\<lambda>_. False) (drop_pipelined cb i r w2)"
  proof (cases "length (requests (conn w2 i)) > 1")
    case False
    then have eq: "cut_pipeline i r w = w2"
      unfolding cut_pipeline_def Let_def by (fold w1_def, fold w2_def) simp
    show ?thesis
      unfolding eq using False by (simp add: drop_pipelined_def)
  next
    case True
    then have cut_eq: "cut_pipeline i r w = set_requests i [r] (detach (set rs) w2)"
      unfolding cut_pipeline_def Let_def by (fold w1_def, fold w2_def) (simp add: rs2)
    have push: "inert (cut_pipeline i r w) (upd_conn i (\<lambda>c. c\<lparr>requests := r # requests c\<rparr>) w')"
      if "inert (dropped i w3) w'" for w'
    proof -
      have "upd_conn i (\<lambda>c. c\<lparr>requests := r # requests c\<rparr>) (dropped i w3) = cut_pipeline i r w"
        by (auto simp: cut_eq dropped_def w3 set_requests_def upd_conn_def detach_def fun_eq_iff)
      with inert_upd_conn [OF that] show ?thesis by metis
    qed
    show ?thesis
      unfolding drop_pipelined_def when_step_def if_P [OF True]
      by (intro post_run_pure, fold w3_def)
        (intro post_run_Cons [where P = "inert (dropped i w3)"] drop_requests_effect
          post_run_pure post_run_Nil push)
  qed
  then have "outcome_all c (inert (cut_pipeline i r w)) (\<lambda>_. False) (run [drop_pipelined cb i r] w2)"
    by (simp only: post_run_single)
  then show ?thesis
    unfolding stop_accepting_def by (intro post_run_pure) (fold w1_def, fold w2_def)
qed

end

end
