(* ===== verification/ServerInv.thy ===== *)
theory ServerInv
  imports Inert
begin

text \<open>
  The invariant of the server side, and what the pure updates of the connection's methods do to it.
  \<open>good K w\<close> holds between calls. It says that the back pointers of requests and the queues of the
  connections agree, that responses and requests point at each other, that a queue holds its
  requests in the order of arrival and only the one being parsed is unfinished, and that what has
  been written to each stream is well-formed and agrees with the head of the queue. The argument
  \<open>K\<close> is the state of the parsers and the number of the last connection, which only \<open>on_read\<close> and
  \<open>on_establish\<close> change. \<open>pend K i w\<close> is the
  state between a response becoming due on the connection \<open>i\<close> and its head being written.
\<close>

section \<open>The invariant\<close>

type_synonym parse_view = "(cid \<Rightarrow> rid option) \<times> (rid \<Rightarrow> bool) \<times> rid \<times> cid"

definition parse_view :: "world \<Rightarrow> parse_view" where
  "parse_view w = (\<lambda>i. cur (conn w i), \<lambda>r. r_done (req w r), next_rid w, lastid w)"

text \<open>Data of the client reach the connection.\<close>

definition receiving :: "connection \<Rightarrow> bool" where
  "receiving c \<longleftrightarrow> st_open (stream c) \<and> st_listener (stream c) \<and> \<not> st_ignore (stream c)"

definition links_ok :: "world \<Rightarrow> bool" where
  "links_ok w \<longleftrightarrow>
     (\<forall>r i. r_conn (req w r) = Some i \<longleftrightarrow> r \<in> set (requests (conn w i))) \<and>
     (\<forall>r. r_server (req w r) \<longrightarrow> r_conn (req w r) \<noteq> None)"

definition resp_ok :: "world \<Rightarrow> bool" where
  "resp_ok w \<longleftrightarrow>
     (\<forall>r s. r_resp (req w r) = Some s \<longleftrightarrow> s_req (res w s) = Some r) \<and>
     (\<forall>r s. s_req (res w s) = Some r \<longrightarrow> s < next_sid w \<and> r < next_rid w)"

definition queue_ok :: "world \<Rightarrow> bool" where
  "queue_ok w \<longleftrightarrow>
     (\<forall>i. sorted_wrt (<) (requests (conn w i)) \<and>
          (\<forall>r\<in>set (requests (conn w i)). r < next_rid w \<and>
             (r_done (req w r) \<or> cur (conn w i) = Some r)) \<and>
          (idle_timer (conn w i) = Some True \<longrightarrow> requests (conn w i) = []))"

definition cur_ok :: "world \<Rightarrow> bool" where
  "cur_ok w \<longleftrightarrow>
     (\<forall>i q. cur (conn w i) = Some q \<longrightarrow>
        q < next_rid w \<and>
        (receiving (conn w i) \<and> \<not> r_done (req w q) \<longrightarrow>
           requests (conn w i) \<noteq> [] \<and> last (requests (conn w i)) = q))"

definition ids_ok :: "world \<Rightarrow> bool" where
  "ids_ok w \<longleftrightarrow>
     (\<forall>i. requests (conn w i) \<noteq> [] \<or> st_open (stream (conn w i)) \<longrightarrow> i \<le> lastid w)"

definition base_inv :: "parse_view \<Rightarrow> world \<Rightarrow> bool" where
  "base_inv K w \<longleftrightarrow>
     parse_view w = K \<and> links_ok w \<and> resp_ok w \<and> queue_ok w \<and> cur_ok w \<and> ids_ok w"

text \<open>The message in progress on a connection: the response of its first request, if unfinished.\<close>

definition front_msg :: "world \<Rightarrow> cid \<Rightarrow> sid option" where
  "front_msg w i =
     (case requests (conn w i) of
        [] \<Rightarrow> None
      | r # _ \<Rightarrow> (case r_resp (req w r) of
                   None \<Rightarrow> None
                 | Some s \<Rightarrow> if s_completed (res w s) then None else Some s))"

definition front_bound :: "world \<Rightarrow> cid \<Rightarrow> nat" where
  "front_bound w i =
     (case requests (conn w i) of
        [] \<Rightarrow> next_rid w
      | r # _ \<Rightarrow> if r_resp (req w r) = None then r else Suc r)"

definition front_answered :: "world \<Rightarrow> cid \<Rightarrow> bool" where
  "front_answered w i \<longleftrightarrow>
     requests (conn w i) \<noteq> [] \<and> r_resp (req w (hd (requests (conn w i)))) \<noteq> None"

abbreviation ws_next :: "wstate \<Rightarrow> nat" where "ws_next ws \<equiv> fst ws"

abbreviation ws_msg :: "wstate \<Rightarrow> sid option" where "ws_msg ws \<equiv> fst (snd ws)"

abbreviation ws_end :: "wstate \<Rightarrow> bool" where "ws_end ws \<equiv> snd (snd ws)"

definition settled :: "world \<Rightarrow> cid \<Rightarrow> wstate \<Rightarrow> bool" where
  "settled w i ws \<longleftrightarrow>
     ws_msg ws = front_msg w i \<and> ws_end ws = closing (conn w i) \<and>
     ws_next ws \<le> front_bound w i \<and> (closing (conn w i) \<longrightarrow> front_answered w i)"

definition due :: "world \<Rightarrow> cid \<Rightarrow> wstate \<Rightarrow> bool" where
  "due w i ws \<longleftrightarrow>
     ws_msg ws = None \<and> \<not> ws_end ws \<and> \<not> closing (conn w i) \<and> requests (conn w i) \<noteq> [] \<and>
     ws_next ws \<le> hd (requests (conn w i))"

definition wire_conn :: "(world \<Rightarrow> cid \<Rightarrow> wstate \<Rightarrow> bool) \<Rightarrow> world \<Rightarrow> cid \<Rightarrow> bool" where
  "wire_conn F w i \<longleftrightarrow>
     wire_ok (st_out (stream (conn w i))) \<and>
     (st_open (stream (conn w i)) \<longrightarrow> F w i (the (wire_state (st_out (stream (conn w i))))))"

definition good :: "parse_view \<Rightarrow> world \<Rightarrow> bool" where
  "good K w \<longleftrightarrow> base_inv K w \<and> (\<forall>i. wire_conn settled w i)"

definition pend :: "parse_view \<Rightarrow> cid \<Rightarrow> world \<Rightarrow> bool" where
  "pend K i w \<longleftrightarrow>
     base_inv K w \<and> front_answered w i \<and> wire_conn due w i \<and>
     (\<forall>j. j \<noteq> i \<longrightarrow> wire_conn settled w j)"

lemma good_wire_ok: "good K w \<Longrightarrow> wire_ok (st_out (stream (conn w i)))"
  by (simp add: good_def wire_conn_def)

lemma front_cong:
  assumes "requests (conn w' i) = requests (conn w i)"
    and "\<And>r. r_resp (req w' r) = r_resp (req w r)"
    and "\<And>s. s_completed (res w' s) = s_completed (res w s)" and "next_rid w' = next_rid w"
  shows "front_msg w' i = front_msg w i" "front_bound w' i = front_bound w i"
    "front_answered w' i = front_answered w i"
  by (simp_all only: front_msg_def front_bound_def front_answered_def assms)

lemma base_links:
  "base_inv K w \<Longrightarrow> (r_conn (req w r) = Some i) = (r \<in> set (requests (conn w i)))"
  by (simp add: base_inv_def links_ok_def)

lemma base_resp:
  "base_inv K w \<Longrightarrow> (r_resp (req w r) = Some s) = (s_req (res w s) = Some r)"
  by (simp add: base_inv_def resp_ok_def)

lemma base_sorted: "base_inv K w \<Longrightarrow> sorted_wrt (<) (requests (conn w i))"
  by (simp add: base_inv_def queue_ok_def)

lemma base_lt: "base_inv K w \<Longrightarrow> r \<in> set (requests (conn w i)) \<Longrightarrow> r < next_rid w"
  by (simp add: base_inv_def queue_ok_def)

lemma base_undone:
  "base_inv K w \<Longrightarrow> r \<in> set (requests (conn w i)) \<Longrightarrow> \<not> r_done (req w r) \<Longrightarrow>
     cur (conn w i) = Some r"
  unfolding base_inv_def queue_ok_def by blast

lemma base_cur_last:
  "base_inv K w \<Longrightarrow> cur (conn w i) = Some q \<Longrightarrow> receiving (conn w i) \<Longrightarrow> \<not> r_done (req w q) \<Longrightarrow>
     requests (conn w i) \<noteq> [] \<and> last (requests (conn w i)) = q"
  by (simp add: base_inv_def cur_ok_def)

lemma base_server: "base_inv K w \<Longrightarrow> r_server (req w r) \<Longrightarrow> \<exists>i. r_conn (req w r) = Some i"
  by (auto simp: base_inv_def links_ok_def)

section \<open>Inert changes\<close>

lemma inert_parse_view: "inert w w' \<Longrightarrow> parse_view w' = parse_view w"
  by (simp add: parse_view_def inert_same inert_req)

lemma inert_linked:
  assumes "inert w w'" and "resp_ok w" and "r_resp (req w r) = Some s"
  shows "s_completed (res w' s) = s_completed (res w s)" and "s_req (res w' s) = Some r"
proof -
  have "s_req (res w s) = Some r" "s < next_sid w"
    using assms(2,3) by (auto simp: resp_ok_def)
  moreover have "s_req (res w' s) = s_req (res w s) \<and>
            (s < next_sid w \<longrightarrow> s_completed (res w' s) = s_completed (res w s)) \<or>
          next_sid w \<le> s \<and> s_req (res w' s) = None"
    using assms(1) by (simp add: inert_def)
  ultimately show "s_completed (res w' s) = s_completed (res w s)" "s_req (res w' s) = Some r"
    by auto
qed

lemma resp_ok_inert:
  assumes "resp_ok w" and "inert w w'"
  shows "resp_ok w'"
proof -
  have old: "s_req (res w' s) = Some r \<Longrightarrow> s_req (res w s) = Some r" for r s
    using assms(2) unfolding inert_def by (metis option.distinct(1))
  have "r_resp (req w' r) = Some s \<longleftrightarrow> s_req (res w' s) = Some r" for r s
    using assms inert_linked(2) [OF assms(2,1), of r s] old [of s r]
    by (auto simp: inert_req resp_ok_def)
  moreover have "s < next_sid w' \<and> r < next_rid w'" if "s_req (res w' s) = Some r" for r s
  proof -
    have "s < next_sid w" "r < next_rid w"
      using assms(1) old [OF that] by (auto simp: resp_ok_def)
    then show ?thesis using inert_same [OF assms(2)] by simp
  qed
  ultimately show ?thesis by (simp add: resp_ok_def)
qed

lemma parts_inert:
  assumes "inert w w'"
  shows "links_ok w' = links_ok w" "queue_ok w' = queue_ok w" "cur_ok w' = cur_ok w"
    "ids_ok w' = ids_ok w"
  using assms
  by (simp_all only: links_ok_def queue_ok_def cur_ok_def ids_ok_def inert_same inert_req)

lemma base_inert: "base_inv K w \<Longrightarrow> inert w w' \<Longrightarrow> base_inv K w'"
  using resp_ok_inert [of w w'] by (simp add: base_inv_def parts_inert inert_parse_view)

lemma front_inert:
  assumes "resp_ok w" and "inert w w'"
  shows "front_msg w' i = front_msg w i" "front_bound w' i = front_bound w i"
    "front_answered w' i = front_answered w i"
proof -
  show "front_msg w' i = front_msg w i"
    using inert_linked(1) [OF assms(2,1)]
    by (simp add: front_msg_def inert_same [OF assms(2)] inert_req [OF assms(2)]
        split: list.split option.split)
  show "front_bound w' i = front_bound w i"
    by (simp add: front_bound_def inert_same [OF assms(2)] inert_req [OF assms(2)]
        split: list.split)
  show "front_answered w' i = front_answered w i"
    by (simp add: front_answered_def inert_same [OF assms(2)] inert_req [OF assms(2)])
qed

lemma wire_inert:
  assumes "resp_ok w" and "inert w w'"
  shows "wire_conn settled w' i = wire_conn settled w i" "wire_conn due w' i = wire_conn due w i"
  by (simp_all only: wire_conn_def settled_def due_def front_inert [OF assms]
      inert_same [OF assms(2)])

lemma good_inert: "good K w \<Longrightarrow> inert w w' \<Longrightarrow> good K w'"
  using base_inert [of K w w'] wire_inert(1) [of w w'] by (simp add: good_def base_inv_def)

lemma pend_inert: "pend K i w \<Longrightarrow> inert w w' \<Longrightarrow> pend K i w'"
  using base_inert [of K w w'] wire_inert [of w w'] front_inert(3) [of w w']
  by (simp add: pend_def base_inv_def)

section \<open>Updates of a connection\<close>

text \<open>An update that leaves the queue and the parser alone and only takes abilities away.\<close>

definition tame :: "(connection \<Rightarrow> connection) \<Rightarrow> connection \<Rightarrow> bool" where
  "tame f c \<longleftrightarrow>
     requests (f c) = requests c \<and> cur (f c) = cur c \<and>
     (receiving (f c) \<longrightarrow> receiving c) \<and> (st_open (stream (f c)) \<longrightarrow> st_open (stream c)) \<and>
     (idle_timer (f c) = Some True \<longrightarrow> idle_timer c = Some True \<or> requests c = [])"

lemma parse_view_upd_conn:
  "cur (f (conn w i)) = cur (conn w i) \<Longrightarrow> parse_view (upd_conn i f w) = parse_view w"
  by (auto simp: parse_view_def)

lemma base_tame:
  assumes "base_inv K w" and "tame f (conn w i)"
  shows "base_inv K (upd_conn i f w)"
proof -
  have "links_ok (upd_conn i f w)" "queue_ok (upd_conn i f w)" "cur_ok (upd_conn i f w)"
    "ids_ok (upd_conn i f w)"
    using assms
    by (auto simp: base_inv_def tame_def links_ok_def queue_ok_def cur_ok_def ids_ok_def)
  moreover have "resp_ok (upd_conn i f w)"
    using assms(1) by (simp add: base_inv_def resp_ok_def)
  ultimately show ?thesis
    using assms by (simp add: base_inv_def parse_view_upd_conn tame_def)
qed

lemma wire_upd_conn_other:
  assumes "j \<noteq> i"
  shows "wire_conn settled (upd_conn i f w) j = wire_conn settled w j"
  using assms by (simp add: wire_conn_def settled_def front_cong [of "upd_conn i f w" j w])

lemma wire_tame:
  assumes "requests (f (conn w i)) = requests (conn w i)"
    and "st_out (stream (f (conn w i))) = st_out (stream (conn w i))"
    and "st_open (stream (f (conn w i))) \<longrightarrow>
      st_open (stream (conn w i)) \<and> closing (f (conn w i)) = closing (conn w i)"
  shows "wire_conn settled w i \<Longrightarrow> wire_conn settled (upd_conn i f w) i"
    and "wire_conn due w i \<Longrightarrow> wire_conn due (upd_conn i f w) i"
  using assms
  by (auto simp: wire_conn_def settled_def due_def front_cong [of "upd_conn i f w" i w])

lemma good_tame:
  assumes "good K w" and "tame f (conn w i)"
    and "st_out (stream (f (conn w i))) = st_out (stream (conn w i))"
    and "st_open (stream (f (conn w i))) \<longrightarrow> closing (f (conn w i)) = closing (conn w i)"
  shows "good K (upd_conn i f w)"
proof -
  have "wire_conn settled (upd_conn i f w) j" for j
  proof (cases "j = i")
    case True
    show ?thesis
      unfolding True by (rule wire_tame) (use assms in \<open>auto simp: tame_def good_def\<close>)
  next
    case False
    then show ?thesis using assms(1) by (simp add: wire_upd_conn_other good_def)
  qed
  with assms show ?thesis by (simp add: good_def base_tame)
qed

lemma pend_tame:
  assumes "pend K i w" and "tame f (conn w i)"
    and "st_out (stream (f (conn w i))) = st_out (stream (conn w i))"
    and "st_open (stream (f (conn w i))) \<longrightarrow> closing (f (conn w i)) = closing (conn w i)"
  shows "pend K i (upd_conn i f w)"
proof -
  have "wire_conn settled (upd_conn i f w) j" if "j \<noteq> i" for j
    using that assms(1) by (simp add: wire_upd_conn_other pend_def)
  moreover have "wire_conn due (upd_conn i f w) i"
    by (rule wire_tame) (use assms in \<open>auto simp: tame_def pend_def\<close>)
  moreover have "front_answered (upd_conn i f w) i"
    using assms(1,2) by (simp add: pend_def front_answered_def tame_def)
  ultimately show ?thesis
    using assms by (simp add: pend_def base_tame)
qed

section \<open>Removing requests from a queue\<close>

lemma base_requests:
  assumes base: "base_inv K w"
    and sub: "sorted_wrt (<) rs'" "set rs' \<subseteq> set (requests (conn w i))"
    and R: "R = set (requests (conn w i)) - set rs'"
    and cur: "\<And>q. cur (conn w i) = Some q \<Longrightarrow> receiving (conn w i) \<Longrightarrow> \<not> r_done (req w q) \<Longrightarrow>
      rs' \<noteq> [] \<and> last rs' = q"
  shows "base_inv K (set_requests i rs' (detach R w))" (is "base_inv K ?w")
proof -
  have "r_conn (req ?w r) = Some j \<longleftrightarrow> r \<in> set (requests (conn ?w j))" for r j
    using base_links [OF base, of r i] base_links [OF base, of r j] sub(2)
    by (auto simp: R)
  moreover have "r_server (req ?w r) \<longrightarrow> r_conn (req ?w r) \<noteq> None" for r
    using base_server [OF base, of r] base_links [OF base, of r i] R sub(2) by auto
  ultimately have "links_ok ?w" by (simp only: links_ok_def) simp
  moreover have "resp_ok ?w"
  proof -
    have "r_resp (req ?w r) = r_resp (req w r)" for r by simp
    with base show ?thesis by (simp only: base_inv_def resp_ok_def) simp
  qed
  moreover have "queue_ok ?w" "cur_ok ?w" "ids_ok ?w"
  proof -
    have d: "r_done (req ?w r) = r_done (req w r)" for r by simp
    have "\<forall>r\<in>set rs'. r < next_rid w \<and> (r_done (req w r) \<or> cur (conn w i) = Some r)"
      "idle_timer (conn w i) = Some True \<longrightarrow> rs' = []"
      using base sub(2) by (auto simp: base_inv_def queue_ok_def)
    moreover have "queue_ok w" using base by (simp add: base_inv_def)
    ultimately show "queue_ok ?w"
      using sub(1) unfolding queue_ok_def d by (auto simp del: detach_simps(8))
    have "cur_ok w" using base by (simp add: base_inv_def)
    then show "cur_ok ?w"
      using cur unfolding cur_ok_def d
      by (auto simp: receiving_def simp del: detach_simps(8))
    have "ids_ok w" using base by (simp add: base_inv_def)
    moreover have "rs' \<noteq> [] \<longrightarrow> requests (conn w i) \<noteq> []"
      using sub(2) by auto
    ultimately show "ids_ok ?w"
      unfolding ids_ok_def by (auto simp del: detach_simps(8))
  qed
  moreover have "parse_view ?w = K"
    using base by (auto simp: base_inv_def parse_view_def)
  ultimately show ?thesis by (simp add: base_inv_def)
qed

text \<open>All but the wire of the connection \<open>i\<close> agrees with the queues.\<close>

definition good_except :: "parse_view \<Rightarrow> cid \<Rightarrow> world \<Rightarrow> bool" where
  "good_except K i w \<longleftrightarrow>
     base_inv K w \<and> wire_ok (st_out (stream (conn w i))) \<and>
     (\<forall>j. j \<noteq> i \<longrightarrow> wire_conn settled w j)"

lemma good_except_good: "good K w \<Longrightarrow> good_except K i w"
  by (simp add: good_def good_except_def wire_conn_def)

lemma good_except_pend: "pend K i w \<Longrightarrow> good_except K i w"
  by (simp add: pend_def good_except_def wire_conn_def)

lemma good_iff_except: "good K w = (good_except K i w \<and> wire_conn settled w i)"
  unfolding good_def good_except_def by (metis wire_conn_def)

lemma good_except_closed:
  "good_except K i w \<Longrightarrow> \<not> st_open (stream (conn w i)) \<Longrightarrow> good K w"
  unfolding good_iff_except [of K w i] by (simp add: wire_conn_def good_except_def)

lemma wire_requests_other:
  assumes "j \<noteq> i"
  shows "wire_conn settled (set_requests i rs (detach R w)) j = wire_conn settled w j"
  using assms
  by (simp add: wire_conn_def settled_def front_cong [of "set_requests i rs (detach R w)" j w])

lemma good_except_requests:
  assumes "good_except K i w"
    and "sorted_wrt (<) rs'" "set rs' \<subseteq> set (requests (conn w i))"
    and "R = set (requests (conn w i)) - set rs'"
    and "\<And>q. cur (conn w i) = Some q \<Longrightarrow> receiving (conn w i) \<Longrightarrow> \<not> r_done (req w q) \<Longrightarrow>
      rs' \<noteq> [] \<and> last rs' = q"
  shows "good_except K i (set_requests i rs' (detach R w))"
  using assms base_requests [OF _ assms(2-5)]
  by (simp add: good_except_def wire_requests_other)

lemma good_dropped:
  assumes "good K w" and "\<not> st_open (stream (conn w i))"
  shows "good K (dropped i w)"
proof (rule good_except_closed [of _ i])
  show "good_except K i (dropped i w)"
    unfolding dropped_def
    by (rule good_except_requests)
      (use assms in \<open>auto simp: good_except_good receiving_def\<close>)
  show "\<not> st_open (stream (conn (dropped i w) i))"
    using assms(2) by (simp add: dropped_def)
qed

lemma good_except_popped:
  assumes "good_except K i w" and "requests (conn w i) = r # rs" and "r_done (req w r)"
  shows "good_except K i (popped i w)"
proof -
  have base: "base_inv K w" using assms(1) by (simp add: good_except_def)
  have srt: "sorted_wrt (<) (r # rs)" using base_sorted [OF base, of i] assms(2) by simp
  then have R: "{r} = set (requests (conn w i)) - set rs"
    using assms(2) by auto
  have "rs \<noteq> [] \<and> last rs = q"
    if "cur (conn w i) = Some q" "receiving (conn w i)" "\<not> r_done (req w q)" for q
  proof -
    have "last (r # rs) = q"
      using base_cur_last [OF base that] assms(2) by simp
    with that assms(3) show ?thesis by (auto split: if_splits)
  qed
  then show ?thesis
    using good_except_requests [OF assms(1), of rs "{r}"] srt assms(2) R
    by (auto simp: popped_def)
qed

text \<open>After a finished request has left the queue, the next response is due if there is one.\<close>

lemma good_popped:
  assumes "good K w" and rs: "requests (conn w i) = r # rs" and "r_done (req w r)"
    and resp: "r_resp (req w r) = Some s" "s_completed (res w s)" and "\<not> closing (conn w i)"
  shows "if front_answered (popped i w) i then pend K i (popped i w) else good K (popped i w)"
proof -
  define ws where "ws = the (wire_state (st_out (stream (conn w i))))"
  have ex: "good_except K i (popped i w)"
    using assms by (intro good_except_popped good_except_good) auto
  have base: "base_inv K w" using assms(1) by (simp add: good_def)
  have w: "wire_ok (st_out (stream (conn w i)))"
    "st_open (stream (conn w i)) \<Longrightarrow> settled w i ws"
    using assms(1) by (simp_all add: good_def wire_conn_def ws_def)
  have front: "front_msg w i = None" "front_bound w i = Suc r"
    using rs resp by (simp_all add: front_msg_def front_bound_def)
  have r: "r < next_rid w" "\<forall>r'\<in>set rs. r < r'"
    using rs base_sorted [OF base, of i] base_lt [OF base, of r i] by simp_all
  have popped: "requests (conn (popped i w) i) = rs" "next_rid (popped i w) = next_rid w"
    "closing (conn (popped i w) i) = closing (conn w i)"
    "stream (conn (popped i w) i) = stream (conn w i)"
    "\<And>q. r_resp (req (popped i w) q) = r_resp (req w q)" "res (popped i w) = res w"
    by (simp_all add: popped_def rs)
  show ?thesis
  proof (cases "front_answered (popped i w) i")
    case True
    then obtain r' rs' where rs': "rs = r' # rs'"
      by (cases rs) (auto simp: front_answered_def popped)
    have "wire_conn due (popped i w) i"
      using w front r rs' assms(6)
      by (auto simp: wire_conn_def due_def settled_def popped simp flip: ws_def)
    with True ex show ?thesis by (simp add: pend_def good_except_def)
  next
    case False
    have "wire_conn settled (popped i w) i"
    proof (cases rs)
      case Nil
      then show ?thesis
        using w front r assms(6)
        by (auto simp: wire_conn_def settled_def popped front_msg_def front_bound_def
            simp flip: ws_def)
    next
      case (Cons r' rs')
      with False have "r_resp (req w r') = None"
        by (simp add: front_answered_def popped)
      with Cons show ?thesis
        using w front r assms(6)
        by (auto simp: wire_conn_def settled_def popped front_msg_def front_bound_def
            simp flip: ws_def)
    qed
    with False ex show ?thesis by (simp add: good_iff_except [of K _ i])
  qed
qed

section \<open>Writing to the stream\<close>

lemma stream_write_simps [simp]:
  "req (stream_write X i x w) = req w" "res (stream_write X i x w) = res w"
  "next_rid (stream_write X i x w) = next_rid w" "next_sid (stream_write X i x w) = next_sid w"
  "requests (conn (stream_write X i x w) j) = requests (conn w j)"
  "closing (conn (stream_write X i x w) j) = closing (conn w j)"
  "stopping (conn (stream_write X i x w) j) = stopping (conn w j)"
  "st_open (stream (conn (stream_write X i x w) j)) = st_open (stream (conn w j))"
  "receiving (conn (stream_write X i x w) j) = receiving (conn w j)"
  "cur (conn (stream_write X i x w) j) = cur (conn w j)"
  "st_out (stream (conn (stream_write X i x w) j)) =
     (if j = i \<and> st_open (stream (conn w i)) then st_out (stream (conn w i)) @ [x]
      else st_out (stream (conn w j)))"
  by (auto simp: stream_write_def upd_stream_def receiving_def)

lemma base_stream_write: "base_inv K w \<Longrightarrow> base_inv K (stream_write X i x w)"
  unfolding stream_write_def upd_stream_def
  by (rule base_tame) (auto simp: tame_def receiving_def)

lemma wire_stream_write_other:
  "j \<noteq> i \<Longrightarrow> wire_conn settled (stream_write X i x w) j = wire_conn settled w j"
  unfolding stream_write_def upd_stream_def by (rule wire_upd_conn_other)

text \<open>A message the reader accepts keeps the stream well-formed.\<close>

lemma wire_step:
  assumes "wire_ok out" and "wnext (the (wire_state out)) x = Some ws"
  shows "wire_ok (out @ [x])" and "wire_state (out @ [x]) = Some ws"
proof -
  obtain ws' where "wire_state out = Some ws'"
    using assms(1) by (auto simp: wire_ok_def)
  with assms(2) show "wire_state (out @ [x]) = Some ws"
    by (simp add: wire_state_snoc)
  then show "wire_ok (out @ [x])" by (simp add: wire_ok_def)
qed

lemma good_write:
  assumes ex: "good_except K i w"
    and step: "st_open (stream (conn w i)) \<Longrightarrow>
      \<exists>ws. wnext (the (wire_state (st_out (stream (conn w i))))) x = Some ws \<and> settled w i ws"
  shows "good K (stream_write X i x w)"
proof (cases "st_open (stream (conn w i))")
  case False
  then have "good K w"
    using ex by (rule good_except_closed [rotated])
  moreover have "stream_write X i x w = upd_stream i (\<lambda>st. st) w"
    using False by (simp add: stream_write_def upd_stream_def upd_conn_def)
  moreover have "upd_stream i (\<lambda>st. st) w = w"
    by (simp add: upd_stream_def upd_conn_def)
  ultimately show ?thesis by simp
next
  case True
  then obtain ws where
    ws: "wnext (the (wire_state (st_out (stream (conn w i))))) x = Some ws" "settled w i ws"
    using step by blast
  have "wire_ok (st_out (stream (conn w i)))"
    using ex by (simp add: good_except_def)
  note out = wire_step [OF this ws(1)]
  have "settled (stream_write X i x w) i ws"
    using ws(2) by (simp add: settled_def front_cong [of "stream_write X i x w" i w])
  then have "wire_conn settled (stream_write X i x w) i"
    using True out by (simp add: wire_conn_def)
  moreover have "good_except K i (stream_write X i x w)"
    using ex True out(1)
    by (simp add: good_except_def base_stream_write wire_stream_write_other)
  ultimately show ?thesis by (simp add: good_iff_except [of K _ i])
qed

lemma good_write_chunks:
  assumes "good K w" and "front_msg w i = Some s"
  shows "good K (write_chunks X i s cs w)"
  using assms
proof (induction cs arbitrary: w)
  case Nil
  then show ?case by simp
next
  case (Cons x xs)
  have "good K (stream_write X i (Chunk s x) w)"
  proof (rule good_write)
    show "good_except K i w" using Cons.prems(1) by (rule good_except_good)
    assume op: "st_open (stream (conn w i))"
    define ws where "ws = the (wire_state (st_out (stream (conn w i))))"
    have st: "settled w i ws"
      using Cons.prems(1) op by (simp add: good_def wire_conn_def ws_def)
    then have "ws_msg ws = Some s"
      using Cons.prems(2) by (simp add: settled_def)
    then have "wnext ws (Chunk s x) = Some ws"
      by (cases ws) auto
    with st show "\<exists>ws'. wnext (the (wire_state (st_out (stream (conn w i))))) (Chunk s x) = Some ws' \<and>
        settled w i ws'"
      by (auto simp flip: ws_def)
  qed
  moreover have "front_msg (stream_write X i (Chunk s x) w) i = Some s"
    using Cons.prems(2) by (simp add: front_cong(1) [of "stream_write X i (Chunk s x) w" i w])
  ultimately show ?case
    using Cons.IH by simp
qed

text \<open>The head of the response that is due. If it ends the connection, the queue is cut.\<close>

lemma head_accepted:
  assumes "pend K i w" and rs: "requests (conn w i) = r # rs" and s: "r_resp (req w r) = Some s"
    and op: "st_open (stream (conn w i))"
  shows "wnext (the (wire_state (st_out (stream (conn w i)))))
      (Head r s cl (s_completed (res w s)) parts) =
    Some (Suc r, front_msg w i, cl)"
proof -
  have "due w i (the (wire_state (st_out (stream (conn w i)))))"
    using assms(1) op by (simp add: pend_def wire_conn_def)
  then show ?thesis
    using rs s
    by (cases "the (wire_state (st_out (stream (conn w i))))")
      (simp add: due_def front_msg_def)
qed

lemma pend_not_closing:
  "pend K i w \<Longrightarrow> st_open (stream (conn w i)) \<Longrightarrow> \<not> closing (conn w i)"
  by (simp add: pend_def wire_conn_def due_def)

lemma good_write_head:
  assumes pend: "pend K i w" and rs: "requests (conn w i) = r # rs"
    and s: "r_resp (req w r) = Some s" and keep: "\<not> ends_connection w r s"
  shows "good K (write_head X i r s w)"
  unfolding write_head_def
proof (rule good_write)
  show "good_except K i w" using pend by (rule good_except_pend)
  assume op: "st_open (stream (conn w i))"
  have "settled w i (Suc r, front_msg w i, False)"
    using pend_not_closing [OF pend op] rs s by (simp add: settled_def front_bound_def)
  then show "\<exists>ws. wnext (the (wire_state (st_out (stream (conn w i)))))
      (Head r s (ends_connection w r s) (s_completed (res w s)) (s_body (res w s))) = Some ws \<and>
      settled w i ws"
    using head_accepted [OF pend rs s op] keep by simp
qed

end
