(* ===== verification/ServerUpdates.thy ===== *)
theory ServerUpdates
  imports ServerInv
begin

text \<open>
  The pure updates of the connection's methods that touch the head of the queue: cutting the
  pipeline after the response that ends the connection, linking a response to its request,
  completing a response, and taking in a request from the parser.
\<close>

section \<open>Fields the invariant does not read\<close>

lemma good_same:
  assumes "conn w' = conn w" "req w' = req w" "res w' = res w" "next_rid w' = next_rid w"
    "next_sid w' = next_sid w" "lastid w' = lastid w"
  shows "good K w' = good K w"
proof -
  have "front_msg w' i = front_msg w i" "front_bound w' i = front_bound w i"
    "front_answered w' i = front_answered w i" for i
    by (rule front_cong; simp add: assms)+
  then show ?thesis
    by (simp only: good_def base_inv_def parse_view_def links_ok_def resp_ok_def queue_ok_def
        cur_ok_def ids_ok_def wire_conn_def settled_def assms)
qed

lemma good_events [simp]: "good K (w\<lparr>events := es\<rparr>) = good K w"
  by (rule good_same) simp_all

lemma wire_other_cong:
  assumes "conn w' j = conn w j" "\<And>r. r_resp (req w' r) = r_resp (req w r)"
    "\<And>s. s_completed (res w' s) = s_completed (res w s)" "next_rid w' = next_rid w"
  shows "wire_conn settled w' j = wire_conn settled w j"
proof -
  have "front_msg w' j = front_msg w j" "front_bound w' j = front_bound w j"
    "front_answered w' j = front_answered w j"
    by (rule front_cong; simp add: assms)+
  then show ?thesis by (simp only: wire_conn_def settled_def assms(1))
qed

lemma good_exceptI: "base_inv K w \<Longrightarrow> wire_ok (st_out (stream (conn w i))) \<Longrightarrow>
    (\<And>j. j \<noteq> i \<Longrightarrow> wire_conn settled w j) \<Longrightarrow> good_except K i w"
  by (simp add: good_except_def)

lemma good_except_tame:
  assumes "good_except K i w" and "tame f (conn w i)"
    and "st_out (stream (f (conn w i))) = st_out (stream (conn w i))"
  shows "good_except K i (upd_conn i f w)"
  using assms by (simp add: good_except_def base_tame wire_upd_conn_other)

lemma wire_inert_all:
  "base_inv K w \<Longrightarrow> inert w w' \<Longrightarrow> wire_conn settled w' i = wire_conn settled w i"
  by (simp add: base_inv_def wire_inert)

lemma good_except_inert: "good_except K i w \<Longrightarrow> inert w w' \<Longrightarrow> good_except K i w'"
  using base_inert [of K w w'] inert_same [of w w'] wire_inert_all [of K w w']
  by (simp add: good_except_def)

section \<open>Cutting the pipeline\<close>

lemma set_requests_same:
  assumes "requests (conn w i) = rs"
  shows "set_requests i rs (detach {} w) = w"
proof -
  have "(conn w i)\<lparr>requests := rs\<rparr> = conn w i"
    using assms by (cases "conn w i") simp
  then have "(conn w)(i := (conn w i)\<lparr>requests := rs\<rparr>) = conn w"
    by (metis fun_upd_triv)
  moreover have "detach {} w = w" by (simp add: detach_def)
  ultimately show ?thesis by (simp add: set_requests_def upd_conn_def)
qed

lemma cut_pipeline_eq:
  assumes "requests (conn w i) = r # rs"
  defines "w' \<equiv> upd_conn i (\<lambda>c. c\<lparr>closing := True,
      stream := (stream c)\<lparr>st_ignore := r_done (req w r) \<or> st_ignore (stream c)\<rparr>\<rparr>) w"
  shows "cut_pipeline i r w = set_requests i [r] (detach (set rs) w')"
proof -
  have eq: "(if r_done (req (upd_conn i (\<lambda>c. c\<lparr>closing := True\<rparr>) w) r)
        then read_ignore i (upd_conn i (\<lambda>c. c\<lparr>closing := True\<rparr>) w)
        else upd_conn i (\<lambda>c. c\<lparr>closing := True\<rparr>) w) = w'"
    by (simp add: w'_def read_ignore_def upd_stream_def upd_conn_def)
  have rs: "requests (conn w' i) = r # rs"
    using assms(1) by (simp add: w'_def)
  show ?thesis
    unfolding cut_pipeline_def Let_def eq
    using rs set_requests_same [of w' i "[r]"] by simp
qed

lemma base_cut_pipeline:
  assumes base: "base_inv K w" and rs: "requests (conn w i) = r # rs"
  shows "base_inv K (cut_pipeline i r w)"
proof -
  define w' where "w' = upd_conn i (\<lambda>c. c\<lparr>closing := True,
      stream := (stream c)\<lparr>st_ignore := r_done (req w r) \<or> st_ignore (stream c)\<rparr>\<rparr>) w"
  have base': "base_inv K w'"
    unfolding w'_def by (rule base_tame [OF base]) (simp add: tame_def receiving_def)
  have rs': "requests (conn w' i) = r # rs"
    using rs by (simp add: w'_def)
  have srt: "sorted_wrt (<) (r # rs)"
    using base_sorted [OF base, of i] rs by simp
  have "base_inv K (set_requests i [r] (detach (set rs) w'))"
  proof (rule base_requests [OF base'])
    show "set rs = set (requests (conn w' i)) - set [r]"
      using rs' srt by auto
    fix q
    assume "cur (conn w' i) = Some q" "receiving (conn w' i)" "\<not> r_done (req w' q)"
    moreover from this have "\<not> r_done (req w r)"
      by (simp add: w'_def receiving_def)
    then have "cur (conn w i) = Some r"
      using base_undone [OF base, of r i] rs by simp
    ultimately show "[r] \<noteq> [] \<and> last [r] = q"
      by (simp add: w'_def)
  qed (use rs' in auto)
  then show ?thesis
    unfolding w'_def cut_pipeline_eq [OF rs] .
qed

lemma cut_pipeline_simps:
  assumes "requests (conn w i) = r # rs"
  shows "requests (conn (cut_pipeline i r w) i) = [r]"
    "closing (conn (cut_pipeline i r w) i)"
    "st_open (stream (conn (cut_pipeline i r w) i)) = st_open (stream (conn w i))"
    "st_out (stream (conn (cut_pipeline i r w) i)) = st_out (stream (conn w i))"
    "r_resp (req (cut_pipeline i r w) q) = r_resp (req w q)"
    "res (cut_pipeline i r w) = res w" "next_rid (cut_pipeline i r w) = next_rid w"
    "j \<noteq> i \<Longrightarrow> conn (cut_pipeline i r w) j = conn w j"
    "r_done (req (cut_pipeline i r w) q) = r_done (req w q)"
  by (simp_all add: cut_pipeline_eq [OF assms])

lemma good_cut_pipeline:
  assumes pend: "pend K i w" and rs: "requests (conn w i) = r # rs"
    and s: "r_resp (req w r) = Some s" and ends: "ends_connection w r s"
  shows "good K (cut_pipeline i r (write_head X i r s w))" (is "good K ?w")
proof -
  let ?h = "write_head X i r s w"
  have rs': "requests (conn ?h i) = r # rs"
    using rs by (simp add: write_head_def)
  note cut = cut_pipeline_simps [OF rs']
  have base: "base_inv K ?w"
    using pend rs' by (intro base_cut_pipeline)
      (simp_all add: pend_def write_head_def base_stream_write)
  have other: "wire_conn settled ?w j" if "j \<noteq> i" for j
  proof -
    have "wire_conn settled ?w j = wire_conn settled ?h j"
      by (rule wire_other_cong) (use that cut in simp_all)
    also have "\<dots> = wire_conn settled w j"
      using that by (simp add: write_head_def wire_stream_write_other)
    finally show ?thesis using pend that by (simp add: pend_def)
  qed
  have ok: "wire_ok (st_out (stream (conn w i)))"
    using pend by (simp add: pend_def wire_conn_def)
  have front: "front_msg ?w i = front_msg w i" "front_bound ?w i = Suc r" "front_answered ?w i"
    using cut rs s by (simp_all add: front_msg_def front_bound_def front_answered_def write_head_def)
  have "wire_conn settled ?w i"
  proof (cases "st_open (stream (conn w i))")
    case False
    then show ?thesis
      using ok cut by (simp add: wire_conn_def write_head_def)
  next
    case True
    note step = wire_step [OF ok head_accepted [OF pend rs s True]]
    have "settled ?w i (Suc r, front_msg w i, True)"
      using front cut by (simp add: settled_def)
    with step [of True "s_body (res w s)"] ends True show ?thesis
      using cut by (simp add: wire_conn_def write_head_def)
  qed
  with base other show ?thesis
    unfolding good_def by metis
qed

section \<open>Responses\<close>

text \<open>The request at the head of the queue.\<close>

definition front :: "world \<Rightarrow> cid \<Rightarrow> rid option" where
  "front w i = (case requests (conn w i) of [] \<Rightarrow> None | r # _ \<Rightarrow> Some r)"

lemma front_Cons: "requests (conn w i) = r # rs \<Longrightarrow> front w i = Some r"
  by (simp add: front_def)

lemma front_conn: "base_inv K w \<Longrightarrow> front w i = Some r \<Longrightarrow> r_conn (req w r) = Some i"
  by (auto simp: front_def base_links split: list.splits)

text \<open>What the wire of a connection depends on: the head of its queue and that one's response.\<close>

lemma wire_front_cong:
  assumes "conn w' j = conn w j" and "next_rid w' = next_rid w"
    and "\<And>r. front w j = Some r \<Longrightarrow> r_resp (req w' r) = r_resp (req w r)"
    and "\<And>r s. front w j = Some r \<Longrightarrow> r_resp (req w r) = Some s \<Longrightarrow>
      s_completed (res w' s) = s_completed (res w s)"
  shows "wire_conn settled w' j = wire_conn settled w j"
proof -
  have "front_msg w' j = front_msg w j" "front_bound w' j = front_bound w j"
    "front_answered w' j = front_answered w j"
    using assms
    by (auto simp: front_def front_msg_def front_bound_def front_answered_def
        split: list.splits option.splits)
  then show ?thesis by (simp only: wire_conn_def settled_def assms(1))
qed

lemma link_simps [simp]:
  "conn (link_response r s w) = conn w" "next_rid (link_response r s w) = next_rid w"
  "next_sid (link_response r s w) = next_sid w" "lastid (link_response r s w) = lastid w"
  "req (link_response r s w) q = (if q = r then (req w r)\<lparr>r_resp := Some s\<rparr> else req w q)"
  "res (link_response r s w) t = (if t = s then (res w s)\<lparr>s_req := Some r\<rparr> else res w t)"
  by (simp_all add: link_response_def)

lemma base_cong:
  assumes "conn w' = conn w" "next_rid w' = next_rid w" "lastid w' = lastid w"
    and "\<And>r. r_conn (req w' r) = r_conn (req w r)" "\<And>r. r_server (req w' r) = r_server (req w r)"
    and "\<And>r. r_done (req w' r) = r_done (req w r)"
    and "base_inv K w" "resp_ok w'"
  shows "base_inv K w'"
proof -
  have "links_ok w' = links_ok w" by (simp only: links_ok_def assms(1-6))
  moreover have "queue_ok w' = queue_ok w" by (simp only: queue_ok_def assms(1-6))
  moreover have "cur_ok w' = cur_ok w" by (simp only: cur_ok_def assms(1-6))
  moreover have "ids_ok w' = ids_ok w" by (simp only: ids_ok_def assms(1-6))
  moreover have "parse_view w' = parse_view w" by (simp only: parse_view_def assms(1-6))
  ultimately show ?thesis using assms(7,8) by (simp add: base_inv_def)
qed

lemma base_link:
  assumes base: "base_inv K w" and "r_resp (req w r) = None" "s_req (res w s) = None"
    and "s < next_sid w" "r \<in> set (requests (conn w i))"
  shows "base_inv K (link_response r s w)"
proof -
  have lt: "r < next_rid w" using base_lt [OF base assms(5)] .
  have "resp_ok w" using base by (simp add: base_inv_def)
  then have "resp_ok (link_response r s w)"
    using assms(2-4) lt unfolding resp_ok_def by (auto, metis option.distinct(1))
  moreover have "r_conn (req (link_response r s w) q) = r_conn (req w q)"
    "r_server (req (link_response r s w) q) = r_server (req w q)"
    "r_done (req (link_response r s w) q) = r_done (req w q)" for q
    by simp_all
  ultimately show ?thesis
    by (intro base_cong [OF _ _ _ _ _ _ base]) simp_all
qed

lemma pend_link:
  assumes good: "good K w" and resp: "r_resp (req w r) = None" "s_req (res w s) = None"
    and "s < next_sid w" and front: "front w i = Some r"
  shows "pend K i (link_response r s w)"
proof -
  have base: "base_inv K w" using good by (simp add: good_def)
  have rs: "requests (conn w i) \<noteq> []" "hd (requests (conn w i)) = r" "r \<in> set (requests (conn w i))"
    using front by (auto simp: front_def split: list.splits)
  have "base_inv K (link_response r s w)"
    by (rule base_link [OF base resp assms(4) rs(3)])
  moreover have "front_answered (link_response r s w) i"
    using rs by (simp add: front_answered_def)
  moreover have "wire_conn settled (link_response r s w) j" if "j \<noteq> i" for j
  proof -
    have "wire_conn settled (link_response r s w) j = wire_conn settled w j"
      by (rule wire_front_cong)
        (use that front_conn [OF base, of j] front_conn [OF base front] base_resp [OF base] resp in auto)
    then show ?thesis using good by (simp add: good_def)
  qed
  moreover have "wire_conn due (link_response r s w) i"
  proof -
    have "wire_conn settled w i" using good by (simp add: good_def)
    moreover have "front_msg w i = None" "front_bound w i = r" "\<not> front_answered w i"
      using rs resp(1)
      by (auto simp: front_msg_def front_bound_def front_answered_def split: list.splits)
    ultimately show ?thesis
      using rs by (auto simp: wire_conn_def settled_def due_def)
  qed
  ultimately show ?thesis by (simp add: pend_def)
qed

lemma good_link:
  assumes good: "good K w" and resp: "r_resp (req w r) = None" "s_req (res w s) = None"
    and "s < next_sid w" and r: "r \<in> set (requests (conn w i))" and front: "front w i \<noteq> Some r"
  shows "good K (link_response r s w)"
proof -
  have base: "base_inv K w" using good by (simp add: good_def)
  have "wire_conn settled (link_response r s w) j" for j
  proof -
    have "front w j \<noteq> Some r"
      using front front_conn [OF base, of j r] base_links [OF base, of r i] r by auto
    then have "wire_conn settled (link_response r s w) j = wire_conn settled w j"
      by (intro wire_front_cong) (use resp in auto)
    then show ?thesis using good by (simp add: good_def)
  qed
  with base_link [OF base resp assms(4) r] show ?thesis by (simp add: good_def)
qed

text \<open>A response that is not in progress may change in any way but its link.\<close>

lemma base_upd_res:
  assumes "base_inv K w" and "\<And>p. s_req (f p) = s_req p"
  shows "base_inv K (upd_res s f w)"
proof -
  have "s_req (res (upd_res s f w) t) = s_req (res w t)" for t by (simp add: assms(2))
  then have "resp_ok (upd_res s f w)"
    using assms(1) by (simp add: base_inv_def resp_ok_def del: upd_res_simps(1))
  then show ?thesis
    by (intro base_cong [OF _ _ _ _ _ _ assms(1)]) simp_all
qed

lemma wire_upd_res:
  assumes base: "base_inv K w" and s: "s_req (res w s) = Some r" and front: "front w j \<noteq> Some r"
  shows "wire_conn settled (upd_res s f w) j = wire_conn settled w j"
proof (rule wire_front_cong)
  fix q t assume "front w j = Some q" "r_resp (req w q) = Some t"
  then have "t \<noteq> s"
    using s front base_resp [OF base, of q t] by auto
  then show "s_completed (res (upd_res s f w) t) = s_completed (res w t)" by simp
qed simp_all

lemma good_upd_res:
  assumes good: "good K w" and f: "\<And>p. s_req (f p) = s_req p"
    and s: "s_req (res w s) = Some r" and front: "\<And>j. front w j \<noteq> Some r"
  shows "good K (upd_res s f w)"
  using good wire_upd_res [of K, OF _ s front] base_upd_res [of K w f s, OF _ f]
  by (simp add: good_def)

lemma pend_upd_res:
  assumes pend: "pend K i w" and f: "\<And>p. s_req (f p) = s_req p"
    and s: "s_req (res w s) = Some r" and front: "front w i = Some r"
  shows "pend K i (upd_res s f w)"
proof -
  have base: "base_inv K w" using pend by (simp add: pend_def)
  have "front w j \<noteq> Some r" if "j \<noteq> i" for j
    using that front_conn [OF base, of j r] front_conn [OF base front] by auto
  then have "wire_conn settled (upd_res s f w) j" if "j \<noteq> i" for j
    using pend that wire_upd_res [OF base s] by (simp add: pend_def)
  moreover have "wire_conn due (upd_res s f w) i"
    using pend by (simp add: pend_def wire_conn_def due_def)
  ultimately show ?thesis
    using pend base_upd_res [OF base f] by (simp add: pend_def front_answered_def)
qed

section \<open>Requests\<close>

lemma base_view: "base_inv K w \<Longrightarrow> parse_view w = K"
  by (simp add: base_inv_def)

lemma good_view: "good K w \<Longrightarrow> parse_view w = K"
  by (simp add: good_def base_view)

text \<open>Fields of a request the invariant does not read, and whether it holds the server.\<close>

lemma base_upd_req:
  assumes base: "base_inv K w"
    and f: "\<And>q. r_conn (f q) = r_conn q" "\<And>q. r_resp (f q) = r_resp q"
    and dn: "r_done (f (req w r)) = r_done (req w r) \<or>
      (r_done (f (req w r)) \<or> (\<forall>i. r_conn (req w r) = Some i \<longrightarrow> cur (conn w i) = Some r)) \<and>
      (\<forall>i. cur (conn w i) = Some r \<longrightarrow> receiving (conn w i) \<longrightarrow> \<not> r_done (f (req w r)) \<longrightarrow>
        \<not> r_done (req w r))"
    and server: "r_server (f (req w r)) \<longrightarrow> r_server (req w r) \<or> r_conn (req w r) \<noteq> None"
  shows "base_inv (parse_view (upd_req r f w)) (upd_req r f w)" (is "base_inv _ ?w")
proof -
  have same: "r_conn (req ?w q) = r_conn (req w q)" "r_resp (req ?w q) = r_resp (req w q)" for q
    by (simp_all add: f)
  have "r_server (req ?w q) \<longrightarrow> r_conn (req w q) \<noteq> None" for q
    using server base_server [OF base, of r] base_server [OF base, of q] by auto
  then have "links_ok ?w"
    using base by (simp add: links_ok_def base_inv_def same del: upd_req_simps(1))
  moreover have "resp_ok ?w"
    using base by (simp add: resp_ok_def base_inv_def same del: upd_req_simps(1))
  moreover have "queue_ok ?w"
    using base dn base_links [OF base] by (auto simp: queue_ok_def base_inv_def)
  moreover have "cur_ok ?w"
    using base dn by (auto simp: cur_ok_def base_inv_def)
  moreover have "ids_ok ?w"
    using base by (simp add: ids_ok_def base_inv_def)
  ultimately show ?thesis by (simp add: base_inv_def)
qed

lemma good_upd_req_view:
  assumes good: "good K w"
    and f: "\<And>q. r_conn (f q) = r_conn q" "\<And>q. r_resp (f q) = r_resp q"
    and "r_done (f (req w r)) = r_done (req w r) \<or>
      (r_done (f (req w r)) \<or> (\<forall>i. r_conn (req w r) = Some i \<longrightarrow> cur (conn w i) = Some r)) \<and>
      (\<forall>i. cur (conn w i) = Some r \<longrightarrow> receiving (conn w i) \<longrightarrow> \<not> r_done (f (req w r)) \<longrightarrow>
        \<not> r_done (req w r))"
    and "r_server (f (req w r)) \<longrightarrow> r_server (req w r) \<or> r_conn (req w r) \<noteq> None"
  shows "good (parse_view (upd_req r f w)) (upd_req r f w)"
proof -
  have "base_inv K w" using good by (simp add: good_def)
  note base = base_upd_req [OF this f assms(4,5)]
  have "wire_conn settled (upd_req r f w) j = wire_conn settled w j" for j
    by (rule wire_other_cong) (simp_all add: f)
  with base good show ?thesis by (simp add: good_def)
qed

lemma good_upd_req:
  assumes good: "good K w"
    and f: "\<And>q. r_conn (f q) = r_conn q" "\<And>q. r_resp (f q) = r_resp q" "\<And>q. r_done (f q) = r_done q"
    and server: "r_server (f (req w r)) \<longrightarrow> r_server (req w r) \<or> r_conn (req w r) \<noteq> None"
  shows "good K (upd_req r f w)"
proof -
  have "(\<lambda>q. r_done (req (upd_req r f w) q)) = (\<lambda>q. r_done (req w q))"
    by (simp add: fun_eq_iff f)
  then have "parse_view (upd_req r f w) = K"
    using good_view [OF good] by (simp add: parse_view_def del: upd_req_simps(1))
  with good_upd_req_view [OF good f(1,2) _ server] show ?thesis by (simp add: f)
qed

text \<open>A new request at the end of a queue.\<close>

definition arrive :: "cid \<Rightarrow> srequest \<Rightarrow> rid option \<Rightarrow> world \<Rightarrow> world" where
  "arrive i q c' w =
     (upd_req (next_rid w) (\<lambda>_. q)
       (upd_conn i (\<lambda>c. c\<lparr>requests := requests c @ [next_rid w], cur := c'\<rparr>) w))
     \<lparr>next_rid := Suc (next_rid w)\<rparr>"

lemma arrive_simps [simp]:
  "conn (arrive i q c' w) j =
     (if j = i then (conn w i)\<lparr>requests := requests (conn w i) @ [next_rid w], cur := c'\<rparr>
      else conn w j)"
  "req (arrive i q c' w) r = (if r = next_rid w then q else req w r)"
  "res (arrive i q c' w) = res w" "next_rid (arrive i q c' w) = Suc (next_rid w)"
  "next_sid (arrive i q c' w) = next_sid w" "lastid (arrive i q c' w) = lastid w"
  by (simp_all add: arrive_def)

lemma base_arrive:
  assumes base: "base_inv K w" and q: "r_conn q = Some i" "\<not> r_server q" "r_resp q = None"
    and timer: "idle_timer (conn w i) \<noteq> Some True" and i: "i \<le> lastid w"
    and c': "c' = Some (next_rid w) \<and> (\<forall>p. cur (conn w i) = Some p \<longrightarrow> r_done (req w p)) \<or>
      c' = cur (conn w i) \<and> r_done q \<and>
      (receiving (conn w i) \<longrightarrow> (\<forall>p. c' = Some p \<longrightarrow> r_done (req w p)))"
  shows "base_inv (parse_view (arrive i q c' w)) (arrive i q c' w)" (is "base_inv _ ?w")
proof -
  have fresh: "next_rid w \<notin> set (requests (conn w j))" "s_req (res w s) \<noteq> Some (next_rid w)" for j s
    using base by (auto simp: base_inv_def queue_ok_def resp_ok_def)
  have queue: "queue_ok w" and curs: "cur_ok w" using base by (simp_all add: base_inv_def)
  have "links_ok ?w"
    using base q fresh(1) by (auto simp: base_inv_def links_ok_def)
  moreover have "resp_ok ?w"
    using base q(3) fresh(2) by (auto simp: base_inv_def resp_ok_def intro: less_SucI)
  moreover have "queue_ok ?w"
    unfolding queue_ok_def
  proof (intro allI conjI ballI impI)
    fix j
    have lt: "\<forall>r\<in>set (requests (conn w j)). r < next_rid w"
      using base_lt [OF base] by blast
    then show "sorted_wrt (<) (requests (conn ?w j))"
      using base_sorted [OF base, of j] by (auto simp: sorted_wrt_less_snoc)
    fix r assume r: "r \<in> set (requests (conn ?w j))"
    then show "r < next_rid ?w" using lt by (auto split: if_splits)
    show "r_done (req ?w r) \<or> cur (conn ?w j) = Some r"
    proof (cases "r = next_rid w")
      case True
      then show ?thesis using r c' fresh(1) by (auto split: if_splits)
    next
      case False
      then have old: "r \<in> set (requests (conn w j))" using r by (auto split: if_splits)
      then have "r_done (req w r) \<or> cur (conn w j) = Some r"
        using queue by (auto simp: queue_ok_def)
      with False c' show ?thesis by auto
    qed
  next
    fix j assume "idle_timer (conn ?w j) = Some True"
    then show "requests (conn ?w j) = []"
      using queue timer by (auto simp: queue_ok_def split: if_splits)
  qed
  moreover have "cur_ok ?w"
    using curs c' q(1)
    by (auto simp: cur_ok_def receiving_def intro: less_SucI split: if_splits)
  moreover have "ids_ok ?w"
    using base i by (auto simp: base_inv_def ids_ok_def)
  ultimately show ?thesis by (simp add: base_inv_def)
qed

lemma good_arrive:
  assumes good: "good K w" and q: "r_conn q = Some i" "\<not> r_server q" "r_resp q = None"
    and timer: "idle_timer (conn w i) \<noteq> Some True" and i: "i \<le> lastid w"
    and c': "c' = Some (next_rid w) \<and> (\<forall>p. cur (conn w i) = Some p \<longrightarrow> r_done (req w p)) \<or>
      c' = cur (conn w i) \<and> r_done q \<and>
      (receiving (conn w i) \<longrightarrow> (\<forall>p. c' = Some p \<longrightarrow> r_done (req w p)))"
  shows "good (parse_view (arrive i q c' w)) (arrive i q c' w)" (is "good _ ?w")
proof -
  have base: "base_inv K w" using good by (simp add: good_def)
  have lt: "r \<noteq> next_rid w" if "r \<in> set (requests (conn w j))" for r j
    using base_lt [OF base that] by simp
  have "wire_conn settled ?w j" for j
  proof -
    have wire: "wire_conn settled w j" using good by (simp add: good_def)
    have "front_msg ?w j = front_msg w j" "front_answered ?w j = front_answered w j"
      "front_bound w j \<le> front_bound ?w j"
    proof (atomize (full), cases "requests (conn w j)")
      case Nil
      then show "front_msg ?w j = front_msg w j \<and> front_answered ?w j = front_answered w j \<and>
          front_bound w j \<le> front_bound ?w j"
        using q(3) by (cases "j = i") (auto simp: front_msg_def front_answered_def front_bound_def)
    next
      case (Cons r rs)
      then obtain rs' where "requests (conn ?w j) = r # rs'" "r \<noteq> next_rid w"
        using lt [of r j] by (cases "j = i") auto
      then show "front_msg ?w j = front_msg w j \<and> front_answered ?w j = front_answered w j \<and>
          front_bound w j \<le> front_bound ?w j"
        using Cons unfolding front_msg_def front_answered_def front_bound_def
        by (cases "r_resp (req w r)") (auto simp del: arrive_simps(1))
    qed
    with wire show ?thesis
      by (auto simp: wire_conn_def settled_def)
  qed
  with base_arrive [OF base q timer i c'] show ?thesis by (simp add: good_def)
qed

section \<open>A round of the parser\<close>

text \<open>
  The law of the parser: it makes a new request exactly when the previous one is complete (or there
  is none), and it returns before the end of the buffer only with a complete request.
\<close>

definition fresh_result :: "world \<Rightarrow> cid \<Rightarrow> parse_result \<Rightarrow> bool" where
  "fresh_result w i p \<longleftrightarrow>
     pr_new p = (case cur (conn w i) of None \<Rightarrow> True | Some q \<Rightarrow> r_done (req w q))"

definition parser_law :: "world \<Rightarrow> cid \<Rightarrow> parse_result list \<Rightarrow> bool" where
  "parser_law w i ps \<longleftrightarrow>
     (case ps of
        [] \<Rightarrow> True
      | p # ps' \<Rightarrow> fresh_result w i p \<and> (\<forall>p'\<in>set ps'. pr_new p') \<and>
          (\<forall>p'\<in>set (butlast ps). pr_state p' = StDone \<and> pr_error p' = NoError))"

lemma receive_new:
  assumes good: "good K w" and new: "pr_new p" and i: "i \<le> lastid w"
    and cur: "\<And>q. cur (conn w i) = Some q \<Longrightarrow> r_done (req w q)"
  defines "q \<equiv> parsed_into p (new_srequest i w)\<lparr>r_done := state_rank StDone \<le> state_rank (pr_state p)\<rparr>"
  shows "receive_result i p w =
    (next_rid w, arrive i q (Some (next_rid w)) (stop_timer i w))"
proof -
  have base: "base_inv K w" using good by (simp add: good_def)
  have "last (requests (conn w i)) \<noteq> next_rid w" if "requests (conn w i) \<noteq> []"
    using base_lt [OF base, of "last (requests (conn w i))" i] that by auto
  then show ?thesis
    using new
    by (auto simp: receive_result_def take_result_def enqueue_request_def Let_def arrive_def q_def
        new_request_def upd_conn_def upd_req_def stop_timer_def new_srequest_def fun_eq_iff)
qed

lemma receive_more:
  assumes good: "good K w" and new: "\<not> pr_new p" and cur: "cur (conn w i) = Some q"
    and "receiving (conn w i)" "\<not> r_done (req w q)"
  shows "receive_result i p w =
    (q, upd_req q (\<lambda>x. (parsed_into p x)
        \<lparr>r_done := state_rank StDone \<le> state_rank (pr_state p)\<rparr>) (stop_timer i w))"
proof -
  have "base_inv K w" using good by (simp add: good_def)
  from base_cur_last [OF this cur assms(4,5)] show ?thesis
    using new cur
    by (simp add: receive_result_def take_result_def enqueue_request_def Let_def
        upd_conn_def upd_req_def stop_timer_def)
qed

lemma good_stop_timer: "good K w \<Longrightarrow> good K (stop_timer i w)"
  unfolding stop_timer_def
  by (rule good_tame) (auto simp: tame_def receiving_def)

lemma stop_timer_simps [simp]:
  "req (stop_timer i w) = req w" "res (stop_timer i w) = res w"
  "next_rid (stop_timer i w) = next_rid w" "next_sid (stop_timer i w) = next_sid w"
  "lastid (stop_timer i w) = lastid w"
  "requests (conn (stop_timer i w) j) = requests (conn w j)"
  "cur (conn (stop_timer i w) j) = cur (conn w j)"
  "stream (conn (stop_timer i w) j) = stream (conn w j)"
  "closing (conn (stop_timer i w) j) = closing (conn w j)"
  "idle_timer (conn (stop_timer i w) i) \<noteq> Some True"
  "receiving (conn (stop_timer i w) j) = receiving (conn w j)"
  by (auto simp: stop_timer_def receiving_def)

lemma good_receive:
  assumes good: "good K w" and fresh: "fresh_result w i p" and i: "i \<le> lastid w"
    and more: "\<not> pr_new p \<Longrightarrow> receiving (conn w i)"
    and rec: "receive_result i p w = (r, w')"
  shows "good (parse_view w') w'" "cur (conn w' i) = Some r" "r \<in> set (requests (conn w' i))"
    "r_done (req w' r) = (state_rank StDone \<le> state_rank (pr_state p))"
    "lastid w' = lastid w"
proof -
  note good' = good_stop_timer [OF good, of i]
  have "good (parse_view w') w' \<and> cur (conn w' i) = Some r \<and> r \<in> set (requests (conn w' i)) \<and>
    r_done (req w' r) = (state_rank StDone \<le> state_rank (pr_state p)) \<and> lastid w' = lastid w"
  proof (cases "pr_new p")
    case True
    have cur: "r_done (req w q)" if "cur (conn w i) = Some q" for q
      using fresh True that by (simp add: fresh_result_def)
    note eq = receive_new [OF good True i cur]
    have w': "r = next_rid w" "w' = arrive i (parsed_into p (new_srequest i w)
        \<lparr>r_done := state_rank StDone \<le> state_rank (pr_state p)\<rparr>) (Some (next_rid w)) (stop_timer i w)"
      using eq rec by simp_all
    have "good (parse_view w') w'"
      unfolding w'(2)
      by (rule good_arrive [OF good']) (use i cur in \<open>auto simp: parsed_into_def new_srequest_def\<close>)
    then show ?thesis
      by (simp add: w')
  next
    case False
    then obtain q where cur: "cur (conn w i) = Some q" "\<not> r_done (req w q)"
      using fresh by (auto simp: fresh_result_def split: option.splits)
    have base: "base_inv K w" using good by (simp add: good_def)
    have q: "q \<in> set (requests (conn w i))"
      using base_cur_last [OF base cur(1) more [OF False] cur(2)] by auto
    define f where "f = (\<lambda>x. (parsed_into p x)
        \<lparr>r_done := state_rank StDone \<le> state_rank (pr_state p)\<rparr>)"
    have w': "r = q" "w' = upd_req q f (stop_timer i w)"
      using receive_more [OF good False cur(1) more [OF False] cur(2)] rec by (simp_all add: f_def)
    have links: "r_conn (req w q) = Some j \<longleftrightarrow> j = i" for j
      using q base_links [OF base, of q i] by auto
    have "good (parse_view w') w'"
      unfolding w'(2)
      by (rule good_upd_req_view [OF good'])
        (use cur links in \<open>auto simp: f_def parsed_into_def\<close>)
    then show ?thesis
      using cur q by (simp add: w' f_def)
  qed
then show "good (parse_view w') w'" "cur (conn w' i) = Some r" "r \<in> set (requests (conn w' i))"
    "r_done (req w' r) = (state_rank StDone \<le> state_rank (pr_state p))"
    "lastid w' = lastid w"
    by blast+
qed

text \<open>A read error ends the request being received, or one made for it.\<close>

definition fail_request :: "cid \<Rightarrow> world \<Rightarrow> world" where
  "fail_request i w =
     (let w = stop_timer i w;
          rs = requests (conn w i);
          w = (if rs = [] \<or> r_done (req w (last rs))
               then upd_conn i (\<lambda>c. c\<lparr>requests := requests c @ [next_rid w]\<rparr>) (new_request i w)
               else w)
      in upd_req (last (requests (conn w i))) (\<lambda>q. q\<lparr>r_done := True\<rparr>) w)"

lemma on_read_error_eq:
  "on_read_error X cb i err w =
     request_error X cb i (last (requests (conn (fail_request i w) i))) err (fail_request i w)"
  by (simp add: on_read_error_def fail_request_def Let_def)

lemma good_fail_request:
  assumes good: "good K w" and i: "i \<le> lastid w"
  shows "good (parse_view (fail_request i w)) (fail_request i w)"
proof -
  note good' = good_stop_timer [OF good, of i]
  have base: "base_inv K w" using good by (simp add: good_def)
  show ?thesis
  proof (cases "requests (conn w i) = [] \<or> r_done (req w (last (requests (conn w i))))")
    case True
    have "fail_request i w =
        arrive i (new_srequest i w\<lparr>r_done := True\<rparr>) (cur (conn w i)) (stop_timer i w)"
      using True
      by (auto simp: fail_request_def Let_def arrive_def new_request_def stop_timer_def
          new_srequest_def upd_conn_def upd_req_def fun_eq_iff)
    moreover have "good (parse_view (arrive i q (cur (conn w i)) (stop_timer i w)))
        (arrive i q (cur (conn w i)) (stop_timer i w))"
      if "q = new_srequest i w\<lparr>r_done := True\<rparr>" for q
      by (rule good_arrive [OF good'])
        (use that i True base_cur_last [OF base, of i] in \<open>auto simp: new_srequest_def\<close>)
    ultimately show ?thesis by simp
  next
    case False
    then have eq: "fail_request i w = upd_req (last (requests (conn w i))) (\<lambda>q. q\<lparr>r_done := True\<rparr>)
        (stop_timer i w)"
      by (simp add: fail_request_def Let_def)
    show ?thesis
      unfolding eq by (rule good_upd_req_view [OF good']) simp_all
  qed
qed

section \<open>The end of a chunked response\<close>

definition complete :: "sid \<Rightarrow> world \<Rightarrow> world" where
  "complete s = upd_res s (\<lambda>p. p\<lparr>s_completed := True\<rparr>)"

lemma good_final:
  assumes good: "good K w" and front: "front w i = Some r" and s: "r_resp (req w r) = Some s"
    and open_msg: "\<not> s_completed (res w s)"
  shows "good K (stream_write X i (Final s x) (complete s w))"
proof (rule good_write)
  have base: "base_inv K w" using good by (simp add: good_def)
  obtain rs where rs: "requests (conn w i) = r # rs"
    using front by (auto simp: front_def split: list.splits)
  have msg: "front_msg w i = Some s" "front_msg (complete s w) i = None"
    "front_bound (complete s w) i = front_bound w i" "front_answered (complete s w) i"
    using s open_msg
    by (simp_all add: complete_def front_msg_def front_bound_def front_answered_def rs)
  show "good_except K i (complete s w)"
  proof (rule good_exceptI)
    show "base_inv K (complete s w)"
      unfolding complete_def by (rule base_upd_res [OF base]) simp
    show "wire_ok (st_out (stream (conn (complete s w) i)))"
      using good by (simp add: complete_def good_wire_ok)
    fix j assume "j \<noteq> i"
    then have other: "front w j \<noteq> Some r"
      using front_conn [OF base, of j r] front_conn [OF base front] by auto
    then show "wire_conn settled (complete s w) j"
      using wire_upd_res [OF base _ other, of s] base_resp [OF base] s good
      by (simp add: complete_def good_def)
  qed
  assume op: "st_open (stream (conn (complete s w) i))"
  define ws where "ws = the (wire_state (st_out (stream (conn w i))))"
  have "settled w i ws"
    using good op by (simp add: good_def wire_conn_def ws_def complete_def)
  then have "wnext ws (Final s x) = Some (ws_next ws, None, ws_end ws)"
    "settled (complete s w) i (ws_next ws, None, ws_end ws)"
    using msg by (cases ws; simp add: settled_def complete_def)+
  then show "\<exists>ws'. wnext (the (wire_state (st_out (stream (conn (complete s w) i))))) (Final s x) =
      Some ws' \<and> settled (complete s w) i ws'"
    by (auto simp: complete_def ws_def)
qed

section \<open>A new connection\<close>

lemma ids_above:
  assumes "base_inv K w" and "\<not> i \<le> lastid w"
  shows "requests (conn w i) = []" "\<not> st_open (stream (conn w i))"
  using assms by (auto simp: base_inv_def ids_ok_def)

lemma less_plus_one: "x \<noteq> - 1 \<Longrightarrow> x < x + (1 :: 'a :: len word)"
  by (metis add.commute add_eq_0_iff lessI unatSuc word_less_nat_alt)

lemma good_new_connection:
  assumes good: "good K w" and i: "i = lastid w + 1" "lastid w \<noteq> -1"
    and c: "requests c = []" "cur c = None" "st_out (stream c) = []" "\<not> closing c"
    and w': "w' = upd_conn i (\<lambda>_. c) (w\<lparr>lastid := i, connections := cs\<rparr>)"
  shows "good (parse_view w') w'"
proof -
  have base: "base_inv K w" using good by (simp add: good_def)
  have lt: "lastid w < i"
    unfolding i(1) by (rule less_plus_one [OF i(2)])
  then have none: "requests (conn w i) = []" "\<not> st_open (stream (conn w i))"
    using ids_above [OF base, of i] by auto
  have old: "conn w' j = (if j = i then c else conn w j)" "req w' = req w" "res w' = res w"
    "next_rid w' = next_rid w" "next_sid w' = next_sid w" "lastid w' = i" for j
    by (simp_all add: w')
  have "links_ok w'" "resp_ok w'" "queue_ok w'" "cur_ok w'"
    using base none c
    by (auto simp: base_inv_def links_ok_def resp_ok_def queue_ok_def cur_ok_def old)
  moreover have "ids_ok w'"
    using base c lt by (force simp: base_inv_def ids_ok_def old)
  moreover have "wire_conn settled w' j" for j
  proof (cases "j = i")
    case True
    then show ?thesis
      using c by (simp add: wire_conn_def settled_def old wire_ok_def front_msg_def front_bound_def)
  next
    case False
    then have "wire_conn settled w' j = wire_conn settled w j"
      by (intro wire_other_cong) (simp_all add: old)
    then show ?thesis using good by (simp add: good_def)
  qed
  ultimately show ?thesis by (simp add: good_def base_inv_def)
qed

end
