(* ===== verification/ServerSafe.thy ===== *)
theory ServerSafe
  imports ServerUpdates
begin

text \<open>
  Every method of the connection keeps the invariant, whatever the callbacks do, as long as they
  keep it themselves. The interface \<open>callback_contract\<close> adds that law to the one for detached
  requests; the faults the library runs into by itself are allowed, but not \<open>LoopBound\<close> (unless a
  callback does), so the bounds on the loops are large enough.
\<close>

lemma good_except_stream_close:
  "good_except K i w \<Longrightarrow> good K (stream_close i w)"
  unfolding stream_close_def upd_stream_def
  by (rule good_except_closed, erule good_except_tame) (auto simp: tame_def receiving_def)

lemma good_stream_unlisten: "good K w \<Longrightarrow> good K (stream_unlisten i w)"
  unfolding stream_unlisten_def upd_stream_def
  by (rule good_tame) (auto simp: tame_def receiving_def)

lemma good_except_stream_unlisten: "good_except K i w \<Longrightarrow> good_except K i (stream_unlisten i w)"
  unfolding stream_unlisten_def upd_stream_def
  by (rule good_except_tame) (auto simp: tame_def receiving_def)

lemma good_except_stop_timer: "good_except K i w \<Longrightarrow> good_except K i (stop_timer i w)"
  unfolding stop_timer_def
  by (rule good_except_tame) (auto simp: tame_def receiving_def)

lemma good_read_ignore: "good K w \<Longrightarrow> good K (read_ignore i w)"
  unfolding read_ignore_def upd_stream_def
  by (rule good_tame) (auto simp: tame_def receiving_def)

lemma good_connections [simp]: "good K (w\<lparr>connections := cs\<rparr>) = good K w"
  by (rule good_same) simp_all

lemma good_srv_state [simp]: "good K (w\<lparr>srv_state := st\<rparr>) = good K w"
  by (rule good_same) simp_all

lemma good_stopping: "good K w \<Longrightarrow> good K (upd_conn i (\<lambda>c. c\<lparr>stopping := True\<rparr>) w)"
  by (rule good_tame) (auto simp: tame_def receiving_def)

lemma pend_stopping: "pend K i w \<Longrightarrow> pend K i (upd_conn i (\<lambda>c. c\<lparr>stopping := True\<rparr>) w)"
  by (rule pend_tame) (auto simp: tame_def receiving_def)

lemma pend_processed:
  "pend K i w \<Longrightarrow> pend K i (upd_conn i (\<lambda>c. c\<lparr>requests_processed := n c\<rparr>) w)"
  by (rule pend_tame) (auto simp: tame_def receiving_def)

lemma good_processed:
  "good K w \<Longrightarrow> good K (upd_conn i (\<lambda>c. c\<lparr>requests_processed := n c\<rparr>) w)"
  by (rule good_tame) (auto simp: tame_def receiving_def)

lemma front_upd: "front (upd_res s f w) i = front w i"
  by (simp add: front_def)

lemma pend_requests: "pend K i w \<Longrightarrow> requests (conn w i) \<noteq> []"
  by (simp add: pend_def front_answered_def)

text \<open>After the head of a response: the rest of it may follow.\<close>

definition head_written :: "parse_view \<Rightarrow> cid \<Rightarrow> sid \<Rightarrow> nat \<Rightarrow> world \<Rightarrow> bool" where
  "head_written K i s n w \<longleftrightarrow> good K w \<and> length (requests (conn w i)) \<le> n \<and>
     (\<not> s_completed (res w s) \<longrightarrow> front_msg w i = Some s)"

section \<open>The interface\<close>

locale callback_contract = inert_callbacks +
  assumes faults: "{AssertFailed, FrontOfEmpty, NullDeref, OutOfRange} \<subseteq> c"
    and cb_good: "good K w \<Longrightarrow> outcome_all c (good K) (good K) (cb ev w)"
begin

lemma faults_simps [simp]:
  "AssertFailed \<in> c" "FrontOfEmpty \<in> c" "NullDeref \<in> c" "OutOfRange \<in> c"
  using faults by auto

lemma fire_good: "good K w \<Longrightarrow> outcome_all c (good K) (good K) (fire cb ev w)"
  by (simp add: fire_def cb_good)

lemma stop_if_done_good: "good K w \<Longrightarrow> outcome_all c (good K) (good K) (stop_if_done cb w)"
  by (simp add: stop_if_done_def fire_good)

lemma server_remove_good:
  "good K w \<Longrightarrow> outcome_all c (good K) (good K) (server_remove cb i w)"
  unfolding server_remove_def
  by (intro post_run_pure post_run_Cons [where P = "good K"] post_when stop_if_done_good post_run_Nil)
    simp_all

lemma do_close_good:
  assumes "good_except K i w"
  shows "outcome_all c (good K) (good K) (do_close cb i err soft w)"
proof -
  define w1 where "w1 = (if soft then stream_close i
      else stream_close i \<circ> stream_unlisten i \<circ> stop_timer i) w"
  have good: "good K w1"
    using assms by (simp add: w1_def good_except_stream_close good_except_stream_unlisten
        good_except_stop_timer)
  have closed: "\<not> st_open (stream (conn w1 i))"
    by (simp add: w1_def stream_close_def upd_stream_def)
  have drop: "outcome_all c (good K) (good K) (drop_requests cb i err w1)"
    by (rule post_mono [OF drop_requests_effect])
      (auto intro: good_inert [OF good_dropped [OF good closed]])
  show ?thesis
    unfolding do_close_def
    by (intro post_run_pure, fold w1_def)
      (intro post_run_Cons [where P = "good K"] drop post_when server_remove_good post_run_Nil)
qed

lemma close_good: "good_except K i w \<Longrightarrow> outcome_all c (good K) (good K) (close cb i err w)"
  by (simp add: close_def do_close_good)

lemma shutdown_good: "good_except K i w \<Longrightarrow> outcome_all c (good K) (good K) (shutdown cb i err w)"
  by (simp add: shutdown_def do_close_good)

lemma graceful_stop_good:
  "good K w \<Longrightarrow> outcome_all c (good K) (good K) (graceful_stop cb i w)"
  by (simp add: graceful_stop_def shutdown_good good_except_good good_stopping)

lemma check_if_idle_good:
  assumes "good K w"
  shows "outcome_all c (good K) (good K) (check_if_idle i w)"
proof -
  have "good K (set_timer i (Some True) w)" if "requests (conn w i) = []"
    by (rule good_tame [OF assms]) (use that in \<open>auto simp: tame_def receiving_def\<close>)
  then show ?thesis
    using assms by (auto simp: check_if_idle_def split: option.split)
qed

section \<open>Writing responses\<close>

lemma date_header_now_effect: "outcome_all c (inert w) (\<lambda>_. False) (date_header_now X w)"
  by (rule date_header_now_cases [of X w]) (simp_all add: inert_hdate)

lemma fill_defaults_effect: "outcome_all c (inert w) (\<lambda>_. False) (fill_defaults X s w)"
proof -
  define w1 where "w1 = upd_res s (\<lambda>p. if s_code p = 0 then p\<lparr>s_code := 200\<rparr> else p) w"
  have 1: "inert w w1"
    unfolding w1_def by (rule inert_upd_res) simp_all
  have 2: "inert w (upd_res s (\<lambda>p. p\<lparr>s_date := Some d\<rparr>) w')" if "inert w1 w'" for w' d
    by (rule inert_trans [OF 1], rule inert_trans [OF that]) (rule inert_upd_res; simp)
  have 3: "outcome_all c (inert w1) (\<lambda>_. False) (date_header_now X w1)"
    by (rule date_header_now_effect)
  show ?thesis
    unfolding fill_defaults_def
    by (intro post_run_pure, fold w1_def)
      (intro post_run_Cons [where P = "inert w"] post_when post_run_Nil 1
        post_run_Cons [where P = "inert w1"] 3, simp_all add: 2)
qed

lemma finish_with_good:
  assumes good: "good K w"
    and nxt: "\<And>w'. pend K i w' \<Longrightarrow>
      length (requests (conn w' i)) < length (requests (conn w i)) \<Longrightarrow>
      outcome_all c (good K) (good K) (next w')"
  shows "outcome_all c (good K) (good K) (finish_with cb i next w)"
proof (cases "\<exists>r rs s. requests (conn w i) = r # rs \<and> r_resp (req w r) = Some s \<and>
    s_completed (res w s)")
  case False
  then show ?thesis
    by (auto simp: finish_with_def split: list.split option.split)
next
  case True
  then obtain r rs s where rs: "requests (conn w i) = r # rs" "r_resp (req w r) = Some s"
    "s_completed (res w s)" by blast
  show ?thesis
  proof (cases "r_done (req w r)")
    case False
    have "good K (upd_req r (\<lambda>q. q\<lparr>r_fin := True\<rparr>) w)"
      by (rule good_upd_req [OF good]) simp_all
    with False rs show ?thesis by (simp add: finish_with_def)
  next
    case True
    have after: "outcome_all c (good K) (good K)
        (if closing (conn w' i) \<or> stopping (conn w' i) then
           (if requests (conn w' i) \<noteq> [] then Crash AssertFailed else shutdown cb i NoError w')
         else (case requests (conn w' i) of
                 [] \<Rightarrow> check_if_idle i w'
               | r' # _ \<Rightarrow> if r_resp (req w' r') \<noteq> None then next w' else Done w'))"
      if inert: "inert (popped i w) w'" for w'
    proof (cases "closing (conn w' i) \<or> stopping (conn w' i)")
      case True
      have "good_except K i w'"
        using good_except_popped [OF good_except_good [OF good] rs(1) \<open>r_done (req w r)\<close>] inert
        by (rule good_except_inert)
      with True show ?thesis by (simp add: shutdown_good)
    next
      case False
      then have "\<not> closing (conn w i)"
        using inert by (simp add: inert_same popped_def)
      note popped = good_popped [OF good rs(1) True rs(2,3) this]
      have same: "conn w' = conn (popped i w)" "front_answered w' i = front_answered (popped i w) i"
        using inert by (simp_all add: inert_same inert_req front_answered_def)
      have "length (requests (conn w' i)) < length (requests (conn w i))"
        using same(1) rs(1) by (simp add: popped_def)
      with popped same(2) False show ?thesis
        using inert nxt [of w'] good_inert [of K "popped i w" w'] pend_inert [of K i "popped i w" w']
          check_if_idle_good [of K w' i]
        by (auto simp: front_answered_def split: if_splits list.split)
    qed
    have "outcome_all c (inert (popped i w)) (good K) (cleanup_request cb i w)"
      by (rule post_mono [OF cleanup_effect]) (use rs in auto)
    then show ?thesis
      using rs True
      by (simp add: finish_with_def del: run.simps)
        (intro post_run_Cons [where P = "inert (popped i w)"]
          post_run_Cons [where P = "good K"] post_run_Nil after, assumption+)
  qed
qed

lemma write_head_good:
  assumes pend: "pend K i w" and rs: "requests (conn w i) = r # rs" and s: "r_resp (req w r) = Some s"
    and ends: "ends = ends_connection w r s"
  shows "outcome_all c (head_written K i s (Suc (length rs))) (good K)
    (when_step (\<lambda>_. ends) (stop_accepting cb i r) (write_head X i r s w))"
proof (cases ends)
  case False
  then show ?thesis
    using good_write_head [OF pend rs s] ends rs s
    by (simp add: head_written_def write_head_def front_msg_def)
next
  case True
  have rsh: "requests (conn (write_head X i r s w) i) = r # rs"
    using rs by (simp add: write_head_def)
  have good: "good K (cut_pipeline i r (write_head X i r s w))"
    using good_cut_pipeline [OF pend rs s] True ends by simp
  have "head_written K i s (Suc (length rs)) w2" if cut: "inert (cut_pipeline i r (write_head X i r s w)) w2" for w2
  proof -
    have "good K w2" using good cut by (rule good_inert)
    moreover have "requests (conn w2 i) = [r]" "r_resp (req w2 r) = Some s"
      using cut s by (simp_all add: inert_same inert_req cut_pipeline_simps [OF rsh])
        (simp add: write_head_def)
    ultimately show ?thesis by (simp add: head_written_def front_msg_def)
  qed
  then have "outcome_all c (head_written K i s (Suc (length rs))) (good K)
      (stop_accepting cb i r (write_head X i r s w))"
    by (intro post_mono [OF stop_accepting_effect [OF rsh]]) auto
  with True show ?thesis by simp
qed

lemma write_with_good:
  assumes pend: "pend K i w"
    and finish: "\<And>w'. good K w' \<Longrightarrow>
      length (requests (conn w' i)) \<le> length (requests (conn w i)) \<Longrightarrow>
      outcome_all c (good K) (good K) (finish w')"
  shows "outcome_all c (good K) (good K) (write_with X cb i finish w)"
proof -
  obtain r rs where rs: "requests (conn w i) = r # rs"
    using pend_requests [OF pend] by (cases "requests (conn w i)") auto
  obtain s where s: "r_resp (req w r) = Some s"
    using pend rs by (auto simp: pend_def front_answered_def)
  have main: "outcome_all c (good K) (good K)
      (run [pure_step (write_head X i r s), when_step (\<lambda>_. ends) (stop_accepting cb i r),
            \<lambda>w. if \<not> s_completed (res w s) then Done (write_chunks X i s tmp w) else finish w] w')"
    if inert: "inert w w'" and ends: "ends = ends_connection w' r s" for w' tmp ends
  proof -
    have pend': "pend K i w'" using pend inert by (rule pend_inert)
    have rs': "requests (conn w' i) = r # rs" and s': "r_resp (req w' r) = Some s"
      using inert rs s by (simp_all add: inert_same inert_req)
    have last: "outcome_all c (good K) (good K)
        (if \<not> s_completed (res w s) then Done (write_chunks X i s tmp w) else finish w)"
      if "head_written K i s (Suc (length rs)) w" for w
      using that good_write_chunks [of K w i s _ tmp] finish [of w] rs by (simp add: head_written_def)
    show ?thesis
      by (intro post_run_pure post_run_Cons [where P = "head_written K i s (Suc (length rs))"]
          write_head_good [OF pend' rs' s' ends] post_run_Cons [where P = "good K"] post_run_Nil last)
  qed
  show ?thesis
  proof (cases "fill_defaults X s w")
    case (Done w1)
    have inert: "inert w w1"
      using fill_defaults_effect [of w X s] Done by simp
    define w2 where "w2 = (if takes_chunks (res w1 s) then upd_res s (\<lambda>p. p\<lparr>s_body := []\<rparr>) w1 else w1)"
    have inert2: "inert w w2"
      using inert inert_trans [OF inert inert_upd_res] by (simp add: w2_def)
    show ?thesis
      using Done rs s
      by (simp add: write_with_def Let_def del: run.simps flip: w2_def)
        (intro conjI impI main [OF inert2 refl])
  next
    case (Throw e w1)
    then show ?thesis using fill_defaults_effect [of w X s] by simp
  next
    case (Crash x)
    then show ?thesis
      using fill_defaults_effect [of w X s] rs s by (simp add: write_with_def)
  qed
qed

lemma write_next_response_good:
  "pend K i w \<Longrightarrow> length (requests (conn w i)) \<le> n \<Longrightarrow>
     outcome_all c (good K) (good K) (write_next_response X cb i n w)"
proof (induction n arbitrary: w)
  case 0
  then show ?case using pend_requests by simp
next
  case (Suc n)
  have fin: "outcome_all c (good K) (good K) (finish_with cb i (write_next_response X cb i n) w')"
    if "good K w'" "length (requests (conn w' i)) \<le> length (requests (conn w i))" for w'
    by (rule finish_with_good [OF that(1)], rule Suc.IH) (use that(2) Suc.prems(2) in simp_all)
  show ?case
    unfolding write_next_response.simps by (rule write_with_good [OF Suc.prems(1)]) (rule fin)
qed

lemma finish_request_good:
  assumes "good K w"
  shows "outcome_all c (good K) (good K) (finish_request X cb i w)"
  unfolding finish_request_def
  by (rule finish_with_good [OF assms], rule write_next_response_good) simp_all

section \<open>Responding\<close>

lemma mark_completed_eq: "mark_completed s = upd_res s (\<lambda>p. p\<lparr>s_completed :=
    (\<not> s_chunked p \<or> body_length p > 0) \<or> s_completed p\<rparr>)"
  by (auto simp: mark_completed_def upd_res_def fun_eq_iff)

text \<open>The state of \<^verbatim>\<open>respond\<close> once the response is linked: due if the request is the first.\<close>

lemma respond_rest:
  assumes P: "P = (\<lambda>w. (if front w i = Some r then pend K i w else good K w) \<and>
      r_resp (req w r) = Some s \<and> requests (conn w i) = qs \<and> r \<in> set qs)"
    and w: "P w"
  shows "outcome_all c (good K) (good K)
    (run [pure_step (upd_conn i (\<lambda>c. c\<lparr>requests_processed := requests_processed c + 1\<rparr>)),
          when_step (keepalive_limit_hit i) (graceful_stop cb i),
          pure_step (\<lambda>w. if stopping (conn w i) then upd_res s (\<lambda>p. p\<lparr>s_keep := False\<rparr>) w else w),
          pure_step (mark_completed s),
          \<lambda>w. case requests (conn w i) of
               [] \<Rightarrow> Crash FrontOfEmpty
             | f # _ \<Rightarrow> if f = r
                 then write_next_response X cb i (length (requests (conn w i))) w
                 else Done w] w)"
proof -
  have base: "base_inv K w" if "P w" for w
    using that by (auto simp: P pend_def good_def split: if_splits)
  have upd: "P (upd_res s f w)" if "P w" "\<And>p. s_req (f p) = s_req p" for w f
  proof -
    have link: "s_req (res w s) = Some r"
      using that(1) base_resp [OF base [OF that(1)], of r s] by (simp add: P)
    have conn: "r_conn (req w r) = Some i"
      using that(1) base_links [OF base [OF that(1)], of r i] by (auto simp: P)
    show ?thesis
    proof (cases "front w i = Some r")
      case True
      then show ?thesis
        using that pend_upd_res [of K i w f s r] link by (simp add: P front_upd)
    next
      case False
      then have "front w j \<noteq> Some r" for j
        using front_conn [OF base [OF that(1)], of j r] conn by auto
      then show ?thesis
        using that good_upd_res [of K w f s r] link by (simp add: P front_upd)
    qed
  qed
  have "P (upd_conn i (\<lambda>c. c\<lparr>requests_processed := requests_processed c + 1\<rparr>) w)"
    using w pend_processed [of K i w "\<lambda>c. requests_processed c + 1"]
      good_processed [of K w i "\<lambda>c. requests_processed c + 1"]
    by (simp add: P front_def)
  moreover have "outcome_all c P (good K) (when_step (keepalive_limit_hit i) (graceful_stop cb i) w)"
    if "P w" for w
  proof (rule post_when)
    assume "keepalive_limit_hit i w"
    then have "graceful_stop cb i w = Done (upd_conn i (\<lambda>c. c\<lparr>stopping := True\<rparr>) w)"
      by (auto simp: keepalive_limit_hit_def graceful_stop_def)
    with that show "outcome_all c P (good K) (graceful_stop cb i w)"
      using pend_stopping [of K i w] good_stopping [of K w i] by (simp add: P front_def)
  qed (use that in simp)
  moreover have "P (if stopping (conn w i) then upd_res s (\<lambda>p. p\<lparr>s_keep := False\<rparr>) w else w)"
    if "P w" for w
    using that upd [OF that] by simp
  moreover have "P (mark_completed s w)" if "P w" for w
    using upd [OF that] by (simp add: mark_completed_eq)
  moreover have "outcome_all c (good K) (good K)
      (case requests (conn w i) of
         [] \<Rightarrow> Crash FrontOfEmpty
       | f # _ \<Rightarrow> if f = r then write_next_response X cb i (length (requests (conn w i))) w
           else Done w)" if "P w" for w
    using that write_next_response_good [of K i w]
    by (auto simp: P front_def split: list.split if_splits)
  ultimately show ?thesis
    by (intro post_run_pure post_run_Cons [where P = P]
        post_run_Cons [where P = "good K"] post_run_Nil; simp)
qed

lemma respond_good:
  assumes good: "good K w" and s: "s_req (res w s) = None" "s < next_sid w"
  shows "outcome_all c (good K) (good K) (respond X cb i r s w)"
proof (cases "r_conn (req w r) = Some i \<and> r_resp (req w r) = None")
  case False
  then show ?thesis using good by (auto simp: respond_def)
next
  case True
  define P where "P = (\<lambda>w'. (if front w' i = Some r then pend K i w' else good K w') \<and>
      r_resp (req w' r) = Some s \<and> requests (conn w' i) = requests (conn w i) \<and>
      r \<in> set (requests (conn w i)))"
  have base: "base_inv K w" using good by (simp add: good_def)
  have r: "r \<in> set (requests (conn w i))"
    using True base_links [OF base] by simp
  have "P (link_response r s w)"
    using True r pend_link [OF good _ s] good_link [OF good _ s r]
    by (simp add: P_def front_def)
  from respond_rest [OF P_def this] True show ?thesis
    by (simp add: respond_def)
qed

end

end
