(* ===== verification/ServerHandlers.thy ===== *)
theory ServerHandlers
  imports ServerSafe
begin

text \<open>
  The operations that user code calls on requests and responses, the events of the stream, and the
  operations of the server, under the interface \<open>callback_contract\<close>: all keep the invariant.
\<close>

lemma good_new_response: "good K w \<Longrightarrow> s_req p = None \<Longrightarrow> good K (new_response p w)"
  by (rule good_inert [OF _ inert_new_response])

lemma new_response_simps [simp]:
  "res (new_response p w) s = (if s = next_sid w then p else res w s)"
  "next_sid (new_response p w) = Suc (next_sid w)" "req (new_response p w) = req w"
  "conn (new_response p w) = conn w"
  by (simp_all add: new_response_def)

lemma good_send_continue:
  assumes good: "good K w"
  shows "outcome_all {AssertFailed} (good K) (good K) (send_continue X i r w)"
proof -
  have "good K (stream_write X i (Continue100 r) w)"
    if rs: "requests (conn w i) = r # rs" "r_resp (req w r) = None" for rs
  proof (rule good_write)
    show "good_except K i w" using good by (rule good_except_good)
    assume op: "st_open (stream (conn w i))"
    define ws where "ws = the (wire_state (st_out (stream (conn w i))))"
    have st: "settled w i ws"
      using good op by (simp add: good_def wire_conn_def ws_def)
    then have "wnext ws (Continue100 r) = Some ws"
      using rs
      by (cases ws) (simp add: settled_def front_msg_def front_bound_def front_answered_def)
    with st show "\<exists>ws'. wnext (the (wire_state (st_out (stream (conn w i))))) (Continue100 r) =
        Some ws' \<and> settled w i ws'"
      by (auto simp flip: ws_def)
  qed
  then show ?thesis
    using good by (auto simp: send_continue_def split: list.split)
qed

lemma good_send_chunk:
  assumes good: "good K w" and r: "s_req (res w s) = Some r" and "\<not> s_completed (res w s)"
  shows "outcome_all {AssertFailed} (good K) (good K) (send_chunk X i s chunk w)"
proof (cases "requests (conn w i)")
  case Nil
  then show ?thesis by (simp add: send_chunk_def)
next
  case (Cons f rs)
  have "good K (write_chunks X i s [chunk] w)" if "r_resp (req w f) = Some s"
    using that Cons assms(3) by (intro good_write_chunks [OF good]) (simp add: front_msg_def)
  moreover have "good K (upd_res s (\<lambda>p. p\<lparr>s_body := s_body p @ [chunk]\<rparr>) w)"
    by (rule good_inert [OF good inert_upd_res]) simp_all
  ultimately show ?thesis
    using Cons good by (simp add: send_chunk_def)
qed

text \<open>The invariant when \<open>l\<close> connections have been accepted, between events.\<close>

definition inv_ok :: "cid \<Rightarrow> world \<Rightarrow> bool" where
  "inv_ok i w \<longleftrightarrow> good (parse_view w) w \<and> lastid w = i"

lemma good_inv_ok: "good K w \<Longrightarrow> snd (snd (snd K)) = l \<Longrightarrow> inv_ok l w"
  using good_view [of K w] by (auto simp: inv_ok_def parse_view_def)

lemma good_cur:
  assumes "good (parse_view w) w'"
  shows "cur (conn w' i) = cur (conn w i)" "r_done (req w' r) = r_done (req w r)"
  using good_view [OF assms] by (simp_all add: parse_view_def fun_eq_iff)

context callback_contract
begin

section \<open>Calls of the user\<close>

lemma ServerRequest_respond_good:
  "good K w \<Longrightarrow> s_req (res w s) = None \<Longrightarrow> s < next_sid w \<Longrightarrow>
     outcome_all c (good K) (good K) (ServerRequest_respond X cb r s w)"
  by (simp add: ServerRequest_respond_def respond_good split: option.split)

lemma ServerRequest_redirect_good:
  assumes "good K w"
  shows "outcome_all c (good K) (good K) (ServerRequest_redirect X cb dflt r uri w)"
  unfolding ServerRequest_redirect_def
  by (rule ServerRequest_respond_good)
    (use assms in \<open>simp_all add: good_new_response redirect_response_def\<close>)

lemma ServerRequest_send_continue_good:
  assumes "good K w"
  shows "outcome_all c (good K) (good K) (ServerRequest_send_continue X r w)"
proof -
  have "outcome_all c (good K) (good K) (send_continue X i r w)" for i
    by (rule post_mono [OF good_send_continue [OF assms]]) simp_all
  then show ?thesis
    using assms by (simp add: ServerRequest_send_continue_def split: option.split)
qed

lemma ServerRequest_enable_partial_good:
  "good K w \<Longrightarrow> good K (ServerRequest_enable_partial r w)"
  unfolding ServerRequest_enable_partial_def by (erule good_inert) (rule inert_enable_partial)

lemma ServerRequest_drop_good:
  "good K w \<Longrightarrow> outcome_all c (good K) (good K) (ServerRequest_drop cb r w)"
  by (simp add: ServerRequest_drop_def close_good good_except_good split: option.split)

lemma send_final_chunk_good:
  assumes good: "good K w" and s: "s_req (res w s) = Some r" "r_conn (req w r) = Some i"
    "\<not> s_completed (res w s)"
  shows "outcome_all c (good K) (good K) (send_final_chunk X cb i s chunk w)"
proof (cases "requests (conn w i)")
  case Nil
  then show ?thesis by (simp add: send_final_chunk_def)
next
  case (Cons f rs)
  have base: "base_inv K w" using good by (simp add: good_def)
  have resp: "r_resp (req w r) = Some s" using s(1) base_resp [OF base] by simp
  have final: "good K (stream_write X i (Final s chunk) (complete s w))" if "r_resp (req w f) = Some s"
    by (rule good_final [OF good _ that s(3)]) (simp add: front_def Cons)
  have other: "good K (complete s w)" if "r_resp (req w f) \<noteq> Some s"
  proof -
    have "front w j \<noteq> Some r" for j
      using front_conn [OF base, of j r] s(2) resp that Cons by (auto simp: front_def)
    then show ?thesis
      unfolding complete_def by (intro good_upd_res [OF good _ s(1)]) simp_all
  qed
  have "outcome_all c (good K) (good K)
      (if r_resp (req (complete s w) f) \<noteq> Some s then Done (complete s w)
       else finish_request X cb i (stream_write X i (Final s chunk) (complete s w)))"
    using final other finish_request_good by (simp add: complete_def)
  then show ?thesis
    using Cons
    by (simp add: send_final_chunk_def post_run_single flip: complete_def del: run.simps(2))
      (intro post_run_pure, simp add: post_run_single del: run.simps(2))
qed

lemma ServerResponse_send_chunk_good:
  assumes "good K w"
  shows "outcome_all c (good K) (good K) (ServerResponse_send_chunk X s chunk w)"
proof -
  have "outcome_all c (good K) (good K) (send_chunk X i s chunk w)"
    if "s_req (res w s) = Some r" "\<not> s_completed (res w s)" for i r
    by (rule post_mono [OF good_send_chunk [OF assms that]]) simp_all
  then show ?thesis
    using assms by (simp add: ServerResponse_send_chunk_def split: option.split)
qed

lemma ServerResponse_send_final_chunk_good:
  "good K w \<Longrightarrow> outcome_all c (good K) (good K) (ServerResponse_send_final_chunk X cb s chunk w)"
  by (simp add: ServerResponse_send_final_chunk_def send_final_chunk_good split: option.split)

text \<open>Upgrading a request that has not been answered.\<close>

lemma good_except_upgrade:
  assumes good: "good K w" and rs: "requests (conn w i) = [r]" and "r_resp (req w r) = None"
    and listener: "\<not> st_listener (stream (conn w i))"
  shows "good K (popped i w)"
proof -
  have "good_except K i (set_requests i [] (detach {r} w))"
    by (rule good_except_requests [OF good_except_good [OF good]])
      (use rs listener in \<open>simp_all add: receiving_def\<close>)
  then have ex: "good_except K i (popped i w)"
    using rs by (simp add: popped_def)
  have base: "base_inv K w" using good by (simp add: good_def)
  have "wire_conn settled w i" "r < next_rid w"
    using good base_lt [OF base, of r i] rs by (simp_all add: good_def)
  then have "wire_conn settled (popped i w) i"
    using rs assms(3)
    by (auto simp: wire_conn_def settled_def popped_def front_msg_def front_bound_def
        front_answered_def)
  with ex show ?thesis by (simp add: good_iff_except [of K _ i])
qed

lemma upgrade_good:
  assumes good: "good K w" and resp: "r_resp (req w r) = None"
  shows "outcome_all c (good K) (good K) (upgrade cb i r w)"
proof (cases "requests (conn w i) = [r]")
  case False
  then have "length (requests (conn w i)) \<noteq> 1 \<or> hd (requests (conn w i)) \<noteq> r"
    by (cases "requests (conn w i)") auto
  then show ?thesis using good by (auto simp: upgrade_def)
next
  case True
  define w1 where "w1 = set_timer i None (stream_unlisten i w)"
  have "good K w1"
    unfolding w1_def
    by (rule good_tame [OF good_stream_unlisten [OF good]]) (auto simp: tame_def receiving_def)
  moreover have w1: "requests (conn w1 i) = [r]" "r_resp (req w1 r) = None"
    "\<not> st_listener (stream (conn w1 i))"
    using True resp by (simp_all add: w1_def stream_unlisten_def upd_stream_def)
  ultimately have popped: "good K (popped i w1)"
    by (rule good_except_upgrade)
  have cleanup: "outcome_all c (good K) (good K) (cleanup_request cb i w1)"
    by (rule post_mono [OF cleanup_effect]) (use w1 in \<open>auto intro: good_inert [OF popped]\<close>)
  have "outcome_all c (good K) (good K) (run [cleanup_request cb i, server_remove cb i] w1)"
    by (intro post_run_Cons [where P = "good K"] cleanup server_remove_good post_run_Nil)
  with True show ?thesis
    by (simp add: upgrade_def w1_def)
qed

section \<open>Events of the stream\<close>

lemma request_error_good:
  assumes "good K w"
  shows "outcome_all c (good K) (good K) (request_error X cb i r err w)"
proof -
  have last: "outcome_all c (good K) (good K)
      (case r_resp (req w r) of
         None \<Rightarrow> run [default_error_response X 400, respond X cb i r (next_sid w)] w
       | Some s \<Rightarrow> Done (if s_keep (res w s) then upd_res s (\<lambda>p. p\<lparr>s_keep := False\<rparr>) w else w))"
    if good: "good K w" for w
  proof (cases "r_resp (req w r)")
    case (Some s)
    have "good K (upd_res s (\<lambda>p. p\<lparr>s_keep := False\<rparr>) w)"
      by (rule good_inert [OF good inert_upd_res]) simp_all
    with Some good show ?thesis by simp
  next
    case None
    define P where "P = (\<lambda>w'. good K w' \<and> s_req (res w' (next_sid w)) = None \<and> next_sid w < next_sid w')"
    have date: "outcome_all c (\<lambda>w'. good K w' \<and> next_sid w' = next_sid w) (good K)
        (date_header_now X w)"
      by (rule date_header_now_cases [of X w])
        (use good good_inert [OF good inert_hdate] in simp_all)
    have "outcome_all c P (good K) (default_error_response X 400 w)"
      unfolding default_error_response_def
      by (rule post_run_Cons, rule date) (auto simp: P_def good_new_response)
    moreover have "outcome_all c (good K) (good K) (respond X cb i r (next_sid w) w')"
      if "P w'" for w'
      using that by (intro respond_good) (simp_all add: P_def)
    ultimately have "outcome_all c (good K) (good K)
        (run [default_error_response X 400, respond X cb i r (next_sid w)] w)"
      by (intro post_run_Cons [where P = P] post_run_Cons [where P = "good K"] post_run_Nil) simp_all
    with None show ?thesis by (simp only: option.case)
  qed
  have fire: "outcome_all c (good K) (good K)
      (if r_partial (req w r) then fire cb (PartialEvent r err) w else fire cb (ErrorEvent r err) w)"
    if "good K w" for w
    using that by (simp add: fire_good)
  show ?thesis
    unfolding request_error_def
    by (intro post_run_pure post_run_Cons [where P = "good K"] post_run_Nil fire last
        good_read_ignore assms)
qed

lemma route_good:
  assumes good: "good K w" and r: "r_conn (req w r) \<noteq> None"
  shows "outcome_all c (good K) (good K) (route cb r w)"
proof -
  have "good K (upd_req r (\<lambda>q. q\<lparr>r_routed := True, r_server := True\<rparr>) w)"
    by (rule good_upd_req [OF good]) (use r in simp_all)
  then show ?thesis
    using good by (simp add: route_def when_step_def fire_good)
qed

lemma deliver_good:
  assumes "good K w"
  shows "outcome_all c (good K) (good K) (deliver cb r st w)"
proof -
  have "outcome_all c (good K) (good K) (run [fire cb (ReceiveEvent r), fire cb (RequestEvent r)] w)"
    by (intro post_run_Cons [where P = "good K"] fire_good post_run_Nil assms)
  with assms show ?thesis
    by (simp add: deliver_def fire_good del: run.simps)
qed

text \<open>
  The loop of \<^verbatim>\<open>on_read\<close> under the law of the parser. Every round but the first starts with the
  last request complete.
\<close>

text \<open>One result of the parser, with whatever is done with the rest of them.\<close>

lemma parsed_good:
  assumes good1: "good K w1" and conn: "r_conn (req w1 r) \<noteq> None" and K: "snd (snd (snd K)) = l"
    and rest: "\<And>w2. good K w2 \<Longrightarrow> outcome_all c (inv_ok l) (inv_ok l) (rest w2)"
  shows "outcome_all c (inv_ok l) (inv_ok l)
    (run [route cb r, deliver cb r st,
          \<lambda>w. if st = StDone then
             (if r_fin (req w r) then run [finish_request X cb i, rest] w
              else if closing (conn w i) \<or> \<not> r_keep (req w r) then Done (read_ignore i w)
              else rest w)
           else rest w] w1)"
proof -
  have keeps: "outcome_all c (good K) (inv_ok l) out" if "outcome_all c (good K) (good K) out" for out
    by (rule post_mono [OF that]) (auto intro: good_inv_ok K)
  have fin: "outcome_all c (inv_ok l) (inv_ok l) (run [finish_request X cb i, rest] w2)" if w2: "good K w2" for w2
    by (rule post_run_Cons, rule keeps [OF finish_request_good [OF w2]], unfold post_run_single) (rule rest)
  show ?thesis
  proof (rule post_run_Cons, rule keeps [OF route_good [OF good1 conn]], rule post_run_Cons,
      rule keeps [OF deliver_good], assumption, unfold post_run_single)
    fix w2 assume w2: "good K w2"
    then show "outcome_all c (inv_ok l) (inv_ok l)
        (if st = StDone then
           (if r_fin (req w2 r) then run [finish_request X cb i, rest] w2
            else if closing (conn w2 i) \<or> \<not> r_keep (req w2 r) then Done (read_ignore i w2)
            else rest w2)
         else rest w2)"
      using rest [OF w2] fin [OF w2] good_inv_ok [OF good_read_ignore [OF w2] K] by (simp del: run.simps)
  qed
qed

lemma read_loop_good:
  assumes "inv_ok l w" and "i \<le> l" and "parser_law w i ps" and "receiving (conn w i) \<or> (\<forall>p\<in>set ps. pr_new p)"
  shows "outcome_all c (inv_ok l) (inv_ok l) (read_loop X cb i ps w)"
  using assms
proof (induction ps arbitrary: w)
  case Nil
  then show ?case by simp
next
  case (Cons p ps)
  obtain r w1 where rec: "receive_result i p w = (r, w1)" by fastforce
  have good: "good (parse_view w) w" and l: "lastid w = l"
    using Cons.prems(1) by (simp_all add: inv_ok_def)
  have "fresh_result w i p" using Cons.prems(3) by (simp add: parser_law_def)
  moreover have "\<not> pr_new p \<Longrightarrow> receiving (conn w i)" using Cons.prems(4) by auto
  ultimately have r: "good (parse_view w1) w1" "cur (conn w1 i) = Some r"
    "r \<in> set (requests (conn w1 i))"
    "r_done (req w1 r) = (state_rank StDone \<le> state_rank (pr_state p))" "lastid w1 = l"
    using good_receive [OF good _ _ _ rec] Cons.prems(2) l by auto
  define K where "K = parse_view w1"
  have K: "snd (snd (snd K)) = l" using r(5) by (simp add: K_def parse_view_def)
  have good1: "good K w1" using r(1) by (simp add: K_def)
  have inv: "outcome_all c (inv_ok l) (inv_ok l) out" if "outcome_all c (good K) (good K) out" for out
    by (rule post_mono [OF that]) (auto intro: good_inv_ok K)
  have conn: "r_conn (req w1 r) \<noteq> None"
    using r(3) base_links [of K w1 r i] good1 by (simp add: good_def)
  have rest: "outcome_all c (inv_ok l) (inv_ok l) (read_loop X cb i ps w2)"
    if w2: "good K w2" for w2
  proof (cases ps)
    case Nil
    then show ?thesis using w2 K good_inv_ok by simp
  next
    case (Cons p' ps')
    with Cons.prems(3) have new: "\<forall>p'\<in>set ps. pr_new p'" "pr_state p = StDone"
      "\<forall>p'\<in>set (butlast ps). pr_state p' = StDone \<and> pr_error p' = NoError"
      by (auto simp: parser_law_def)
    have "cur (conn w2 i) = Some r" "r_done (req w2 r)"
      using good_cur [of w1 w2] w2 r(2,4) new(2) by (simp_all add: K_def)
    then have "parser_law w2 i ps"
      using new Cons by (auto simp: parser_law_def fresh_result_def)
    then show ?thesis
      using Cons.IH [of w2] Cons.prems(2) new(1) w2 K good_inv_ok by blast
  qed
  have up: "outcome_all c (inv_ok l) (inv_ok l)
      (run [request_error X cb i r (HttpErrc upgrade_in_pipeline), pure_step (read_ignore i)] w1)"
    by (rule inv)
      (intro post_run_Cons [where P = "good K"] post_run_pure post_run_Nil request_error_good
        good_read_ignore good1)
  show ?case
    using parsed_good [OF good1 conn K rest] up inv [OF request_error_good [OF good1]] good_inv_ok [OF good1 K]
    by (simp add: rec del: run.simps)
qed

lemma inv_ok_good:
  assumes "inv_ok l w" and "\<And>K. good K w \<Longrightarrow> outcome_all c (good K) (good K) out"
  shows "outcome_all c (inv_ok l) (inv_ok l) out"
proof -
  have 1: "outcome_all c (good (parse_view w)) (good (parse_view w)) out"
    using assms by (simp add: inv_ok_def)
  have 2: "inv_ok l w'" if "good (parse_view w) w'" for w'
    by (rule good_inv_ok [OF that]) (use assms(1) in \<open>simp add: inv_ok_def parse_view_def\<close>)
  show ?thesis by (rule post_mono [OF 1 2 2 subset_refl])
qed

lemma on_read_good:
  assumes inv: "inv_ok l w" and i: "i \<le> l" and "receiving (conn w i)" and "parser_law w i ps"
  shows "outcome_all c (inv_ok l) (inv_ok l) (on_read X cb i ps err w)"
proof (cases "err = NoError")
  case True
  then show ?thesis
    using read_loop_good [OF inv i assms(4)] assms(3) by (simp add: on_read_def)
next
  case False
  have good: "good (parse_view w) w" "lastid w = l" using inv by (simp_all add: inv_ok_def)
  have "lastid (fail_request i w) = l"
    using good(2) by (auto simp: fail_request_def Let_def new_request_def)
  then have "inv_ok l (fail_request i w)"
    using good_fail_request [OF good(1)] i good(2) by (simp add: inv_ok_def)
  then have "outcome_all c (inv_ok l) (inv_ok l)
      (request_error X cb i (last (requests (conn (fail_request i w) i))) err (fail_request i w))"
    by (rule inv_ok_good) (rule request_error_good)
  with False show ?thesis by (simp add: on_read_def on_read_error_eq)
qed

lemma on_write_good:
  assumes "good K w"
  shows "outcome_all c (good K) (good K) (on_write cb i err wq w)"
proof -
  have "good K (upd_stream i (\<lambda>st. st\<lparr>st_wqueue := wq\<rparr>) w)"
    unfolding upd_stream_def
    by (rule good_tame [OF assms]) (auto simp: tame_def receiving_def)
  then show ?thesis
    by (simp add: on_write_def Let_def close_good good_except_good check_if_idle_good)
qed

lemma on_connection_good:
  "good K w \<Longrightarrow> outcome_all c (good K) (good K) (on_connection cb i err w)"
  by (simp add: on_connection_def close_good good_except_good)

lemma on_shutdown_good:
  assumes "good K w"
  shows "outcome_all c (good K) (good K) (on_shutdown cb i err w)"
  unfolding on_shutdown_def
  by (intro post_run_pure post_run_Cons [where P = "good K"] server_remove_good post_run_Nil)
    (use assms in \<open>simp_all add: good_stop_timer good_stream_unlisten\<close>)

lemma on_eof_good: "good K w \<Longrightarrow> outcome_all c (good K) (good K) (on_eof cb i w)"
  by (simp add: on_eof_def shutdown_good good_except_good)

lemma on_idle_timer_good:
  assumes "good K w"
  shows "outcome_all c (good K) (good K) (on_idle_timer cb i w)"
  using assms
  by (auto simp: on_idle_timer_def Let_def close_good good_except_good good_stop_timer)

section \<open>The server\<close>

lemma good_stop_listening [simp]: "good K (stop_listening w) = good K w"
  by (rule good_same) (simp_all add: stop_listening_def)

lemma listen_loop_good:
  "good K w \<Longrightarrow> outcome_all c (good K) (good K) (listen_loop X n locs w)"
proof (induction X n locs w rule: listen_loop.induct)
  case (1 X n w)
  then show ?case by simp
next
  case (2 X n loc locs w)
  have "good K (w\<lparr>unlinked := u, srv_conf := cf\<rparr>)" "good K (w\<lparr>unlinked := u, srv_conf := cf, listeners := ls\<rparr>)"
    for u cf ls
    by (rule good_same [THEN iffD2, OF _ _ _ _ _ _ 2(2)]; simp)+
  with 2(1) show ?case
    by (auto simp: Let_def split: option.split)
qed

lemma start_listening_good:
  "good K w \<Longrightarrow> outcome_all c (good K) (good K) (start_listening X w)"
  by (simp add: start_listening_def listen_loop_good)

lemma configure_good:
  assumes "good K w"
  shows "outcome_all c (good K) (good K) (configure X conf w)"
proof (cases "check_config conf")
  case (Some e)
  then show ?thesis using assms by (simp add: configure_def)
next
  case None
  have conf: "good K (w\<lparr>srv_conf := cf\<rparr>) = good K w" for w cf by (rule good_same) simp_all
  have start: "outcome_all c (good K) (good K)
      (when_step (\<lambda>w. srv_state w = Running) (start_listening X) w)" if "good K w" for w
    using that by (intro post_when start_listening_good)
  show ?thesis
    using None
    by (simp only: configure_def option.case)
      (intro post_run_pure post_run_Cons [where P = "good K"] start post_run_Nil,
       simp_all add: conf assms)
qed

lemma server_run_good:
  assumes "good K w"
  shows "outcome_all c (good K) (good K) (server_run X cb w)"
proof -
  have "outcome_all c (good K) (good K)
      (run [pure_step (\<lambda>w. w\<lparr>srv_state := Running\<rparr>), start_listening X, fire cb RunEvent] w)"
    by (intro post_run_pure post_run_Cons [where P = "good K"] start_listening_good fire_good
        post_run_Nil) (simp_all add: assms)
  with assms show ?thesis by (simp add: server_run_def del: run.simps)
qed

lemma server_graceful_stop_good:
  assumes "good K w"
  shows "outcome_all c (good K) (good K) (server_graceful_stop cb w)"
proof -
  have "outcome_all c (good K) (good K) (run (map (graceful_stop cb) cs) w)" if "good K w" for w cs
    by (rule post_run_inv [where I = "good K"]) (auto intro: graceful_stop_good that)
  then have "outcome_all c (good K) (good K)
      (run [pure_step (\<lambda>w. stop_listening (w\<lparr>srv_state := Stopping\<rparr>)),
            \<lambda>w. run (map (graceful_stop cb) (sort (connections w))) w, stop_if_done cb] w)"
    by (intro post_run_pure post_run_Cons [where P = "good K"] stop_if_done_good post_run_Nil)
      (simp_all add: assms)
  with assms show ?thesis by (simp add: server_graceful_stop_def del: run.simps)
qed

text \<open>
  The loop over the connections of \<^verbatim>\<open>Server::stop\<close> runs once for each of them; that is enough unless
  a callback adds connections, which no operation a callback may call does.
\<close>

lemma close_all_good:
  assumes "LoopBound \<in> c"
  shows "good K w \<Longrightarrow> outcome_all c (good K) (good K) (close_all cb err n w)"
proof (induction n arbitrary: w)
  case 0
  then show ?case using assms by simp
next
  case (Suc n)
  have "outcome_all c (good K) (good K)
      (run [close cb (first_connection (connections w)) err, close_all cb err n] w)"
    by (intro post_run_Cons [where P = "good K"] close_good good_except_good Suc post_run_Nil)
  with Suc.prems show ?case by (simp del: run.simps)
qed

lemma server_stop_good:
  assumes "LoopBound \<in> c" and "good K w"
  shows "outcome_all c (good K) (good K) (server_stop cb w)"
proof -
  have "outcome_all c (good K) (good K)
      (run [pure_step stop_listening,
            \<lambda>w. close_all cb (HttpErrc server_stopping) (length (connections w)) w,
            pure_step (\<lambda>w. w\<lparr>srv_state := Initial\<rparr>), fire cb StopEvent] w)"
    by (intro post_run_pure post_run_Cons [where P = "good K"] close_all_good assms(1) fire_good
        post_run_Nil) (simp_all add: assms(2))
  with assms show ?thesis by (simp add: server_stop_def del: run.simps)
qed

lemma on_establish_good:
  assumes inv: "inv_ok l w" and l: "l \<noteq> - 1"
  shows "outcome_all c (\<lambda>w'. \<exists>l. inv_ok l w') (\<lambda>w'. \<exists>l. inv_ok l w') (on_establish X cb secure err w)"
proof (cases "err = NoError")
  case False
  then show ?thesis using inv by (auto simp: on_establish_def)
next
  case True
  define i where "i = lastid w + 1"
  define w1 where "w1 = upd_conn i (\<lambda>_. new_connection X (srv_conf w) secure)
      (w\<lparr>lastid := i, connections := i # filter (\<lambda>j. j \<noteq> i) (connections w)\<rparr>)"
  have "good (parse_view w1) w1"
    by (rule good_new_connection [OF _ i_def _ _ _ _ _ w1_def])
      (use inv l in \<open>auto simp: inv_ok_def new_connection_def new_stream_def\<close>)
  then have "inv_ok (lastid w1) w1" by (simp add: inv_ok_def)
  then have fire: "outcome_all c (inv_ok (lastid w1)) (inv_ok (lastid w1)) (fire cb (ConnectEvent i) w1)"
    by (rule inv_ok_good) (rule fire_good)
  have eq: "on_establish X cb secure err w = run [fire cb (ConnectEvent i)] w1"
    using True by (simp add: on_establish_def Let_def w1_def flip: i_def)
  show ?thesis
    unfolding eq post_run_single by (rule post_mono [OF fire]) auto
qed

end

end
