(* ===== verification/ServerUser.thy ===== *)
theory ServerUser
  imports ServerHandlers
begin

text \<open>
  The server as a whole: user code that calls the library from its callbacks and from outside of
  them, the events of the streams and timers, and the states the server can reach. The interfaces
  of the connection are interpreted here on the user code of the model.
\<close>

section \<open>User code\<close>

text \<open>The calls of the public interface.\<close>

datatype cmd =
    Respond rid sresponse
  | SendContinue rid
  | Redirect bool rid string
  | EnablePartial rid
  | DropRequest rid
  | Upgrade rid
  | SendChunk sid string
  | SendFinalChunk sid string
  | CloseConn cid error_code
  | ShutdownConn cid error_code
  | StopConn cid
  | RunServer
  | StopServer
  | StopServerGracefully
  | Configure config
  | UserThrow

text \<open>
  A new response has no request and is not completed; its identity is \<open>next_sid\<close>, so later commands
  can name it.
\<close>

definition unlinked_response :: "sresponse \<Rightarrow> sresponse" where
  "unlinked_response p = p\<lparr>s_req := None, s_completed := False\<rparr>"

fun exec_cmd :: "ext \<Rightarrow> callbacks \<Rightarrow> cmd \<Rightarrow> world call" where
  "exec_cmd X cb (Respond r p) w =
     ServerRequest_respond X cb r (next_sid w) (new_response (unlinked_response p) w)"
| "exec_cmd X cb (SendContinue r) w = ServerRequest_send_continue X r w"
| "exec_cmd X cb (Redirect dflt r uri) w = ServerRequest_redirect X cb dflt r uri w"
| "exec_cmd X cb (EnablePartial r) w = Done (ServerRequest_enable_partial r w)"
| "exec_cmd X cb (DropRequest r) w = ServerRequest_drop cb r w"
| "exec_cmd X cb (Upgrade r) w = map_outcome snd (ServerRequest_upgrade X cb r w)"
| "exec_cmd X cb (SendChunk s x) w = ServerResponse_send_chunk X s x w"
| "exec_cmd X cb (SendFinalChunk s x) w = ServerResponse_send_final_chunk X cb s x w"
| "exec_cmd X cb (CloseConn i err) w = close cb i err w"
| "exec_cmd X cb (ShutdownConn i err) w = shutdown cb i err w"
| "exec_cmd X cb (StopConn i) w = graceful_stop cb i w"
| "exec_cmd X cb RunServer w = server_run X cb w"
| "exec_cmd X cb StopServer w = server_stop cb w"
| "exec_cmd X cb StopServerGracefully w = server_graceful_stop cb w"
| "exec_cmd X cb (Configure conf) w = configure X conf w"
| "exec_cmd X cb UserThrow w = Throw UserException w"

text \<open>
  What the user code does on an event: a sequence of calls, each decided on the state in which it is
  made (or omitted). It is arbitrary but for two rules. A callback that is told about a request
  which has left its connection makes only calls that are without effect for such a request: it
  does not use the request's connection or the server, whose bookkeeping is not finished then. And
  a request is upgraded only before it is answered.
\<close>

type_synonym script = "(world \<Rightarrow> cmd option) list"

type_synonym user = "event \<Rightarrow> world \<Rightarrow> script"

fun quiet :: "world \<Rightarrow> cmd \<Rightarrow> bool" where
  "quiet w (Respond r p) = (r_conn (req w r) = None)"
| "quiet w (SendContinue r) = (r_conn (req w r) = None)"
| "quiet w (Redirect dflt r uri) = (r_conn (req w r) = None)"
| "quiet w (EnablePartial r) = True"
| "quiet w (DropRequest r) = (r_conn (req w r) = None)"
| "quiet w (Upgrade r) = (r_conn (req w r) = None)"
| "quiet w (SendChunk s x) = (\<not> s_completed (res w s) \<and>
     (case s_req (res w s) of None \<Rightarrow> True | Some r \<Rightarrow> r_conn (req w r) = None))"
| "quiet w (SendFinalChunk s x) = (\<not> s_completed (res w s) \<and>
     (case s_req (res w s) of None \<Rightarrow> True | Some r \<Rightarrow> r_conn (req w r) = None))"
| "quiet w _ = False"

fun upgrade_first :: "world \<Rightarrow> cmd \<Rightarrow> bool" where
  "upgrade_first w (Upgrade r) = (r_resp (req w r) = None)"
| "upgrade_first w _ = True"

definition detached_event :: "event \<Rightarrow> world \<Rightarrow> bool" where
  "detached_event ev w = (case event_req ev of None \<Rightarrow> False | Some r \<Rightarrow> r_conn (req w r) = None)"

definition permitted :: "bool \<Rightarrow> world \<Rightarrow> cmd \<Rightarrow> bool" where
  "permitted detached w a \<longleftrightarrow> upgrade_first w a \<and> (detached \<longrightarrow> quiet w a)"

text \<open>A call that breaks the rules is not made.\<close>

definition exec_if :: "ext \<Rightarrow> callbacks \<Rightarrow> bool \<Rightarrow> (world \<Rightarrow> cmd option) \<Rightarrow> world call" where
  "exec_if X cb detached f w =
     (case f w of
        None \<Rightarrow> Done w
      | Some a \<Rightarrow> if permitted detached w a then exec_cmd X cb a w else Done w)"

text \<open>
  The callbacks of a user: its calls may lead to further callbacks, \<open>n\<close> bounds the depth of that.
\<close>

primrec user_cb :: "ext \<Rightarrow> user \<Rightarrow> nat \<Rightarrow> callbacks" where
  "user_cb X u 0 ev w = (if u ev w = [] then Done w else Crash LoopBound)"
| "user_cb X u (Suc n) ev w =
     run (map (exec_if X (user_cb X u n) (detached_event ev w)) (u ev w)) w"

section \<open>The interfaces hold\<close>

lemma quiet_inert:
  assumes "quiet w a"
  shows "\<exists>w'. exec_cmd X cb a w = Done w' \<and> inert w w'"
  using assms
  by (cases a)
    (auto simp: ServerRequest_respond_def ServerRequest_send_continue_def ServerRequest_redirect_def
      ServerRequest_enable_partial_def ServerRequest_drop_def ServerRequest_upgrade_def
      ServerResponse_send_chunk_def ServerResponse_send_final_chunk_def inert_new_response
      unlinked_response_def redirect_response_def inert_enable_partial split: option.splits)

lemma exec_quiet:
  assumes "inert w0 w"
  shows "outcome_all {} (inert w0) (\<lambda>_. False) (exec_if X cb True f w)"
proof (cases "f w")
  case None
  then show ?thesis using assms by (simp add: exec_if_def)
next
  case (Some a)
  then show ?thesis
    using assms quiet_inert [of w a X cb] inert_trans [OF assms]
    by (auto simp: exec_if_def permitted_def)
qed

lemma run_quiet:
  "inert w0 w \<Longrightarrow> outcome_all {} (inert w0) (\<lambda>_. False) (run (map (exec_if X cb True) fs) w)"
proof (induction fs arbitrary: w)
  case Nil
  then show ?case by simp
next
  case (Cons f fs)
  show ?case
    unfolding list.map
    by (rule post_run_Cons, rule exec_quiet [OF Cons.prems], rule Cons.IH)
qed

lemma user_detached_inert:
  assumes "event_req ev = Some r" "r_conn (req w r) = None"
  shows "outcome_all UNIV (inert w) (\<lambda>_. False) (user_cb X u n ev w)"
proof (cases n)
  case 0
  then show ?thesis by simp
next
  case (Suc m)
  have "detached_event ev w" using assms by (simp add: detached_event_def)
  then show ?thesis
    using Suc post_mono [OF run_quiet [OF inert_refl]] by fastforce
qed

interpretation user_inert: inert_callbacks "user_cb X u n" UNIV
  by unfold_locales (rule user_detached_inert)

context callback_contract
begin

lemma exec_cmd_good:
  assumes c: "LoopBound \<in> c \<or> a \<noteq> StopServer" and good: "good K w" and up: "upgrade_first w a"
  shows "outcome_all c (good K) (good K) (exec_cmd X cb a w)"
proof (cases a)
  case (Respond r p)
  have "outcome_all c (good K) (good K)
      (ServerRequest_respond X cb r (next_sid w) (new_response (unlinked_response p) w))"
    by (rule ServerRequest_respond_good)
      (use good in \<open>simp_all add: good_new_response unlinked_response_def\<close>)
  with Respond show ?thesis by simp
next
  case (Upgrade r)
  have "outcome_all c (good K) (good K)
      (map_outcome snd (map_outcome (\<lambda>w. (Inr i :: error_code + cid, w)) (upgrade cb i r w)))" for i
    using upgrade_good [OF good, of r i] up Upgrade
    by (cases "upgrade cb i r w") simp_all
  with Upgrade good show ?thesis
    by (auto simp: ServerRequest_upgrade_def split: option.split)
qed (use good c in \<open>simp_all add: ServerRequest_send_continue_good ServerRequest_redirect_good
    ServerRequest_enable_partial_good ServerRequest_drop_good ServerResponse_send_chunk_good
    ServerResponse_send_final_chunk_good close_good shutdown_good good_except_good
    graceful_stop_good server_run_good server_stop_good server_graceful_stop_good configure_good\<close>)

lemma exec_if_good:
  assumes "LoopBound \<in> c" and "good K w"
  shows "outcome_all c (good K) (good K) (exec_if X cb detached f w)"
  using assms exec_cmd_good
  by (auto simp: exec_if_def permitted_def split: option.split)

end

lemma user_cb_good:
  "good K w \<Longrightarrow> outcome_all UNIV (good K) (good K) (user_cb X u n ev w)"
proof (induction n arbitrary: K w ev)
  case 0
  then show ?case by simp
next
  case (Suc n)
  have contract: "callback_contract (user_cb X u n) UNIV"
    by unfold_locales (auto intro: Suc.IH)
  show ?case
    unfolding user_cb.simps
    by (rule post_run_inv [where I = "good K"])
      (auto intro: callback_contract.exec_if_good [OF contract] Suc.prems)
qed

interpretation user: callback_contract "user_cb X u n" UNIV
  by unfold_locales (auto intro: user_cb_good)

section \<open>Events and reachable states\<close>

datatype input =
    Accept bool error_code
  | Read cid "parse_result list" error_code
  | Written cid error_code nat
  | Connected cid error_code
  | ShutdownDone cid error_code
  | Eof cid
  | IdleTimer cid
  | Call cmd

fun handle :: "ext \<Rightarrow> callbacks \<Rightarrow> input \<Rightarrow> world call" where
  "handle X cb (Accept secure err) w = on_establish X cb secure err w"
| "handle X cb (Read i buf err) w = on_read X cb i buf err w"
| "handle X cb (Written i err wq) w = on_write cb i err wq w"
| "handle X cb (Connected i err) w = on_connection cb i err w"
| "handle X cb (ShutdownDone i err) w = on_shutdown cb i err w"
| "handle X cb (Eof i) w = on_eof cb i w"
| "handle X cb (IdleTimer i) w = on_idle_timer cb i w"
| "handle X cb (Call a) w = exec_cmd X cb a w"

text \<open>
  When an input can occur: data arrive only on a connection that reads, in the form the parser
  returns; the other events of a stream only while the connection listens to it; a timer fires when
  it is active; the count of connections, 64 bits wide, does not overflow.
\<close>

fun enabled :: "world \<Rightarrow> input \<Rightarrow> bool" where
  "enabled w (Accept secure err) = (lastid w \<noteq> - 1)"
| "enabled w (Read i buf err) = (receiving (conn w i) \<and> parser_law w i buf)"
| "enabled w (Written i err wq) = st_listener (stream (conn w i))"
| "enabled w (Connected i err) = st_listener (stream (conn w i))"
| "enabled w (ShutdownDone i err) = st_listener (stream (conn w i))"
| "enabled w (Eof i) = st_listener (stream (conn w i))"
| "enabled w (IdleTimer i) = (idle_timer (conn w i) = Some True)"
| "enabled w (Call a) = upgrade_first w a"

text \<open>The server before anything has happened; no connection and no object is in use.\<close>

definition no_connection :: connection where
  "no_connection =
     \<lparr>stream = \<lparr>st_open = False, st_ignore = False, st_listener = False, st_secure = False,
        st_out = [], st_wqueue = 0\<rparr>,
      requests = [], requests_processed = 0, idle_timeout = 0, max_keepalive_requests = 0,
      idle_timer = None, closing = False, stopping = False, establish_time = 0, cur = None\<rparr>"

definition no_request :: srequest where
  "no_request =
     \<lparr>r_conn = None, r_server = False, r_resp = None, r_routed = False, r_partial = False,
      r_fin = False, r_done = False, r_secure = False, r_keep = False, r_connhdr = '''',
      r_expects = False, r_version = 0\<rparr>"

definition no_response :: sresponse where
  "no_response =
     \<lparr>s_code = 0, s_keep = False, s_chunked = False, s_headers = [], s_date = None, s_body = [],
      s_req = None, s_completed = False\<rparr>"

definition new_server :: "config \<Rightarrow> world" where
  "new_server conf =
     \<lparr>srv_state = Initial, srv_conf = conf, listeners = [], lastid = 0, connections = [],
      hdate_time = 0, hdate_str = '''', conn = (\<lambda>_. no_connection), req = (\<lambda>_. no_request),
      res = (\<lambda>_. no_response), next_rid = 0, next_sid = 0, unlinked = [], events = []\<rparr>"

text \<open>
  The code outside (the clock, the answers of the operating system) may be different at each step.
  An exception of user code leaves the handler; the server goes on in the state it left.
\<close>

inductive reachable :: "config \<Rightarrow> user \<Rightarrow> world \<Rightarrow> bool" for conf u where
  start: "reachable conf u (new_server conf)"
| returns: "reachable conf u w \<Longrightarrow> enabled w inp \<Longrightarrow> handle X (user_cb X u n) inp w = Done w' \<Longrightarrow>
     reachable conf u w'"
| throws: "reachable conf u w \<Longrightarrow> enabled w inp \<Longrightarrow> handle X (user_cb X u n) inp w = Throw e w' \<Longrightarrow>
     reachable conf u w'"

lemma good_new_server: "inv_ok 0 (new_server conf)"
proof -
  have "wire_conn settled (new_server conf) i" for i
    by (simp add: wire_conn_def wire_ok_def new_server_def no_connection_def)
  then show ?thesis
    by (simp add: inv_ok_def good_def base_inv_def links_ok_def resp_ok_def queue_ok_def cur_ok_def
        ids_ok_def new_server_def no_connection_def no_request_def no_response_def)
qed

context callback_contract
begin

lemma handle_inv:
  assumes c: "LoopBound \<in> c \<or> inp \<noteq> Call StopServer" and inv: "inv_ok l w" and en: "enabled w inp"
  shows "outcome_all c (\<lambda>w'. \<exists>l. inv_ok l w') (\<lambda>w'. \<exists>l. inv_ok l w') (handle X cb inp w)"
proof -
  have keep: "outcome_all c (\<lambda>w'. \<exists>l. inv_ok l w') (\<lambda>w'. \<exists>l. inv_ok l w') out"
    if "outcome_all c (inv_ok l) (inv_ok l) out" for out
    by (rule post_mono [OF that]) auto
  have all: "outcome_all c (\<lambda>w'. \<exists>l. inv_ok l w') (\<lambda>w'. \<exists>l. inv_ok l w') out"
    if "\<And>K. good K w \<Longrightarrow> outcome_all c (good K) (good K) out" for out
    by (rule keep, rule inv_ok_good [OF inv that])
  show ?thesis
  proof (cases inp)
    case (Accept secure err)
    then show ?thesis
      using en on_establish_good [of l w] inv by (simp add: inv_ok_def)
  next
    case (Read i buf err)
    then have "receiving (conn w i)" "parser_law w i buf" using en by simp_all
    moreover from this have "i \<le> l"
      using inv by (auto simp: inv_ok_def good_def base_inv_def ids_ok_def receiving_def)
    ultimately show ?thesis
      using Read keep [OF on_read_good [OF inv]] by simp
  next
    case (Call a)
    then show ?thesis
      using en c by (auto intro!: all exec_cmd_good)
  qed (use en in \<open>auto intro!: all intro: on_write_good on_connection_good on_shutdown_good
      on_eof_good on_idle_timer_good\<close>)
qed

end

lemma reachable_inv: "reachable conf u w \<Longrightarrow> \<exists>l. inv_ok l w"
proof (induction rule: reachable.induct)
  case start
  then show ?case using good_new_server by blast
next
  case (returns w inp X n w')
  then obtain l where "inv_ok l w" by blast
  then have "outcome_all UNIV (\<lambda>w'. \<exists>l. inv_ok l w') (\<lambda>w'. \<exists>l. inv_ok l w')
      (handle X (user_cb X u n) inp w)"
    by (intro user.handle_inv returns.hyps(2)) simp
  with returns.hyps(3) show ?case by simp
next
  case (throws w inp X n e w')
  then obtain l where "inv_ok l w" by blast
  then have "outcome_all UNIV (\<lambda>w'. \<exists>l. inv_ok l w') (\<lambda>w'. \<exists>l. inv_ok l w')
      (handle X (user_cb X u n) inp w)"
    by (intro user.handle_inv throws.hyps(2)) simp
  with throws.hyps(3) show ?case by simp
qed

lemma reachable_good: "reachable conf u w \<Longrightarrow> \<exists>K. good K w"
  using reachable_inv unfolding inv_ok_def by blast

end
