(* ===== verification/ServerDemo.thy ===== *)
theory ServerDemo
  imports ServerUser
begin

text \<open>
  Concrete runs of the server, on which the theorems on reachable states are instantiated: a clock, a
  configuration, and a client that pipelines two requests, of which the user answers the second
  first, and then sends a third, which is answered in chunks and ends the connection.
\<close>

section \<open>Runs\<close>

fun run_inputs :: "ext \<Rightarrow> user \<Rightarrow> nat \<Rightarrow> input list \<Rightarrow> world \<Rightarrow> world option" where
  "run_inputs X u n [] w = Some w"
| "run_inputs X u n (inp # inps) w =
     (if enabled w inp then
        (case handle X (user_cb X u n) inp w of
           Done w' \<Rightarrow> run_inputs X u n inps w'
         | Throw e w' \<Rightarrow> run_inputs X u n inps w'
         | Crash f \<Rightarrow> None)
      else None)"

lemma run_inputs_reachable:
  "reachable conf u w \<Longrightarrow> run_inputs X u n inps w = Some w' \<Longrightarrow> reachable conf u w'"
proof (induction X u n inps w rule: run_inputs.induct)
  case (1 X u n w)
  then show ?case by simp
next
  case (2 X u n inp inps w)
  then show ?case
    by (auto split: if_splits outcome.splits intro: reachable.intros)
qed

section \<open>The environment\<close>

definition demo_time :: datetime where
  "demo_time = \<lparr>dt_wday = 1, dt_mon = 0, dt_mday = 20, dt_year = 2020, dt_hour = 20, dt_min = 20,
     dt_sec = 20\<rparr>"

definition demo_ext :: ext where
  "demo_ext = \<lparr>x_now = 5000, x_gmtime = demo_time, x_full_message = (\<lambda>code. ''400 Bad Request''),
     x_after_write = (\<lambda>st. 0), x_iequals = (\<lambda>a b. a = b), x_sock_unix = (\<lambda>n. None),
     x_sock_addr = (\<lambda>n. ('''', 0)), x_bind_error = (\<lambda>l. None)\<rparr>"

definition demo_location :: location where
  "demo_location = (default_location 2)\<lparr>loc_host := ''localhost'', loc_port := 8080\<rparr>"

definition demo_conf :: config where
  "demo_conf = (default_config (- 1))\<lparr>cf_locations := [demo_location]\<rparr>"

definition simple_response :: "string \<Rightarrow> sresponse" where
  "simple_response body = no_response\<lparr>s_keep := True, s_body := [body]\<rparr>"

definition chunked_response :: sresponse where
  "chunked_response = no_response\<lparr>s_keep := True, s_chunked := True\<rparr>"

text \<open>The user answers the request 1 when it arrives, the others later.\<close>

definition demo_user :: user where
  "demo_user ev w =
     (case ev of
        RequestEvent r \<Rightarrow> if r = 1 then [\<lambda>w. Some (Respond 1 (simple_response ''second''))] else []
      | _ \<Rightarrow> [])"

definition parsed :: "bool \<Rightarrow> parse_result" where
  "parsed keep = \<lparr>pr_new = True, pr_state = StDone, pr_error = NoError, pr_keep = keep,
     pr_connhdr = '''', pr_expects = False, pr_version = 11\<rparr>"

definition demo_inputs :: "input list" where
  "demo_inputs =
     [Accept False NoError,
      Read 1 [parsed True, parsed True] NoError,
      Call (Respond 0 (simple_response ''first'')),
      Read 1 [parsed False] NoError,
      Call (Respond 2 chunked_response),
      Call (SendChunk 2 ''a''),
      Call (SendFinalChunk 2 ''b'')]"

definition demo_world :: "nat \<Rightarrow> world" where
  "demo_world k = the (run_inputs demo_ext demo_user 3 (take k demo_inputs) (new_server demo_conf))"

section \<open>Evaluation\<close>

lemmas demo_defs = demo_ext_def demo_conf_def demo_location_def demo_user_def parsed_def
  simple_response_def chunked_response_def no_response_def no_connection_def no_request_def
  new_server_def default_location_def default_config_def demo_time_def DEFAULT_IDLE_TIMEOUT_def
  demo_inputs_def numeral_3_eq_3

lemmas state_defs = upd_conn_def upd_req_def upd_res_def upd_stream_def stop_timer_def
  stream_write_def read_ignore_def stream_close_def stream_unlisten_def fire_def when_step_def
  Let_def

lemmas read_defs = on_establish_def new_connection_def new_stream_def on_read_def
  receive_result_def take_result_def new_request_def new_srequest_def parsed_into_def
  enqueue_request_def upgrade_pipelined_def route_def deliver_def receiving_def parser_law_def
  fresh_result_def on_read_error_def request_error_def default_error_response_def

lemmas respond_defs = ServerRequest_respond_def respond_def new_response_def
  unlinked_response_def link_response_def keepalive_limit_hit_def mark_completed_def
  body_length_def write_with_def fill_defaults_def date_header_now_def date_stale_def
  rfc822_date_def two_digits_def four_digits_def digit_char_def day_snames_def month_snames_def
  takes_chunks_def ends_connection_def write_head_def stop_accepting_def drop_pipelined_def
  finish_with_def cleanup_request_def shutdown_def close_def do_close_def drop_requests_def
  check_if_idle_def finish_request_def ServerResponse_send_chunk_def
  ServerResponse_send_final_chunk_def send_chunk_def send_final_chunk_def
  exec_if_def permitted_def detached_event_def server_remove_def notify_dropped_def

lemma run_inputs_take:
  "run_inputs X u n inps w \<noteq> None \<Longrightarrow> run_inputs X u n (take k inps) w \<noteq> None"
proof (induction X u n inps w arbitrary: k rule: run_inputs.induct)
  case (1 X u n w)
  then show ?case by simp
next
  case (2 X u n inp inps w)
  then show ?case
    by (cases k) (auto split: if_splits outcome.splits)
qed

lemma demo_final:
  "map_option (\<lambda>w. st_out (stream (conn w 1)))
     (run_inputs demo_ext demo_user 3 demo_inputs (new_server demo_conf)) =
   Some [Head 0 1 False True [''first''], Head 1 0 False True [''second''],
          Head 2 2 True False [], Chunk 2 ''a'', Final 2 ''b'']"
  by (simp add: demo_defs state_defs read_defs respond_defs)

lemma demo_reachable: "reachable demo_conf demo_user (demo_world k)"
proof -
  have "run_inputs demo_ext demo_user 3 demo_inputs (new_server demo_conf) \<noteq> None"
    using demo_final by (metis map_option_is_None option.distinct(1))
  then have "run_inputs demo_ext demo_user 3 (take k demo_inputs) (new_server demo_conf) \<noteq> None"
    by (rule run_inputs_take)
  then show ?thesis
    unfolding demo_world_def
    by (auto intro: run_inputs_reachable [OF reachable.start])
qed

lemma run_inputs_append:
  "run_inputs X u n (xs @ ys) w =
     (case run_inputs X u n xs w of None \<Rightarrow> None | Some w' \<Rightarrow> run_inputs X u n ys w')"
  by (induction X u n xs w rule: run_inputs.induct) (auto split: outcome.split)

lemma run_inputs_split:
  "run_inputs X u n inps w = Some w' \<Longrightarrow>
     run_inputs X u n (drop k inps) (the (run_inputs X u n (take k inps) w)) = Some w'"
  using run_inputs_append [of X u n "take k inps" "drop k inps" w]
  by (auto split: option.splits)

lemma demo_rest: "\<exists>w'. run_inputs demo_ext demo_user 3 (drop k demo_inputs) (demo_world k) = Some w'"
proof -
  obtain w' where "run_inputs demo_ext demo_user 3 demo_inputs (new_server demo_conf) = Some w'"
    using demo_final by (rule map_option_eq_Some [THEN iffD1, THEN exE]) blast
  from run_inputs_split [OF this, of k] show ?thesis
    unfolding demo_world_def by blast
qed

lemma demo_world_7:
  "st_out (stream (conn (demo_world 7) 1)) =
     [Head 0 1 False True [''first''], Head 1 0 False True [''second''],
      Head 2 2 True False [], Chunk 2 ''a'', Final 2 ''b'']"
proof -
  have "take 7 demo_inputs = demo_inputs" by (simp add: demo_inputs_def)
  then show ?thesis
    using demo_final by (auto simp: demo_world_def)
qed

text \<open>After the second input both requests wait, and the second has its response.\<close>

lemma demo_world_2:
  "requests (conn (demo_world 2) 1) = [0, 1]" "r_resp (req (demo_world 2) 1) = Some 0"
  "r_conn (req (demo_world 2) 0) = Some 1" "r_server (req (demo_world 2) 0)"
  "r_resp (req (demo_world 2) 0) = None" "next_sid (demo_world 2) = 1"
  "next_rid (demo_world 2) = 2"
proof -
  have "map_option (\<lambda>w. (requests (conn w 1), r_resp (req w 1), r_conn (req w 0), r_server (req w 0),
      r_resp (req w 0), next_sid w, next_rid w))
      (run_inputs demo_ext demo_user 3 (take 2 demo_inputs) (new_server demo_conf)) =
    Some ([0, 1], Some 0, Some 1, True, None, 1, 2)"
    by (simp add: demo_defs state_defs read_defs respond_defs)
  then show "requests (conn (demo_world 2) 1) = [0, 1]" "r_resp (req (demo_world 2) 1) = Some 0"
    "r_conn (req (demo_world 2) 0) = Some 1" "r_server (req (demo_world 2) 0)"
    "r_resp (req (demo_world 2) 0) = None" "next_sid (demo_world 2) = 1"
    "next_rid (demo_world 2) = 2"
    by (auto simp: demo_world_def)
qed

lemma demo_world_2_conn:
  "st_open (stream (conn (demo_world 2) 1))" "\<not> closing (conn (demo_world 2) 1)"
  "\<not> stopping (conn (demo_world 2) 1)" "idle_timer (conn (demo_world 2) 1) = Some False"
  "max_keepalive_requests (conn (demo_world 2) 1) = 0"
  "st_out (stream (conn (demo_world 2) 1)) = []" "srv_state (demo_world 2) = Initial"
  "connections (demo_world 2) = [1]"
proof -
  have "map_option (\<lambda>w. (st_open (stream (conn w 1)), closing (conn w 1), stopping (conn w 1),
      idle_timer (conn w 1), max_keepalive_requests (conn w 1), st_out (stream (conn w 1)),
      srv_state w, connections w))
      (run_inputs demo_ext demo_user 3 (take 2 demo_inputs) (new_server demo_conf)) =
    Some (True, False, False, Some False, 0, [], Initial, [1])"
    by (simp add: demo_defs state_defs read_defs respond_defs)
  then show "st_open (stream (conn (demo_world 2) 1))" "\<not> closing (conn (demo_world 2) 1)"
    "\<not> stopping (conn (demo_world 2) 1)" "idle_timer (conn (demo_world 2) 1) = Some False"
    "max_keepalive_requests (conn (demo_world 2) 1) = 0"
    "st_out (stream (conn (demo_world 2) 1)) = []" "srv_state (demo_world 2) = Initial"
    "connections (demo_world 2) = [1]"
    by (auto simp: demo_world_def)
qed

lemma demo_world_2_requests:
  "r_done (req (demo_world 2) 0)" "r_keep (req (demo_world 2) 0)" "r_done (req (demo_world 2) 1)"
  "r_keep (req (demo_world 2) 1)" "s_completed (res (demo_world 2) 0)"
  "s_keep (res (demo_world 2) 0)" "s_body (res (demo_world 2) 0) = [''second'']"
proof -
  have "map_option (\<lambda>w. (r_done (req w 0), r_keep (req w 0), r_done (req w 1), r_keep (req w 1),
      s_completed (res w 0), s_keep (res w 0), s_body (res w 0)))
      (run_inputs demo_ext demo_user 3 (take 2 demo_inputs) (new_server demo_conf)) =
    Some (True, True, True, True, True, True, [''second''])"
    by (simp add: demo_defs state_defs read_defs respond_defs)
  then show "r_done (req (demo_world 2) 0)" "r_keep (req (demo_world 2) 0)"
    "r_done (req (demo_world 2) 1)" "r_keep (req (demo_world 2) 1)"
    "s_completed (res (demo_world 2) 0)" "s_keep (res (demo_world 2) 0)"
    "s_body (res (demo_world 2) 0) = [''second'']"
    by (auto simp: demo_world_def)
qed

lemmas demo_2 = demo_world_2 demo_world_2_conn demo_world_2_requests

lemma demo_clock: "rfc822_date (x_gmtime demo_ext) \<noteq> None"
  by (simp add: demo_defs rfc822_date_def)

text \<open>After the first the idle timer runs.\<close>

lemma demo_1:
  "idle_timer (conn (demo_world 1) 1) = Some True" "requests (conn (demo_world 1) 1) = []"
  "cur (conn (demo_world 1) 1) = None" "st_open (stream (conn (demo_world 1) 1))"
  "st_listener (stream (conn (demo_world 1) 1))" "\<not> st_ignore (stream (conn (demo_world 1) 1))"
  "st_out (stream (conn (demo_world 1) 1)) = []" "next_rid (demo_world 1) = 0"
  "next_sid (demo_world 1) = 0"
proof -
  have "map_option (\<lambda>w. (idle_timer (conn w 1), requests (conn w 1), cur (conn w 1),
      st_open (stream (conn w 1)), st_listener (stream (conn w 1)), st_ignore (stream (conn w 1)),
      st_out (stream (conn w 1)), next_rid w, next_sid w))
      (run_inputs demo_ext demo_user 3 (take 1 demo_inputs) (new_server demo_conf)) =
    Some (Some True, [], None, True, True, False, [], 0, 0)"
    by (simp add: demo_defs state_defs read_defs)
  then show "idle_timer (conn (demo_world 1) 1) = Some True" "requests (conn (demo_world 1) 1) = []"
    "cur (conn (demo_world 1) 1) = None" "st_open (stream (conn (demo_world 1) 1))"
    "st_listener (stream (conn (demo_world 1) 1))" "\<not> st_ignore (stream (conn (demo_world 1) 1))"
    "st_out (stream (conn (demo_world 1) 1)) = []" "next_rid (demo_world 1) = 0"
    "next_sid (demo_world 1) = 0"
    by (auto simp: demo_world_def)
qed

end
