(* ===== verification/Pipeline.thy ===== *)
theory Pipeline
  imports ServerDemo
begin

text \<open>
  What the connection does step by step when the user code makes no calls of its own from the
  callbacks: the queue of pipelined requests as a function. The answered requests at its front are
  sent in order and leave it; the interface of the callbacks holds with no fault of their own, so the
  bounds on the loops are enough.
\<close>

lemma outcome_eta [simp]:
  "(case out of Done w \<Rightarrow> run [] w | Throw e w \<Rightarrow> Throw e w | Crash f \<Rightarrow> Crash f) = out"
  "(case out of Done w \<Rightarrow> Done w | Throw e w \<Rightarrow> Throw e w | Crash f \<Rightarrow> Crash f) = out"
  by (cases out; simp)+

section \<open>Callbacks that make no calls\<close>

definition silent :: callbacks where
  "silent ev w = Done w"

lemma fire_silent [simp]: "fire silent ev w = Done (w\<lparr>events := events w @ [ev]\<rparr>)"
  by (simp add: fire_def silent_def)

interpretation silent: callback_contract silent "{AssertFailed, FrontOfEmpty, NullDeref, OutOfRange}"
  by unfold_locales (auto simp: silent_def)

text \<open>Changes that only concern the texts of responses and the cached date.\<close>

definition cosmetic :: "world \<Rightarrow> world \<Rightarrow> bool" where
  "cosmetic w w' \<longleftrightarrow>
     conn w' = conn w \<and> req w' = req w \<and> events w' = events w \<and> next_rid w' = next_rid w \<and>
     next_sid w' = next_sid w \<and> connections w' = connections w \<and> srv_state w' = srv_state w \<and>
     (\<forall>s. s_body (res w' s) = s_body (res w s) \<and> s_keep (res w' s) = s_keep (res w s) \<and>
          s_completed (res w' s) = s_completed (res w s) \<and> s_req (res w' s) = s_req (res w s) \<and>
          s_chunked (res w' s) = s_chunked (res w s))"

lemma cosmetic_refl [simp]: "cosmetic w w"
  by (simp add: cosmetic_def)

lemma cosmetic_trans: "cosmetic a b \<Longrightarrow> cosmetic b c \<Longrightarrow> cosmetic a c"
  by (simp add: cosmetic_def)

lemma cosmetic_simps:
  assumes "cosmetic w w'"
  shows "conn w' = conn w" "req w' = req w" "events w' = events w" "next_rid w' = next_rid w"
    "next_sid w' = next_sid w" "connections w' = connections w" "srv_state w' = srv_state w"
    "s_body (res w' s) = s_body (res w s)" "s_keep (res w' s) = s_keep (res w s)"
    "s_completed (res w' s) = s_completed (res w s)" "s_req (res w' s) = s_req (res w s)"
    "s_chunked (res w' s) = s_chunked (res w s)"
  using assms by (simp_all add: cosmetic_def)

text \<open>The date can be written whenever the clock gives a date with a month and a weekday.\<close>

definition clock_ok :: "ext \<Rightarrow> bool" where
  "clock_ok X \<longleftrightarrow> rfc822_date (x_gmtime X) \<noteq> None"

lemma date_header_now_done:
  assumes "clock_ok X"
  obtains w' where "date_header_now X w = Done w'" "cosmetic w w'" "res w' = res w"
  using assms
  by (cases rule: date_header_now_cases [of X w])
    (auto simp: clock_ok_def cosmetic_def intro: that)

lemma fill_defaults_done:
  assumes "clock_ok X"
  obtains w' where "fill_defaults X s w = Done w'" "cosmetic w w'"
proof -
  define w1 where "w1 = upd_res s (\<lambda>p. if s_code p = 0 then p\<lparr>s_code := 200\<rparr> else p) w"
  have c1: "cosmetic w w1" by (simp add: w1_def cosmetic_def)
  show thesis
  proof (cases "s_date (res w1 s)")
    case (Some d)
    then show thesis
      using c1 that [of w1] by (simp add: fill_defaults_def flip: w1_def)
  next
    case None
    obtain w2 where w2: "date_header_now X w1 = Done w2" "cosmetic w1 w2"
      using date_header_now_done [OF assms] by metis
    have "cosmetic w2 (upd_res s (\<lambda>p. p\<lparr>s_date := Some (hdate_str w2)\<rparr>) w2)"
      by (simp add: cosmetic_def)
    then have "cosmetic w (upd_res s (\<lambda>p. p\<lparr>s_date := Some (hdate_str w2)\<rparr>) w2)"
      using c1 w2(2) cosmetic_trans by blast
    moreover have "fill_defaults X s w =
        Done (upd_res s (\<lambda>p. p\<lparr>s_date := Some (hdate_str w2)\<rparr>) w2)"
      using None w2(1) by (simp add: fill_defaults_def flip: w1_def)
    ultimately show thesis by (intro that)
  qed
qed

section \<open>Sending what is due\<close>

definition answered :: "world \<Rightarrow> rid \<Rightarrow> bool" where
  "answered w r \<longleftrightarrow> r_resp (req w r) \<noteq> None"

text \<open>A request that has been received and answered in full, on a connection that stays open.\<close>

definition ready :: "world \<Rightarrow> rid \<Rightarrow> bool" where
  "ready w r \<longleftrightarrow>
     (case r_resp (req w r) of
        None \<Rightarrow> False
      | Some s \<Rightarrow> s_completed (res w s) \<and> s_keep (res w s) \<and> r_keep (req w r) \<and> r_done (req w r))"

definition head_of :: "world \<Rightarrow> rid \<Rightarrow> wire" where
  "head_of w r = Head r (the (r_resp (req w r))) False True (s_body (res w (the (r_resp (req w r)))))"

text \<open>A connection in normal operation: neither closed nor closing, and with an idle timer.\<close>

definition serving :: "connection \<Rightarrow> bool" where
  "serving c \<longleftrightarrow> st_open (stream c) \<and> \<not> closing c \<and> \<not> stopping c \<and> idle_timer c \<noteq> None"

lemma check_if_idle_done:
  assumes "idle_timer (conn w i) \<noteq> None"
  obtains w' where "check_if_idle i w = Done w'" "requests (conn w' i) = requests (conn w i)"
    "stream (conn w' i) = stream (conn w i)" "events w' = events w"
proof -
  obtain b where b: "idle_timer (conn w i) = Some b" using assms by auto
  show thesis
  proof (cases "requests (conn w i) = [] \<and> \<not> b \<and> st_wqueue (stream (conn w i)) = 0")
    case True
    then show thesis
      using b that [of "set_timer i (Some True) w"] by (simp add: check_if_idle_def)
  next
    case False
    then show thesis
      using b that [of w] by (auto simp: check_if_idle_def)
  qed
qed

lemma write_ready:
  assumes rs: "requests (conn w i) = r # rs" and ready: "ready w r" and serving: "serving (conn w i)"
    and clock: "clock_ok X"
  obtains w' where "cosmetic w w'"
    "write_with X silent i (finish_with silent i next) w =
       finish_with silent i next (stream_write X i (head_of w r) w')"
proof -
  obtain s where s: "r_resp (req w r) = Some s" "s_completed (res w s)" "s_keep (res w s)"
    "r_keep (req w r)"
    using ready by (auto simp: ready_def split: option.splits)
  obtain w' where w': "fill_defaults X s w = Done w'" "cosmetic w w'"
    using fill_defaults_done [OF clock] by metis
  note same = cosmetic_simps [OF w'(2)]
  have "write_with X silent i (finish_with silent i next) w =
      finish_with silent i next (stream_write X i (head_of w r) w')"
    using s w'(1) rs
    by (simp add: write_with_def Let_def takes_chunks_def same write_head_def
        ends_connection_def head_of_def split: outcome.split)
  with w'(2) show thesis by (rule that)
qed

text \<open>After the head, the request leaves the queue.\<close>

lemma finish_ready:
  assumes rs: "requests (conn w i) = r # rs" and ready: "ready w r" and serving: "serving (conn w i)"
  shows "finish_with silent i next w =
    (let w' = (popped i w)\<lparr>events := events w @ [FinishEvent r]\<rparr>
     in case rs of
          [] \<Rightarrow> check_if_idle i w'
        | r' # _ \<Rightarrow> if answered w' r' then next w' else Done w')"
proof -
  obtain s where s: "r_resp (req w r) = Some s" "s_completed (res w s)" "r_done (req w r)"
    using ready by (auto simp: ready_def split: option.splits)
  have "cleanup_request silent i w = Done ((popped i w)\<lparr>events := events w @ [FinishEvent r]\<rparr>)"
    by (auto simp: cleanup_request_def rs popped_def detach_def set_requests_def upd_conn_def
        upd_req_def fun_eq_iff)
  then show ?thesis
    using s rs serving
    by (simp add: finish_with_def serving_def answered_def Let_def popped_def split: list.split)
qed

lemma ready_cong:
  assumes "r_resp (req w' r) = r_resp (req w r)" "r_keep (req w' r) = r_keep (req w r)"
    "r_done (req w' r) = r_done (req w r)"
    and "\<And>s. r_resp (req w r) = Some s \<Longrightarrow> s_completed (res w' s) = s_completed (res w s) \<and>
      s_keep (res w' s) = s_keep (res w s) \<and> s_body (res w' s) = s_body (res w s)"
  shows "ready w' r = ready w r" "answered w r \<Longrightarrow> head_of w' r = head_of w r"
    "answered w' r = answered w r"
  using assms by (auto simp: ready_def head_of_def answered_def split: option.split)

lemma flush_step:
  assumes rs: "requests (conn w i) = r # rs" and "r \<notin> set rs" and ready: "ready w r"
    and serving: "serving (conn w i)" and clock: "clock_ok X"
  obtains w' where
    "write_next_response X silent i (Suc m) w =
       (case rs of
          [] \<Rightarrow> check_if_idle i w'
        | q # _ \<Rightarrow> if answered w q then write_next_response X silent i m w' else Done w')"
    "requests (conn w' i) = rs"
    "st_out (stream (conn w' i)) = st_out (stream (conn w i)) @ [head_of w r]"
    "events w' = events w @ [FinishEvent r]" "serving (conn w' i)"
    "\<And>q. q \<noteq> r \<Longrightarrow> ready w' q = ready w q \<and> answered w' q = answered w q \<and>
      (answered w q \<longrightarrow> head_of w' q = head_of w q)"
proof -
  obtain w1 where w1: "cosmetic w w1" and
    eq: "write_with X silent i (finish_with silent i (write_next_response X silent i m)) w =
      finish_with silent i (write_next_response X silent i m) (stream_write X i (head_of w r) w1)"
    using write_ready [OF rs ready serving clock] by metis
  note same = cosmetic_simps [OF w1]
  define w2 where "w2 = stream_write X i (head_of w r) w1"
  have w2: "requests (conn w2 i) = r # rs" "events w2 = events w"
    "st_out (stream (conn w2 i)) = st_out (stream (conn w i)) @ [head_of w r]" "req w2 = req w"
    "res w2 = res w1"
    using rs serving same
    by (simp_all add: w2_def serving_def stream_write_def upd_stream_def)
  have serving2: "serving (conn w2 i)"
    using serving same by (simp add: w2_def serving_def stream_write_def upd_stream_def)
  have ready2: "ready w2 q = ready w q" "answered w2 q = answered w q"
    "answered w q \<Longrightarrow> head_of w2 q = head_of w q" for q
    by (rule ready_cong; simp add: w2 same)+
  define w3 where "w3 = (popped i w2)\<lparr>events := events w @ [FinishEvent r]\<rparr>"
  have w3: "ready w3 q = ready w2 q" "answered w3 q = answered w2 q"
    "answered w2 q \<Longrightarrow> head_of w3 q = head_of w2 q" for q
    by (rule ready_cong; simp add: w3_def popped_def)+
  have "finish_with silent i (write_next_response X silent i m) w2 =
      (case rs of
         [] \<Rightarrow> check_if_idle i w3
       | q # _ \<Rightarrow> if answered w3 q then write_next_response X silent i m w3 else Done w3)"
    using finish_ready [OF w2(1) _ serving2, of "write_next_response X silent i m"] ready ready2(1) w2(2)
    by (simp add: Let_def flip: w3_def)
  with eq have "write_next_response X silent i (Suc m) w =
      (case rs of
         [] \<Rightarrow> check_if_idle i w3
       | q # _ \<Rightarrow> if answered w q then write_next_response X silent i m w3 else Done w3)"
    by (simp add: w3 ready2 flip: w2_def split: list.split)
  moreover have "requests (conn w3 i) = rs" "serving (conn w3 i)"
    "st_out (stream (conn w3 i)) = st_out (stream (conn w i)) @ [head_of w r]"
    "events w3 = events w @ [FinishEvent r]"
    using w2 serving2 by (simp_all add: w3_def popped_def serving_def)
  ultimately show thesis
    using that [of w3] w3 ready2 by simp
qed

lemma flush:
  assumes "requests (conn w i) = r # rs" and "distinct (r # rs)" and "length (r # rs) \<le> n"
    and "serving (conn w i)" and "clock_ok X" and "answered w r"
    and "\<forall>q\<in>set (takeWhile (answered w) (r # rs)). ready w q"
  shows "\<exists>w'. write_next_response X silent i n w = Done w' \<and>
    requests (conn w' i) = dropWhile (answered w) (r # rs) \<and>
    st_out (stream (conn w' i)) =
      st_out (stream (conn w i)) @ map (head_of w) (takeWhile (answered w) (r # rs)) \<and>
    events w' = events w @ map FinishEvent (takeWhile (answered w) (r # rs))"
  using assms
proof (induction rs arbitrary: w r n)
  case Nil
  then obtain m where n: "n = Suc m" by (cases n) auto
  have "ready w r" "r \<notin> set []" using Nil.prems by simp_all
  then obtain w1 where w1:
    "write_next_response X silent i (Suc m) w =
       (case [] of
          [] \<Rightarrow> check_if_idle i w1
        | q # _ \<Rightarrow> if answered w q then write_next_response X silent i m w1 else Done w1)"
    "requests (conn w1 i) = []"
    "st_out (stream (conn w1 i)) = st_out (stream (conn w i)) @ [head_of w r]"
    "events w1 = events w @ [FinishEvent r]" "serving (conn w1 i)"
    using flush_step [OF Nil.prems(1) _ _ Nil.prems(4,5)] by blast
  obtain w2 where w2: "check_if_idle i w1 = Done w2" "requests (conn w2 i) = requests (conn w1 i)"
    "stream (conn w2 i) = stream (conn w1 i)" "events w2 = events w1"
    using w1(5) by (auto simp: serving_def intro: check_if_idle_done [of w1 i])
  show ?case
    by (rule exI [of _ w2]) (use w1 w2 n Nil.prems(6) in simp)
next
  case (Cons q qs)
  then obtain m where n: "n = Suc m" by (cases n) auto
  have "ready w r" "r \<notin> set (q # qs)" using Cons.prems by simp_all
  then obtain w' where step:
    "write_next_response X silent i (Suc m) w =
       (case q # qs of
          [] \<Rightarrow> check_if_idle i w'
        | q # _ \<Rightarrow> if answered w q then write_next_response X silent i m w' else Done w')"
    and w': "requests (conn w' i) = q # qs"
    "st_out (stream (conn w' i)) = st_out (stream (conn w i)) @ [head_of w r]"
    "events w' = events w @ [FinishEvent r]" "serving (conn w' i)"
    and same: "\<And>p. p \<noteq> r \<Longrightarrow> ready w' p = ready w p \<and> answered w' p = answered w p \<and>
      (answered w p \<longrightarrow> head_of w' p = head_of w p)"
    using flush_step [OF Cons.prems(1) _ _ Cons.prems(4,5)] by blast
  have old: "p \<in> set (q # qs) \<Longrightarrow> answered w' p = answered w p"
    "p \<in> set (q # qs) \<Longrightarrow> ready w' p = ready w p" for p
    using same [of p] Cons.prems(2) by auto
  have cong: "takeWhile (answered w') (q # qs) = takeWhile (answered w) (q # qs)"
    "dropWhile (answered w') (q # qs) = dropWhile (answered w) (q # qs)"
    by (intro takeWhile_cong dropWhile_cong refl old(1); assumption)+
  show ?case
  proof (cases "answered w q")
    case False
    then show ?thesis using step n w' Cons.prems(6) by simp
  next
    case True
    have heads: "map (head_of w') (takeWhile (answered w) (q # qs)) =
        map (head_of w) (takeWhile (answered w) (q # qs))"
      using same Cons.prems(2) by (intro map_cong refl) (metis distinct.simps(2) set_takeWhileD)
    have "\<forall>p\<in>set (takeWhile (answered w) (q # qs)). ready w p"
      using Cons.prems(6,7) by simp
    then have "\<forall>p\<in>set (takeWhile (answered w') (q # qs)). ready w' p"
      unfolding cong using old(2) by (meson set_takeWhileD)
    moreover have "distinct (q # qs)" "length (q # qs) \<le> m" "answered w' q"
      using Cons.prems(2,3) n True same [of q] by auto
    ultimately obtain w'' where w'': "write_next_response X silent i m w' = Done w''"
      "requests (conn w'' i) = dropWhile (answered w) (q # qs)"
      "st_out (stream (conn w'' i)) = st_out (stream (conn w' i)) @
        map (head_of w) (takeWhile (answered w) (q # qs))"
      "events w'' = events w' @ map FinishEvent (takeWhile (answered w) (q # qs))"
      using Cons.IH [OF w'(1) _ _ w'(4) Cons.prems(5), of m] heads unfolding cong by metis
    show ?thesis
      by (rule exI [of _ w'']) (use step n w'' w' True Cons.prems(6) in simp)
  qed
qed

section \<open>Responding in order\<close>

text \<open>The world in which the response to the first request is due.\<close>

definition responded :: "cid \<Rightarrow> rid \<Rightarrow> sid \<Rightarrow> world \<Rightarrow> world" where
  "responded i r s w = mark_completed s
     (upd_conn i (\<lambda>c. c\<lparr>requests_processed := requests_processed c + 1\<rparr>) (link_response r s w))"

lemma responded_simps [simp]:
  "requests (conn (responded i r s w) j) = requests (conn w j)"
  "stream (conn (responded i r s w) j) = stream (conn w j)"
  "serving (conn (responded i r s w) j) = serving (conn w j)"
  "req (responded i r s w) q = (if q = r then (req w r)\<lparr>r_resp := Some s\<rparr> else req w q)"
  "t \<noteq> s \<Longrightarrow> res (responded i r s w) t = res w t"
  "events (responded i r s w) = events w"
  by (auto simp: responded_def mark_completed_def serving_def link_response_def)

lemma responded_res:
  "\<not> s_chunked (res w s) \<Longrightarrow>
     res (responded i r s w) s = (res w s)\<lparr>s_req := Some r, s_completed := True\<rparr>"
  by (simp add: responded_def mark_completed_def)

lemma respond_front:
  assumes "r_conn (req w r) = Some i" "r_resp (req w r) = None" "requests (conn w i) = r # rs"
    and "max_keepalive_requests (conn w i) = 0" "\<not> stopping (conn w i)"
  shows "ServerRequest_respond X cb r s w =
    write_next_response X cb i (length (r # rs)) (responded i r s w)"
proof -
  have "requests (conn (responded i r s w) i) = r # rs" using assms(3) by simp
  then show ?thesis
    using assms
    by (simp add: ServerRequest_respond_def respond_def keepalive_limit_hit_def
        del: write_next_response.simps flip: responded_def)
qed

text \<open>
  C5: Answering the first of the pipelined requests sends its response at once, and with it, in the
  order of the requests, the responses that were already given to the requests behind it, up to the
  first request without one; these requests leave the queue with their finish events, the others
  stay.
\<close>

theorem respond_in_order:
  assumes reach: "reachable conf u w"
    and rs: "requests (conn w i) = r # rs" "\<not> answered w r"
    and conn: "serving (conn w i)" "max_keepalive_requests (conn w i) = 0" "clock_ok X"
    and r: "r_done (req w r)" "r_keep (req w r)"
    and p: "\<not> s_chunked p" "s_keep p"
    and ready: "\<forall>q\<in>set (takeWhile (answered w) rs). ready w q"
  shows "\<exists>w'. exec_cmd X silent (Respond r p) w = Done w' \<and>
    requests (conn w' i) = dropWhile (answered w) rs \<and>
    st_out (stream (conn w' i)) = st_out (stream (conn w i)) @
      Head r (next_sid w) False True (s_body p) # map (head_of w) (takeWhile (answered w) rs) \<and>
    events w' = events w @ map FinishEvent (r # takeWhile (answered w) rs)"
proof -
  obtain K where good: "good K w" using reachable_good [OF reach] by blast
  then have base: "base_inv K w" by (simp add: good_def)
  define s where "s = next_sid w"
  define w1 where "w1 = responded i r s (new_response (unlinked_response p) w)"
  have linked: "r_conn (req w r) = Some i" using base_links [OF base] rs by simp
  have dist: "distinct (r # rs)"
    using base_sorted [OF base, of i] rs by (metis sorted_wrt_less_distinct)
  have eq: "exec_cmd X silent (Respond r p) w = write_next_response X silent i (length (r # rs)) w1"
    unfolding exec_cmd.simps w1_def s_def
    by (rule respond_front) (use rs linked conn in \<open>simp_all add: answered_def serving_def\<close>)
  have w1: "requests (conn w1 i) = r # rs" "serving (conn w1 i)" "events w1 = events w"
    "stream (conn w1 i) = stream (conn w i)"
    using rs conn by (simp_all add: w1_def new_response_def)
  have ready1: "ready w1 r" "answered w1 r" "head_of w1 r = Head r s False True (s_body p)"
    using r p
    by (simp_all add: ready_def answered_def head_of_def w1_def responded_res unlinked_response_def
        s_def)
  have old: "answered w1 q = answered w q" "ready w1 q = ready w q"
    "answered w q \<Longrightarrow> head_of w1 q = head_of w q" if "q \<in> set rs" for q
  proof -
    have "q \<noteq> r" using dist that by auto
    moreover have "t \<noteq> s" if "r_resp (req w q) = Some t" for t
      using that base by (auto simp: base_inv_def resp_ok_def s_def)
    ultimately show "answered w1 q = answered w q" "ready w1 q = ready w q"
      "answered w q \<Longrightarrow> head_of w1 q = head_of w q"
      by (intro ready_cong; simp add: w1_def s_def)+
  qed
  have cong: "takeWhile (answered w1) rs = takeWhile (answered w) rs"
    "dropWhile (answered w1) rs = dropWhile (answered w) rs"
    by (intro takeWhile_cong dropWhile_cong refl old(1); assumption)+
  have "\<forall>q\<in>set (takeWhile (answered w1) (r # rs)). ready w1 q"
    using ready ready1 old(2) cong by (auto dest: set_takeWhileD)
  from flush [OF w1(1) dist le_refl w1(2) conn(3) ready1(2) this] obtain w' where
    "write_next_response X silent i (length (r # rs)) w1 = Done w'"
    "requests (conn w' i) = dropWhile (answered w1) (r # rs)"
    "st_out (stream (conn w' i)) =
      st_out (stream (conn w1 i)) @ map (head_of w1) (takeWhile (answered w1) (r # rs))"
    "events w' = events w1 @ map FinishEvent (takeWhile (answered w1) (r # rs))" by blast
  moreover have "map (head_of w1) (takeWhile (answered w) rs) = map (head_of w) (takeWhile (answered w) rs)"
    using old(3) by (intro map_cong refl) (meson set_takeWhileD)
  ultimately show ?thesis
    using eq w1 ready1 cong by (intro exI [of _ w']) (simp add: s_def)
qed

theorem respond_in_order_witness:
  "\<exists>w'. exec_cmd demo_ext silent (Respond 0 (simple_response ''x'')) (demo_world 2) = Done w' \<and>
    requests (conn w' 1) = [] \<and>
    st_out (stream (conn w' 1)) = [Head 0 1 False True [''x''], Head 1 0 False True [''second'']] \<and>
    events w' = events (demo_world 2) @ [FinishEvent 0, FinishEvent 1]"
  using respond_in_order [of demo_conf demo_user "demo_world 2" 1 0 "[1]" demo_ext
      "simple_response ''x''", OF demo_reachable]
  by (simp add: demo_2 answered_def serving_def ready_def head_of_def clock_ok_def demo_clock
      simple_response_def no_response_def del: One_nat_def)

end
