(* ===== verification/Closing.thy ===== *)
theory Closing
  imports Pipeline
begin

text \<open>
  Closing a connection and stopping the server: what happens to the requests that are still in the
  queue, what is left of the connection, and the two ways of \<^verbatim>\<open>Server\<close> to stop.
\<close>

section \<open>Dropping requests\<close>

text \<open>What the user is told of a request that is dropped, after its finish event.\<close>

definition drop_notice :: "world \<Rightarrow> error_code \<Rightarrow> rid \<Rightarrow> event list" where
  "drop_notice w err r =
     (if \<not> r_done (req w r) then
        [if r_partial (req w r) then PartialEvent r err else ErrorEvent r err]
      else if response_completed w r then [] else [DropEvent r err])"

definition drop_events :: "world \<Rightarrow> error_code \<Rightarrow> rid list \<Rightarrow> event list" where
  "drop_events w err rs = concat (map (\<lambda>r. FinishEvent r # drop_notice w err r) rs)"

lemma notify_dropped_silent:
  "notify_dropped silent r err w = Done (w\<lparr>events := events w @ drop_notice w err r\<rparr>)"
  by (auto simp: notify_dropped_def drop_notice_def response_completed_def split: option.split)

lemma cleanup_request_silent:
  "requests (conn w i) = r # rs \<Longrightarrow>
     cleanup_request silent i w = Done ((popped i w)\<lparr>events := events w @ [FinishEvent r]\<rparr>)"
  by (auto simp: cleanup_request_def popped_def detach_def set_requests_def upd_conn_def
      upd_req_def fun_eq_iff)

lemma dropped_events: "dropped i (w\<lparr>events := es\<rparr>) = (dropped i w)\<lparr>events := es\<rparr>"
  by (simp add: dropped_def detach_def set_requests_def upd_conn_def cong: if_cong)

lemma popped_notice: "drop_notice (popped i w) err q = drop_notice w err q"
  by (auto simp: drop_notice_def response_completed_def popped_def split: option.split)

lemma events_notice: "drop_notice (w\<lparr>events := es\<rparr>) err q = drop_notice w err q"
  by (auto simp: drop_notice_def response_completed_def split: option.split)

lemma drop_loop_silent:
  "length (requests (conn w i)) \<le> n \<Longrightarrow>
   drop_loop silent i err n w =
     Done ((dropped i w)\<lparr>events := events w @ drop_events w err (requests (conn w i))\<rparr>)"
proof (induction n arbitrary: w)
  case 0
  then show ?case by (simp add: dropped_Nil drop_events_def)
next
  case (Suc n)
  show ?case
  proof (cases "requests (conn w i)")
    case Nil
    then show ?thesis by (simp add: dropped_Nil drop_events_def)
  next
    case (Cons r rs)
    define w2 where "w2 = (popped i w)\<lparr>events := events w @ FinishEvent r # drop_notice w err r\<rparr>"
    have "requests (conn w2 i) = rs" by (simp add: w2_def popped_def Cons)
    then have "drop_loop silent i err n w2 =
        Done ((dropped i w2)\<lparr>events := events w2 @ drop_events w2 err rs\<rparr>)"
      using Suc Cons by simp
    moreover have "drop_events w2 err rs = drop_events w err rs"
      by (simp add: drop_events_def w2_def popped_notice events_notice)
    moreover have "dropped i w2 = (dropped i w)\<lparr>events := events w2\<rparr>"
      by (simp add: w2_def dropped_events dropped_popped [OF Cons])
    ultimately show ?thesis
      using Cons
      by (simp add: cleanup_request_silent notify_dropped_silent popped_notice events_notice
          drop_events_def w2_def)
  qed
qed

text \<open>
  When a connection drops its requests, the queue is emptied, every request of it is detached
  from connection and server, and the user is told in the order of the queue: of each request that
  it is finished, and then that it failed if it was not yet received in full, or that it was
  dropped if its answer was not complete; a request that has been answered in full is only
  finished.
\<close>

lemma drop_requests_silent:
  "drop_requests silent i err w =
     Done ((dropped i w)\<lparr>events := events w @ drop_events w err (requests (conn w i))\<rparr>)"
  by (simp add: drop_requests_def drop_loop_silent)

section \<open>Closing a connection\<close>

definition unwatched :: "cid \<Rightarrow> world \<Rightarrow> world" where
  "unwatched i = stream_close i \<circ> stream_unlisten i \<circ> stop_timer i"

lemma unwatched_simps [simp]:
  "requests (conn (unwatched i w) j) = requests (conn w j)" "req (unwatched i w) = req w"
  "res (unwatched i w) = res w" "connections (unwatched i w) = connections w"
  "srv_state (unwatched i w) = srv_state w" "events (unwatched i w) = events w"
  "listeners (unwatched i w) = listeners w"
  "st_open (stream (conn (unwatched i w) j)) = (j \<noteq> i \<and> st_open (stream (conn w j)))"
  "st_listener (stream (conn (unwatched i w) j)) = (j \<noteq> i \<and> st_listener (stream (conn w j)))"
  "idle_timer (conn (unwatched i w) i) \<noteq> Some True"
  "j \<noteq> i \<Longrightarrow> conn (unwatched i w) j = conn w j"
  by (auto simp: unwatched_def upd_defs)

lemma dropped_simps [simp]:
  "conn (dropped i w) j = (if j = i then (conn w i)\<lparr>requests := []\<rparr> else conn w j)"
  "connections (dropped i w) = connections w" "srv_state (dropped i w) = srv_state w"
  "events (dropped i w) = events w" "listeners (dropped i w) = listeners w"
  "res (dropped i w) = res w"
  "req (dropped i w) r = (if r \<in> set (requests (conn w i))
     then (req w r)\<lparr>r_conn := None, r_server := False\<rparr> else req w r)"
  by (simp_all add: dropped_def detach_def set_requests_def)



end
