(* ===== verification/Stopping.thy ===== *)
theory Stopping
  imports Closing
begin

text \<open>
  The two ways in which the server stops, when the callbacks make no calls of their own: at once,
  by resetting every connection, and gracefully, by closing the idle connections and leaving the
  others until they have answered.
\<close>

section \<open>Stopping at once\<close>








definition released :: "connection \<Rightarrow> bool" where
  "released c \<longleftrightarrow> requests c = [] \<and> \<not> st_open (stream c) \<and> \<not> st_listener (stream c) \<and>
     idle_timer c \<noteq> Some True"





section \<open>Stopping gracefully\<close>

definition wind_down :: "connection \<Rightarrow> connection" where
  "wind_down c =
     (if requests c = [] then c\<lparr>stream := (stream c)\<lparr>st_open := False\<rparr>\<rparr> else c\<lparr>stopping := True\<rparr>)"

lemma graceful_stop_silent: "graceful_stop silent i w = Done (upd_conn i wind_down w)"
proof (cases "requests (conn w i) = []")
  case True
  define w1 where "w1 = stream_close i w"
  have "drop_requests silent i err w1 = Done w1" for err
    using True by (simp add: drop_requests_def w1_def stream_close_def upd_stream_def)
  then have "graceful_stop silent i w = Done w1"
    using True by (simp add: graceful_stop_def shutdown_def do_close_def flip: w1_def)
  then show ?thesis
    using True by (simp add: w1_def stream_close_def upd_stream_def wind_down_def upd_conn_def)
next
  case False
  then show ?thesis by (simp add: graceful_stop_def wind_down_def upd_conn_def)
qed

lemma wind_down_idem: "wind_down (wind_down c) = wind_down c"
  by (cases c; cases "stream c") (simp add: wind_down_def)

lemma run_graceful_stop:
  "\<exists>w'. run (map (graceful_stop silent) cs) w = Done w' \<and>
     (\<forall>i. conn w' i = (if i \<in> set cs then wind_down (conn w i) else conn w i)) \<and>
     req w' = req w \<and> res w' = res w \<and> connections w' = connections w \<and>
     srv_state w' = srv_state w \<and> listeners w' = listeners w \<and> events w' = events w"
proof (induction cs arbitrary: w)
  case Nil
  then show ?case by simp
next
  case (Cons j cs)
  obtain w' where w': "run (map (graceful_stop silent) cs) (upd_conn j wind_down w) = Done w'"
    "\<And>i. conn w' i = (if i \<in> set cs then wind_down (conn (upd_conn j wind_down w) i)
      else conn (upd_conn j wind_down w) i)"
    "req w' = req w" "res w' = res w" "connections w' = connections w" "srv_state w' = srv_state w"
    "listeners w' = listeners w" "events w' = events w"
    using Cons.IH [of "upd_conn j wind_down w"] by auto
  then show ?case
    by (intro exI [of _ w']) (simp add: graceful_stop_silent [of j w] wind_down_idem)
qed

text \<open>
  Stopping a running server gracefully closes the listeners and the connections that are idle and
  touches nothing of the others but that they are to end after their next answer; no request is
  dropped. The server is then stopping as long as it has connections, and stopped, the user being
  told, when it has none.
\<close>

theorem graceful_stop_spares_requests:
  assumes "srv_state w = Running"
  shows "\<exists>w'. server_graceful_stop silent w = Done w' \<and> listeners w' = [] \<and>
    req w' = req w \<and> res w' = res w \<and> connections w' = connections w \<and>
    (\<forall>i\<in>set (connections w). conn w' i =
      (if requests (conn w i) = [] then (conn w i)\<lparr>stream := (stream (conn w i))\<lparr>st_open := False\<rparr>\<rparr>
       else (conn w i)\<lparr>stopping := True\<rparr>)) \<and>
    (if connections w = [] then srv_state w' = Initial \<and> events w' = events w @ [StopEvent]
     else srv_state w' = Stopping \<and> events w' = events w)"
proof -
  define w1 where "w1 = stop_listening (w\<lparr>srv_state := Stopping\<rparr>)"
  have w1: "connections w1 = connections w" "conn w1 = conn w" "req w1 = req w" "res w1 = res w"
    "srv_state w1 = Stopping" "events w1 = events w" "listeners w1 = []"
    by (simp_all add: w1_def stop_listening_def)
  obtain w2 where w2: "run (map (graceful_stop silent) (sort (connections w))) w1 = Done w2"
    "\<And>i. conn w2 i = (if i \<in> set (connections w) then wind_down (conn w i) else conn w i)"
    "req w2 = req w" "res w2 = res w" "connections w2 = connections w" "srv_state w2 = Stopping"
    "events w2 = events w" "listeners w2 = []"
    using run_graceful_stop [of "sort (connections w)" w1] w1 by auto
  have eq: "server_graceful_stop silent w = stop_if_done silent w2"
    using assms w1(1) w2(1) by (simp add: server_graceful_stop_def flip: w1_def)
  show ?thesis
  proof (cases "connections w = []")
    case True
    then show ?thesis
      unfolding eq using w2
      by (intro exI [of _ "w2\<lparr>srv_state := Initial, events := events w2 @ [StopEvent]\<rparr>"])
        (simp add: stop_if_done_def)
  next
    case False
    then show ?thesis
      unfolding eq using w2
      by (intro exI [of _ w2]) (simp add: stop_if_done_def wind_down_def)
  qed
qed

theorem graceful_stop_spares_requests_witness:
  "\<exists>w'. server_graceful_stop silent ((demo_world 2)\<lparr>srv_state := Running\<rparr>) = Done w' \<and>
    srv_state w' = Stopping \<and> stopping (conn w' 1) \<and> requests (conn w' 1) = [0, 1]"
  using graceful_stop_spares_requests [of "(demo_world 2)\<lparr>srv_state := Running\<rparr>"]
  by (auto simp: demo_2)

text \<open>
  C8: While the server is stopping, the end of a connection removes it; the server becomes stopped,
  and says so, with the last one and not before.
\<close>

theorem last_connection_ends_stop:
  assumes "srv_state w = Stopping"
  shows "\<exists>w'. on_shutdown silent i err w = Done w' \<and>
    connections w' = filter (\<lambda>j. j \<noteq> i) (connections w) \<and> released (conn w' i) = (requests (conn w i) = [] \<and> \<not> st_open (stream (conn w i))) \<and>
    (if set (connections w) \<subseteq> {i} then srv_state w' = Initial \<and> events w' = events w @ [StopEvent]
     else srv_state w' = Stopping \<and> events w' = events w)"
proof -
  define w1 where "w1 = stream_unlisten i (stop_timer i w)"
  have w1: "srv_state w1 = Stopping" "connections w1 = connections w" "events w1 = events w"
    "released (conn w1 i) = (requests (conn w i) = [] \<and> \<not> st_open (stream (conn w i)))"
    using assms by (auto simp: w1_def upd_defs released_def)
  have empty: "filter (\<lambda>j. j \<noteq> i) (connections w) = [] \<longleftrightarrow> set (connections w) \<subseteq> {i}"
    by (auto simp: filter_empty_conv)
  show ?thesis
    using w1 empty
    by (auto simp: on_shutdown_def server_remove_def stop_if_done_def simp flip: w1_def)
qed

theorem last_connection_ends_stop_witness:
  "\<exists>w'. on_shutdown silent 1 NoError ((demo_world 2)\<lparr>srv_state := Stopping\<rparr>) = Done w' \<and>
    srv_state w' = Initial \<and> events w' = events (demo_world 2) @ [StopEvent]"
  using last_connection_ends_stop [of "(demo_world 2)\<lparr>srv_state := Stopping\<rparr>" 1 NoError]
  by (auto simp: demo_2)

end
