(* ===== verification/Listening.thy ===== *)
theory Listening
  imports Stopping
begin

text \<open>
  Configuring the server and listening: which listeners a configuration leads to, what an invalid
  configuration or an address that cannot be bound leaves behind, and the \<^verbatim>\<open>Date\<close> header cache.
\<close>

section \<open>Listening\<close>

text \<open>The locations up to the first that cannot be bound.\<close>

definition bindable :: "ext \<Rightarrow> location list \<Rightarrow> location list" where
  "bindable X locs = takeWhile (\<lambda>loc. x_bind_error X loc = None) locs"

definition listen_outcome :: "ext \<Rightarrow> location list \<Rightarrow> world \<Rightarrow> world outcome" where
  "listen_outcome X locs w =
     (case dropWhile (\<lambda>loc. x_bind_error X loc = None) locs of
        [] \<Rightarrow> Done w
      | loc # _ \<Rightarrow> Throw (the (x_bind_error X loc)) w)"

lemma listen_loop_outcome:
  "\<exists>w'. listen_loop X n locs w = listen_outcome X locs w' \<and>
     listeners w' = listeners w @ map (listener_of X) (bindable X locs) \<and>
     srv_state w' = srv_state w \<and> conn w' = conn w \<and> events w' = events w \<and>
     connections w' = connections w"
proof (induction X n locs w rule: listen_loop.induct)
  case (1 X n w)
  then show ?case by (simp add: bindable_def listen_outcome_def)
next
  case (2 X n loc locs w)
  define w1 where "w1 = w\<lparr>unlinked := unlinked w @ unlinks loc,
    srv_conf := (srv_conf w)\<lparr>cf_locations := (cf_locations (srv_conf w))[n := located X loc]\<rparr>\<rparr>"
  show ?case
  proof (cases "x_bind_error X loc")
    case (Some e)
    then show ?thesis
      by (intro exI [of _ w1]) (simp add: Let_def bindable_def listen_outcome_def flip: w1_def, simp add: w1_def)
  next
    case None
    from 2 [OF w1_def None] show ?thesis
      using None by (auto simp: Let_def bindable_def listen_outcome_def w1_def)
  qed
qed



section \<open>Configuration\<close>

definition valid_config :: "config \<Rightarrow> bool" where
  "valid_config conf \<longleftrightarrow>
     cf_locations conf \<noteq> [] \<and>
     (\<forall>loc\<in>set (cf_locations conf). loc_host loc \<noteq> '''' \<or> loc_path loc \<noteq> '''' \<or> loc_sock loc \<noteq> None)"

lemma check_config_valid: "check_config conf = None \<longleftrightarrow> valid_config conf"
  by (auto simp: check_config_def valid_config_def location_named_def list_all_iff)

text \<open>
  A configuration without locations, or with a location that names neither a host nor a path
  nor a socket, is refused with an exception before anything is changed: a running server keeps its
  configuration and its listeners.
\<close>

theorem configure_refuses:
  assumes "\<not> valid_config conf"
  shows "\<exists>msg. configure X conf w = Throw (HttpError msg) w"
proof -
  obtain e where e: "check_config conf = Some e"
    using assms check_config_valid [of conf] by auto
  then have "\<exists>msg. e = HttpError msg"
    by (auto simp: check_config_def split: if_splits)
  with e show ?thesis by (auto simp: configure_def)
qed

theorem configure_refuses_witness:
  "\<exists>msg. configure demo_ext (demo_conf\<lparr>cf_locations := []\<rparr>) (demo_world 2) =
     Throw (HttpError msg) (demo_world 2)"
  by (rule configure_refuses) (simp add: valid_config_def)

lemma normalize_config_valid:
  "valid_config (normalize_config conf) = valid_config conf"
  by (simp add: valid_config_def normalize_config_def normalize_location_fields)

lemma normalize_config_idem: "normalize_config (normalize_config conf) = normalize_config conf"
  by (simp add: normalize_config_def normalize_location_idem comp_def)

text \<open>
  A valid configuration given to a running server replaces the old listeners by those of the
  new locations; its locations have a backlog, and no delay if the configuration asks for that; the
  connections are not touched, and the server goes on running.
\<close>

theorem reconfigure_running:
  assumes "valid_config conf" and "srv_state w = Running"
    and "\<forall>loc\<in>set (cf_locations (normalize_config conf)). x_bind_error X loc = None"
  shows "\<exists>w'. configure X conf w = Done w' \<and>
    listeners w' = map (listener_of X) (cf_locations (normalize_config conf)) \<and>
    (\<forall>l\<in>set (listeners w'). l_backlog l \<noteq> 0) \<and>
    conn w' = conn w \<and> connections w' = connections w \<and> srv_state w' = Running \<and>
    events w' = events w"
proof -
  define w1 where "w1 = (stop_listening w)\<lparr>srv_conf := normalize_config conf\<rparr>"
  define locs where "locs = cf_locations (normalize_config conf)"
  have w1: "listeners w1 = []" "srv_state w1 = Running" "conn w1 = conn w" "events w1 = events w"
    "connections w1 = connections w" "srv_conf w1 = normalize_config conf"
    using assms(2) by (simp_all add: w1_def stop_listening_def)
  have "dropWhile (\<lambda>loc. x_bind_error X loc = None) locs = []"
    using assms(3) by (simp add: locs_def)
  then have all: "listen_outcome X locs v = Done v" "bindable X locs = locs" for v
    by (simp only: listen_outcome_def list.case) (use assms(3) in \<open>simp add: locs_def bindable_def\<close>)
  obtain w' where w': "listen_loop X 0 locs w1 = Done w'"
    "listeners w' = map (listener_of X) locs" "srv_state w' = Running" "conn w' = conn w"
    "events w' = events w" "connections w' = connections w"
    using listen_loop_outcome [of X 0 locs w1] w1 unfolding all by auto
  have "configure X conf w = start_listening X w1"
    using assms(1,2) check_config_valid [of conf] w1(2)
    by (simp add: configure_def flip: w1_def)
  also have "\<dots> = Done w'"
    using w1 w'(1) by (simp add: start_listening_def locs_def)
  finally have "configure X conf w = Done w'" .
  moreover have "l_backlog (listener_of X loc) = loc_backlog loc" for loc
    by (simp add: listener_of_def pipe_listener_def tcp_listener_def split: option.split)
  then have "\<forall>l\<in>set (listeners w'). l_backlog l \<noteq> 0"
    by (auto simp: w'(2) locs_def normalize_config_def normalize_location_fields)
  ultimately show ?thesis
    using w' by (intro exI [of _ w']) (simp add: locs_def)
qed

theorem reconfigure_running_witness:
  "\<exists>w'. configure demo_ext demo_conf ((demo_world 2)\<lparr>srv_state := Running\<rparr>) = Done w' \<and>
    map l_port (listeners w') = [8080] \<and> connections w' = [1]"
  using reconfigure_running [of demo_conf "(demo_world 2)\<lparr>srv_state := Running\<rparr>" demo_ext]
  by (auto simp: demo_2 valid_config_def demo_conf_def demo_location_def default_config_def
      default_location_def demo_ext_def normalize_config_def normalize_location_def Let_def
      listener_of_def tcp_listener_def DEFAULT_BACKLOG_def)

text \<open>
  Normalising a configuration a second time changes nothing, and it changes nothing of what
  makes a configuration valid.
\<close>

theorem normalize_config_stable:
  "normalize_config (normalize_config conf) = normalize_config conf \<and>
   check_config (normalize_config conf) = check_config conf"
proof -
  have "list_all location_named (map (normalize_location b) ls) = list_all location_named ls" for b ls
    by (simp add: list_all_iff location_named_normalize)
  then show ?thesis
    by (simp add: normalize_config_idem) (simp add: check_config_def normalize_config_def)
qed

section \<open>Running\<close>

text \<open>
  A server runs only from its initial state: otherwise the call fails and nothing is changed.
  When it runs, it listens on its locations and the user is told; if an address cannot be bound, the
  exception reaches the caller, the user is not told, and the server counts as running.
\<close>

theorem server_run_result:
  "(srv_state w \<noteq> Initial \<longrightarrow>
      server_run X silent w = Throw (HttpError ''server is already running'') w) \<and>
   (srv_state w = Initial \<and> listeners w = [] \<longrightarrow>
      (case dropWhile (\<lambda>loc. x_bind_error X loc = None) (cf_locations (srv_conf w)) of
         [] \<Rightarrow> (\<exists>w'. server_run X silent w = Done w' \<and> srv_state w' = Running \<and>
           listeners w' = map (listener_of X) (cf_locations (srv_conf w)) \<and>
           events w' = events w @ [RunEvent])
       | loc # _ \<Rightarrow> (\<exists>w'. server_run X silent w = Throw (the (x_bind_error X loc)) w' \<and>
           srv_state w' = Running \<and> events w' = events w)))"
proof -
  define w1 where "w1 = w\<lparr>srv_state := Running\<rparr>"
  define locs where "locs = cf_locations (srv_conf w)"
  obtain w' where w': "listen_loop X 0 locs w1 = listen_outcome X locs w'"
    "listeners w' = listeners w @ map (listener_of X) (bindable X locs)" "srv_state w' = Running"
    "events w' = events w"
    using listen_loop_outcome [of X 0 locs w1] by (auto simp: w1_def)
  have run: "server_run X silent w = run [start_listening X, fire silent RunEvent] w1"
    if "srv_state w = Initial"
    using that by (simp add: server_run_def w1_def)
  have listen: "start_listening X w1 = listen_outcome X locs w'" if "listeners w = []"
    using that w'(1) by (simp add: start_listening_def w1_def locs_def)
  have refused: "srv_state w \<noteq> Initial \<longrightarrow>
      server_run X silent w = Throw (HttpError ''server is already running'') w"
    by (simp add: server_run_def)
  show ?thesis
  proof (cases "dropWhile (\<lambda>loc. x_bind_error X loc = None) locs")
    case Nil
    then have "bindable X locs = locs" by (simp add: bindable_def)
    moreover have "listen_outcome X locs w' = Done w'"
      by (simp only: listen_outcome_def Nil list.case)
    then have "server_run X silent w = Done (w'\<lparr>events := events w' @ [RunEvent]\<rparr>)"
      if "srv_state w = Initial" "listeners w = []"
      using run [OF that(1)] listen [OF that(2)] by simp
    ultimately show ?thesis
      using refused w'(2-) unfolding locs_def [symmetric] Nil list.case by fastforce
  next
    case (Cons loc ls)
    have "listen_outcome X locs w' = Throw (the (x_bind_error X loc)) w'"
      by (simp only: listen_outcome_def Cons list.case)
    then have "server_run X silent w = Throw (the (x_bind_error X loc)) w'"
      if "srv_state w = Initial" "listeners w = []"
      using run [OF that(1)] listen [OF that(2)] by simp
    then show ?thesis
      using refused w'(2-) unfolding locs_def [symmetric] Cons list.case by blast
  qed
qed

theorem server_run_result_witness:
  "\<exists>w'. server_run demo_ext silent (new_server demo_conf) = Done w' \<and> srv_state w' = Running \<and>
    map l_port (listeners w') = [8080] \<and> events w' = [RunEvent]"
  using server_run_result [of "new_server demo_conf" demo_ext]
  by (auto simp: new_server_def demo_conf_def demo_location_def default_config_def demo_ext_def
      listener_of_def tcp_listener_def default_location_def)

section \<open>The \<^verbatim>\<open>Date\<close> header\<close>

text \<open>
  C11: The text given for the \<^verbatim>\<open>Date\<close> header is less than a second old by the clock of the loop: if the
  cached one is older, or there is none, it is made anew from the time of this moment, otherwise
  nothing is changed.
\<close>

theorem date_header_fresh:
  assumes "1000 \<le> x_now X" and "date_header_now X w = Done w'"
  shows "x_now X - 1000 < hdate_time w' \<and>
    (if date_stale X w then rfc822_date (x_gmtime X) = Some (hdate_str w') else w' = w)"
proof -
  have "x_now X - 1000 < x_now X"
    using assms(1) by (simp add: word_less_nat_alt word_le_nat_alt unat_sub)
  with assms(2) show ?thesis
    by (auto simp: date_header_now_def date_stale_def split: if_splits option.splits)
qed

theorem date_header_fresh_witness:
  "\<exists>w'. date_header_now demo_ext (new_server demo_conf) = Done w' \<and> 4000 < hdate_time w'"
proof -
  obtain w' where w': "date_header_now demo_ext (new_server demo_conf) = Done w'"
    using date_header_now_done [of demo_ext "new_server demo_conf"]
    by (metis clock_ok_def demo_clock)
  have "1000 \<le> x_now demo_ext" by (simp add: demo_ext_def)
  from date_header_fresh [OF this w'] w' show ?thesis by (simp add: demo_ext_def)
qed

end
