(* ===== verification/Chronicle.thy ===== *)
theory Chronicle
  imports Listening
begin

text \<open>
  What never changes once it has happened: data written to a stream are not taken back, a closed
  stream does not open again, a request keeps its response, a response that is complete stays so,
  and a request that has left its connection does not return. Every call of the library respects
  this order of worlds, provided the callbacks do.
\<close>

section \<open>The order\<close>

definition evolves :: "world \<Rightarrow> world \<Rightarrow> bool" where
  "evolves w w' \<longleftrightarrow>
     next_rid w \<le> next_rid w' \<and> next_sid w \<le> next_sid w' \<and> lastid w \<le> lastid w' \<and>
     (\<exists>es. events w' = events w @ es) \<and>
     (\<forall>r<next_rid w.
        (\<forall>s. r_resp (req w r) = Some s \<longrightarrow> r_resp (req w' r) = Some s) \<and>
        (r_conn (req w r) = None \<longrightarrow> r_conn (req w' r) = None) \<and>
        (r_routed (req w r) \<longrightarrow> r_routed (req w' r))) \<and>
     (\<forall>s<next_sid w. s_completed (res w s) \<longrightarrow> s_completed (res w' s)) \<and>
     (\<forall>i\<le>lastid w.
        (\<exists>ws. st_out (stream (conn w' i)) = st_out (stream (conn w i)) @ ws) \<and>
        (\<not> st_open (stream (conn w i)) \<longrightarrow> \<not> st_open (stream (conn w' i)) \<and>
           st_out (stream (conn w' i)) = st_out (stream (conn w i))) \<and>
        (closing (conn w i) \<longrightarrow> closing (conn w' i)))"

lemma evolves_refl [simp]: "evolves w w"
  by (simp add: evolves_def)

lemma evolves_trans:
  assumes "evolves a b" and "evolves b c"
  shows "evolves a c"
proof -
  have "\<exists>es. events c = events a @ es"
    using assms unfolding evolves_def by (metis append.assoc)
  moreover have "\<exists>ws. st_out (stream (conn c i)) = st_out (stream (conn a i)) @ ws"
    if "i \<le> lastid a" for i
  proof -
    have "i \<le> lastid b" using assms(1) that by (auto simp: evolves_def)
    then show ?thesis using assms that unfolding evolves_def by (metis append.assoc)
  qed
  ultimately show ?thesis
    using assms unfolding evolves_def by (smt (verit) order_less_le_trans order_trans)
qed

lemma evolves_events [simp]: "evolves w (w\<lparr>events := events w @ es\<rparr>)"
  by (simp add: evolves_def)

lemma evolves_upd_conn:
  assumes "st_out (stream (f (conn w i))) = st_out (stream (conn w i))"
    and "st_open (stream (f (conn w i))) \<longrightarrow> st_open (stream (conn w i))"
    and "closing (conn w i) \<longrightarrow> closing (f (conn w i))"
  shows "evolves w (upd_conn i f w)"
  using assms by (auto simp: evolves_def)

lemma evolves_upd_req:
  assumes "\<And>s. r_resp (req w r) = Some s \<Longrightarrow> r_resp (f (req w r)) = Some s"
    and "r_conn (req w r) = None \<Longrightarrow> r_conn (f (req w r)) = None"
    and "r_routed (req w r) \<Longrightarrow> r_routed (f (req w r))"
  shows "evolves w (upd_req r f w)"
  using assms by (auto simp: evolves_def)

lemma evolves_upd_res:
  assumes "s_completed (res w s) \<Longrightarrow> s_completed (f (res w s))"
  shows "evolves w (upd_res s f w)"
  using assms by (auto simp: evolves_def)

lemma evolves_stream_write: "evolves w (stream_write X i x w)"
  by (auto simp: evolves_def stream_write_def upd_stream_def)

lemma evolves_write_chunks: "evolves w (write_chunks X i s xs w)"
  by (induction xs arbitrary: w) (auto intro: evolves_trans evolves_stream_write)

lemma evolves_same:
  assumes "conn w' = conn w" "req w' = req w" "res w' = res w" "next_rid w' = next_rid w"
    "next_sid w' = next_sid w" "lastid w' = lastid w" "events w' = events w"
  shows "evolves w w'"
  by (simp add: evolves_def assms)

lemma evolves_new_response: "evolves w (new_response p w)"
  by (auto simp: evolves_def new_response_def)

lemma evolves_new_request: "evolves w (new_request i w)"
  by (auto simp: evolves_def new_request_def)

section \<open>Calls that respect it\<close>

definition chronic :: "world call \<Rightarrow> bool" where
  "chronic f \<longleftrightarrow> (\<forall>w. outcome_all UNIV (evolves w) (evolves w) (f w))"

named_theorems chronic_intros "calls that respect the order of worlds"

lemma chronicD: "chronic f \<Longrightarrow> outcome_all UNIV (evolves w) (evolves w) (f w)"
  by (simp add: chronic_def)

lemma chronic_after:
  assumes "chronic f" and "evolves w0 w"
  shows "outcome_all UNIV (evolves w0) (evolves w0) (f w)"
  using assms evolves_trans [OF assms(2)] by (auto simp: chronic_def intro: post_mono)

lemma chronic_run_list [chronic_intros]:
  "chronic (run [])"
  "chronic f \<Longrightarrow> chronic (run fs) \<Longrightarrow> chronic (run (f # fs))"
proof -
  show "chronic (run [])" by (simp add: chronic_def)
  assume f: "chronic f" and fs: "chronic (run fs)"
  have "outcome_all UNIV (evolves w) (evolves w) (run (f # fs) w)" for w
    by (rule post_run_Cons [where P = "evolves w"], rule chronicD [OF f], rule chronic_after [OF fs])
  then show "chronic (run (f # fs))" by (simp add: chronic_def del: run.simps)
qed

lemma chronic_run: "(\<And>f. f \<in> set fs \<Longrightarrow> chronic f) \<Longrightarrow> chronic (run fs)"
  by (induction fs) (auto intro: chronic_run_list)

lemma chronic_pure [chronic_intros]: "(\<And>w. evolves w (g w)) \<Longrightarrow> chronic (pure_step g)"
  by (simp add: chronic_def)

lemma chronic_when [chronic_intros]: "chronic f \<Longrightarrow> chronic (when_step b f)"
  by (simp add: chronic_def when_step_def)

lemma chronic_Done [chronic_intros]: "(\<And>w. evolves w (g w)) \<Longrightarrow> chronic (\<lambda>w. Done (g w))"
  by (simp add: chronic_def)

lemma chronic_Throw [chronic_intros]: "chronic (\<lambda>w. Throw e w)"
  by (simp add: chronic_def)

lemma chronic_Crash [chronic_intros]: "chronic (\<lambda>w. Crash x)"
  by (simp add: chronic_def)

section \<open>The methods of the connection\<close>

locale chronic_callbacks =
  fixes cb :: callbacks
  assumes cb_chronic: "chronic (cb ev)"
begin

lemma fire_chronic [chronic_intros]: "chronic (fire cb ev)"
  unfolding chronic_def fire_def
  by (intro allI chronic_after [OF cb_chronic]) simp

lemma stop_if_done_chronic: "chronic (stop_if_done cb)"
  unfolding chronic_def
  by (auto simp: stop_if_done_def intro!: chronic_after [OF fire_chronic] evolves_same)

lemma server_remove_chronic: "chronic (server_remove cb i)"
  unfolding server_remove_def [abs_def]
  by (intro chronic_intros stop_if_done_chronic) (simp add: evolves_same)

lemma cleanup_request_chronic: "chronic (cleanup_request cb i)"
proof -
  have "outcome_all UNIV (evolves w) (evolves w) (cleanup_request cb i w)" for w
  proof (cases "requests (conn w i)")
    case (Cons r rs)
    have "evolves w (upd_conn i (\<lambda>c. c\<lparr>requests := rs\<rparr>)
        (upd_req r (\<lambda>q. q\<lparr>r_conn := None, r_server := False\<rparr>) w))"
      by (rule evolves_trans [OF evolves_upd_req evolves_upd_conn]) simp_all
    from chronic_after [OF fire_chronic this] Cons show ?thesis
      by (simp add: cleanup_request_def)
  qed (simp add: cleanup_request_def)
  then show ?thesis by (simp add: chronic_def)
qed

lemma notify_dropped_chronic: "chronic (notify_dropped cb r err)"
  unfolding chronic_def
  by (auto simp: notify_dropped_def chronicD [OF fire_chronic] split: option.split)

lemma drop_loop_chronic: "chronic (drop_loop cb i err n)"
proof (induction n)
  case 0
  then show ?case by (simp add: chronic_def)
next
  case (Suc n)
  have "chronic (run [cleanup_request cb i, notify_dropped cb r err, drop_loop cb i err n])" for r
    by (intro chronic_intros cleanup_request_chronic notify_dropped_chronic Suc)
  from chronicD [OF this] show ?case
    by (simp add: chronic_def del: run.simps split: list.split)
qed

lemma drop_requests_chronic: "chronic (drop_requests cb i err)"
  unfolding chronic_def drop_requests_def by (intro allI chronicD drop_loop_chronic)

lemma evolves_stream_close: "evolves w (stream_close i w)"
  unfolding stream_close_def upd_stream_def by (rule evolves_upd_conn) simp_all

lemma evolves_stream_unlisten: "evolves w (stream_unlisten i w)"
  unfolding stream_unlisten_def upd_stream_def by (rule evolves_upd_conn) simp_all

lemma evolves_stop_timer: "evolves w (stop_timer i w)"
  unfolding stop_timer_def by (rule evolves_upd_conn) simp_all

lemma evolves_read_ignore: "evolves w (read_ignore i w)"
  unfolding read_ignore_def upd_stream_def by (rule evolves_upd_conn) simp_all

lemma do_close_chronic: "chronic (do_close cb i err soft)"
  unfolding do_close_def [abs_def]
proof (intro chronic_intros drop_requests_chronic server_remove_chronic)
  fix w
  show "evolves w ((if soft then stream_close i
      else stream_close i \<circ> stream_unlisten i \<circ> stop_timer i) w)"
    using evolves_trans [OF evolves_trans [OF evolves_stop_timer evolves_stream_unlisten]
        evolves_stream_close] evolves_stream_close
    by simp
qed

lemma close_chronic: "chronic (close cb i err)"
  by (simp add: close_def do_close_chronic)

lemma shutdown_chronic: "chronic (shutdown cb i err)"
  by (simp add: shutdown_def do_close_chronic)

lemma graceful_stop_chronic: "chronic (graceful_stop cb i)"
  unfolding chronic_def
  by (auto simp: graceful_stop_def chronicD [OF shutdown_chronic] intro: evolves_upd_conn)

lemma check_if_idle_chronic: "chronic (check_if_idle i)"
  unfolding chronic_def
  by (auto simp: check_if_idle_def intro!: evolves_upd_conn split: option.split)

lemma date_header_now_chronic: "chronic (date_header_now X)"
proof -
  have "outcome_all UNIV (evolves w) (evolves w) (date_header_now X w)" for w
    by (rule date_header_now_cases [of X w]) (simp_all add: evolves_same)
  then show ?thesis by (simp add: chronic_def)
qed

lemma fill_defaults_chronic: "chronic (fill_defaults X s)"
  unfolding fill_defaults_def [abs_def]
  by (intro chronic_intros date_header_now_chronic) (auto intro: evolves_upd_res)

lemma stop_accepting_chronic: "chronic (stop_accepting cb i r)"
  unfolding stop_accepting_def drop_pipelined_def
  by (intro chronic_intros drop_requests_chronic)
    (auto intro: evolves_upd_conn evolves_read_ignore)

lemma finish_with_chronic:
  assumes "chronic next"
  shows "chronic (finish_with cb i next)"
proof -
  have after: "chronic (\<lambda>w. if closing (conn w i) \<or> stopping (conn w i) then
        (if requests (conn w i) \<noteq> [] then Crash AssertFailed else shutdown cb i NoError w)
      else (case requests (conn w i) of
              [] \<Rightarrow> check_if_idle i w
            | r' # _ \<Rightarrow> if r_resp (req w r') \<noteq> None then next w else Done w))"
    unfolding chronic_def
    by (auto simp: chronicD [OF shutdown_chronic] chronicD [OF check_if_idle_chronic]
        chronicD [OF assms] split: list.split)
  have run: "outcome_all UNIV (evolves w) (evolves w) (run [cleanup_request cb i,
      \<lambda>w. if closing (conn w i) \<or> stopping (conn w i) then
        (if requests (conn w i) \<noteq> [] then Crash AssertFailed else shutdown cb i NoError w)
      else (case requests (conn w i) of
              [] \<Rightarrow> check_if_idle i w
            | r' # _ \<Rightarrow> if r_resp (req w r') \<noteq> None then next w else Done w)] w)" for w
    by (intro chronicD chronic_intros cleanup_request_chronic after)
  have fin: "evolves w (upd_req r (\<lambda>q. q\<lparr>r_fin := True\<rparr>) w)" for w r
    by (rule evolves_upd_req) simp_all
  show ?thesis
    unfolding chronic_def finish_with_def
    using run fin by (simp del: run.simps split: list.split option.split)
qed

lemma write_with_chronic:
  assumes "chronic finish"
  shows "chronic (write_with X cb i finish)"
proof -
  have rest: "chronic (run [pure_step (write_head X i r s), when_step (\<lambda>_. b) (stop_accepting cb i r),
      \<lambda>w. if \<not> s_completed (res w s) then Done (write_chunks X i s tmp w) else finish w])"
    for r s b tmp
  proof (intro chronic_intros stop_accepting_chronic)
    show "evolves w (write_head X i r s w)" for w
      by (simp add: write_head_def evolves_stream_write)
    show "chronic (\<lambda>w. if \<not> s_completed (res w s) then Done (write_chunks X i s tmp w) else finish w)"
      using assms by (simp add: chronic_def evolves_write_chunks)
  qed
  have "outcome_all UNIV (evolves w) (evolves w) (write_with X cb i finish w)" for w
  proof (cases "\<exists>r rs s. requests (conn w i) = r # rs \<and> r_resp (req w r) = Some s")
    case False
    then show ?thesis by (auto simp: write_with_def split: list.split option.split)
  next
    case True
    then obtain r rs s where rs: "requests (conn w i) = r # rs" "r_resp (req w r) = Some s" by blast
    show ?thesis
    proof (cases "fill_defaults X s w")
      case (Done w1)
      then have w1: "evolves w w1"
        using chronicD [OF fill_defaults_chronic, of w X s] by simp
      have "evolves w1 (upd_res s (\<lambda>p. p\<lparr>s_body := []\<rparr>) w1)" by (rule evolves_upd_res) simp
      from evolves_trans [OF w1 this] w1 Done rs show ?thesis
        by (simp add: write_with_def Let_def chronic_after [OF rest] del: run.simps)
    next
      case (Throw e w1)
      then show ?thesis
        using rs chronicD [OF fill_defaults_chronic, of w X s] by (simp add: write_with_def)
    next
      case (Crash x)
      then show ?thesis using rs by (simp add: write_with_def)
    qed
  qed
  then show ?thesis by (simp add: chronic_def)
qed

lemma write_next_response_chronic: "chronic (write_next_response X cb i n)"
proof (induction n)
  case 0
  then show ?case by (simp add: chronic_def)
next
  case (Suc n)
  from chronicD [OF write_with_chronic [OF finish_with_chronic [OF Suc]]] show ?case
    by (simp add: chronic_def)
qed

lemma finish_request_chronic: "chronic (finish_request X cb i)"
  unfolding chronic_def finish_request_def
  by (intro allI chronicD finish_with_chronic write_next_response_chronic)

lemma respond_chronic: "chronic (respond X cb i r s)"
proof -
  have completed: "evolves w (mark_completed s w)" for w
    unfolding mark_completed_def by (rule evolves_upd_res) simp
  have keep: "evolves w (if stopping (conn w i) then upd_res s (\<lambda>p. p\<lparr>s_keep := False\<rparr>) w else w)" for w
    by (auto intro: evolves_upd_res)
  have processed: "evolves w (upd_conn i (\<lambda>c. c\<lparr>requests_processed := requests_processed c + 1\<rparr>) w)" for w
    by (rule evolves_upd_conn) simp_all
  have last: "chronic (\<lambda>w. case requests (conn w i) of
       [] \<Rightarrow> Crash FrontOfEmpty
     | f # _ \<Rightarrow> if f = r then write_next_response X cb i (length (requests (conn w i))) w else Done w)"
    unfolding chronic_def
    by (simp add: chronicD [OF write_next_response_chronic] del: write_next_response.simps
        split: list.split)
  have rest: "chronic (run [pure_step (upd_conn i (\<lambda>c. c\<lparr>requests_processed := requests_processed c + 1\<rparr>)),
         when_step (keepalive_limit_hit i) (graceful_stop cb i),
         pure_step (\<lambda>w. if stopping (conn w i) then upd_res s (\<lambda>p. p\<lparr>s_keep := False\<rparr>) w else w),
         pure_step (mark_completed s),
         \<lambda>w. case requests (conn w i) of
               [] \<Rightarrow> Crash FrontOfEmpty
             | f # _ \<Rightarrow> if f = r
                 then write_next_response X cb i (length (requests (conn w i))) w
                 else Done w])"
    by (intro chronic_run_list chronic_pure chronic_when graceful_stop_chronic completed keep
        processed last)
  have link: "evolves w (link_response r s w)" if "r_resp (req w r) = None" for w
    unfolding link_response_def
    by (rule evolves_trans [OF evolves_upd_req evolves_upd_res]) (simp_all add: that)
  have "outcome_all UNIV (evolves w) (evolves w) (respond X cb i r s w)" for w
  proof (cases "r_conn (req w r) = Some i \<and> r_resp (req w r) = None")
    case False
    then show ?thesis by (auto simp: respond_def)
  next
    case True
    then have "respond X cb i r s w = run [pure_step (upd_conn i (\<lambda>c. c\<lparr>requests_processed := requests_processed c + 1\<rparr>)),
         when_step (keepalive_limit_hit i) (graceful_stop cb i),
         pure_step (\<lambda>w. if stopping (conn w i) then upd_res s (\<lambda>p. p\<lparr>s_keep := False\<rparr>) w else w),
         pure_step (mark_completed s),
         \<lambda>w. case requests (conn w i) of
               [] \<Rightarrow> Crash FrontOfEmpty
             | f # _ \<Rightarrow> if f = r
                 then write_next_response X cb i (length (requests (conn w i))) w
                 else Done w] (link_response r s w)"
      by (simp add: respond_def)
    with True show ?thesis
      by (simp only: chronic_after [OF rest link])
  qed
  then show ?thesis by (simp add: chronic_def)
qed

lemma send_continue_chronic: "chronic (send_continue X i r)"
  unfolding chronic_def by (auto simp: send_continue_def evolves_stream_write split: list.split)

lemma send_chunk_chronic: "chronic (send_chunk X i s x)"
  unfolding chronic_def
  by (auto simp: send_chunk_def intro!: evolves_upd_res evolves_stream_write split: list.split)

lemma send_final_chunk_chronic: "chronic (send_final_chunk X cb i s x)"
proof -
  have complete: "evolves w (upd_res s (\<lambda>p. p\<lparr>s_completed := True\<rparr>) w)" for w
    by (rule evolves_upd_res) simp
  have "chronic (\<lambda>w. if r_resp (req w f) \<noteq> Some s then Done w
      else finish_request X cb i (stream_write X i (Final s x) w))" for f
    unfolding chronic_def
    by (auto intro: chronic_after [OF finish_request_chronic] evolves_stream_write)
  then have "chronic (run [pure_step (upd_res s (\<lambda>p. p\<lparr>s_completed := True\<rparr>)),
      \<lambda>w. if r_resp (req w f) \<noteq> Some s then Done w
          else finish_request X cb i (stream_write X i (Final s x) w)])" for f
    by (intro chronic_run_list chronic_pure complete)
  from chronicD [OF this] show ?thesis
    by (simp add: chronic_def send_final_chunk_def del: run.simps split: list.split)
qed

lemma upgrade_chronic: "chronic (upgrade cb i r)"
proof -
  have "chronic (run [pure_step (stream_unlisten i), pure_step (set_timer i None),
      cleanup_request cb i, server_remove cb i])"
    by (intro chronic_run_list chronic_pure cleanup_request_chronic server_remove_chronic
        evolves_stream_unlisten) (rule evolves_upd_conn; simp)
  from chronicD [OF this] show ?thesis
    by (simp add: chronic_def upgrade_def del: run.simps)
qed

section \<open>Events of the stream\<close>

lemma request_error_chronic: "chronic (request_error X cb i r err)"
proof -
  have fire: "chronic (\<lambda>w. if r_partial (req w r) then fire cb (PartialEvent r err) w
      else fire cb (ErrorEvent r err) w)"
    by (simp add: chronic_def chronicD [OF fire_chronic])
  have new: "chronic (\<lambda>w. Done (new_response (p w) w))" for p
    by (simp add: chronic_def evolves_new_response)
  have default: "chronic (default_error_response X 400)"
    unfolding default_error_response_def [abs_def]
    by (intro chronic_run_list date_header_now_chronic new)
  have "chronic (run [default_error_response X 400, respond X cb i r s])" for s
    by (intro chronic_run_list default respond_chronic)
  moreover have "evolves w (upd_res s (\<lambda>p. p\<lparr>s_keep := False\<rparr>) w)" for w s
    by (rule evolves_upd_res) simp
  ultimately have last: "chronic (\<lambda>w. case r_resp (req w r) of
      None \<Rightarrow> run [default_error_response X 400, respond X cb i r (next_sid w)] w
    | Some s \<Rightarrow> Done (if s_keep (res w s) then upd_res s (\<lambda>p. p\<lparr>s_keep := False\<rparr>) w else w))"
    unfolding chronic_def by (simp del: run.simps split: option.split)
  show ?thesis
    unfolding request_error_def [abs_def]
    by (intro chronic_run_list chronic_pure fire last evolves_read_ignore)
qed

lemma evolves_receive: "evolves w (snd (receive_result i p w))"
proof -
  have take_ev: "evolves w (take_result i p w)" for w
  proof -
    have "evolves w (upd_conn i (\<lambda>c. c\<lparr>cur := Some (next_rid w)\<rparr>) (new_request i w))"
      by (rule evolves_trans [OF evolves_new_request evolves_upd_conn]) simp_all
    moreover have "evolves v (upd_req r (parsed_into p) v)" for v r
      by (rule evolves_upd_req) (simp_all add: parsed_into_def)
    ultimately show ?thesis
      by (simp add: take_result_def Let_def evolves_trans)
  qed
  have enqueue: "evolves w (enqueue_request i r w)" for w r
    by (auto simp: enqueue_request_def intro: evolves_upd_conn)
  have done_ev: "evolves w (upd_req r (\<lambda>q. q\<lparr>r_done := d\<rparr>) w)" for w r d
    by (rule evolves_upd_req) simp_all
  show ?thesis
    unfolding receive_result_def Let_def snd_conv
    by (rule evolves_trans [OF evolves_trans [OF evolves_trans [OF evolves_stop_timer take_ev]
            enqueue] done_ev])
qed

lemma route_chronic: "chronic (route cb r)"
proof -
  have "evolves w (upd_req r (\<lambda>q. q\<lparr>r_routed := True, r_server := True\<rparr>) w)" for w
    by (rule evolves_upd_req) simp_all
  from chronic_after [OF fire_chronic this] show ?thesis
    unfolding route_def by (intro chronic_when) (simp add: chronic_def)
qed

lemma deliver_chronic: "chronic (deliver cb r st)"
proof -
  have "chronic (run [fire cb (ReceiveEvent r), fire cb (RequestEvent r)])"
    by (intro chronic_run_list fire_chronic)
  from chronicD [OF this] chronicD [OF fire_chronic] show ?thesis
    by (simp add: chronic_def deliver_def del: run.simps)
qed

lemma read_loop_chronic: "chronic (read_loop X cb i ps)"
proof (induction ps)
  case Nil
  then show ?case by (simp add: chronic_def)
next
  case (Cons p ps)
  have fin: "chronic (run [finish_request X cb i, read_loop X cb i ps])"
    by (intro chronic_run_list finish_request_chronic Cons)
  have last: "chronic (\<lambda>w. if pr_state p = StDone then
               (if r_fin (req w r) then run [finish_request X cb i, read_loop X cb i ps] w
                else if closing (conn w i) \<or> \<not> r_keep (req w r) then Done (read_ignore i w)
                else read_loop X cb i ps w)
             else read_loop X cb i ps w)" for r
    using chronicD [OF fin] chronicD [OF Cons] evolves_read_ignore
    by (simp add: chronic_def del: run.simps)
  have main: "chronic (run [route cb r, deliver cb r (pr_state p),
         \<lambda>w. if pr_state p = StDone then
               (if r_fin (req w r) then run [finish_request X cb i, read_loop X cb i ps] w
                else if closing (conn w i) \<or> \<not> r_keep (req w r) then Done (read_ignore i w)
                else read_loop X cb i ps w)
             else read_loop X cb i ps w])" for r
    by (intro chronic_run_list route_chronic deliver_chronic last)
  have up: "chronic (run [request_error X cb i r (HttpErrc upgrade_in_pipeline), pure_step (read_ignore i)])" for r
    by (intro chronic_run_list chronic_pure request_error_chronic evolves_read_ignore)
  have "outcome_all UNIV (evolves w) (evolves w) (read_loop X cb i (p # ps) w)" for w
  proof -
    obtain r w1 where rec: "receive_result i p w = (r, w1)" by fastforce
    have "evolves w w1" using evolves_receive [of w i p] rec by simp
    then show ?thesis
      using rec
      by (simp add: chronic_after [OF main] chronic_after [OF up]
          chronic_after [OF request_error_chronic] del: run.simps)
  qed
  then show ?case by (simp add: chronic_def)
qed

lemma evolves_fail_request: "evolves w (fail_request i w)"
proof -
  have "evolves w (upd_conn i (\<lambda>c. c\<lparr>requests := requests c @ [n]\<rparr>) (new_request i w))" for w n
    by (rule evolves_trans [OF evolves_new_request evolves_upd_conn]) simp_all
  then have queue: "evolves w (if b then upd_conn i (\<lambda>c. c\<lparr>requests := requests c @ [n]\<rparr>)
      (new_request i w) else w)" for w n b
    by simp
  have received: "evolves w (upd_req r (\<lambda>q. q\<lparr>r_done := True\<rparr>) w)" for w r
    by (rule evolves_upd_req) simp_all
  show ?thesis
    unfolding fail_request_def Let_def
    by (rule evolves_trans [OF evolves_trans [OF evolves_stop_timer queue] received])
qed

lemma on_read_chronic: "chronic (on_read X cb i buf err)"
  using chronic_after [OF request_error_chronic evolves_fail_request] chronicD [OF read_loop_chronic]
  by (simp add: chronic_def on_read_def on_read_error_eq)

lemma on_write_chronic: "chronic (on_write cb i err wq)"
proof -
  have "evolves w (upd_stream i (\<lambda>st. st\<lparr>st_wqueue := wq\<rparr>) w)" for w
    unfolding upd_stream_def by (rule evolves_upd_conn) simp_all
  then show ?thesis
    by (simp add: chronic_def on_write_def Let_def chronic_after [OF close_chronic]
        chronic_after [OF check_if_idle_chronic])
qed

lemma on_shutdown_chronic: "chronic (on_shutdown cb i err)"
  unfolding on_shutdown_def [abs_def] comp_def
  by (intro chronic_run_list chronic_pure server_remove_chronic)
    (rule evolves_trans [OF evolves_stop_timer evolves_stream_unlisten])

lemma on_idle_timer_chronic: "chronic (on_idle_timer cb i)"
  by (simp add: chronic_def on_idle_timer_def Let_def chronic_after [OF close_chronic]
      evolves_stop_timer)

section \<open>The server\<close>

lemma listen_loop_chronic: "chronic (listen_loop X n locs)"
proof -
  have "outcome_all UNIV (evolves w) (evolves w) (listen_loop X n locs w)" for w
  proof (induction X n locs w rule: listen_loop.induct)
    case (1 X n w)
    then show ?case by simp
  next
    case (2 X n loc locs w)
    have same: "evolves w (w\<lparr>unlinked := u, srv_conf := cf\<rparr>)"
      "evolves w (w\<lparr>unlinked := u, srv_conf := cf, listeners := ls\<rparr>)" for u cf ls
      by (rule evolves_same; simp)+
    have later: "outcome_all UNIV (evolves w) (evolves w) out"
      if "outcome_all UNIV (evolves v) (evolves v) out" "evolves w v" for v out
      by (rule post_mono [OF that(1)]) (auto intro: evolves_trans [OF that(2)])
    show ?case
      using 2 same by (auto simp: Let_def intro: later split: option.split)
  qed
  then show ?thesis by (simp add: chronic_def)
qed

lemma start_listening_chronic: "chronic (start_listening X)"
  using chronicD [OF listen_loop_chronic] by (simp add: chronic_def start_listening_def)

lemma evolves_stop_listening: "evolves w (stop_listening w)"
  by (rule evolves_same) (simp_all add: stop_listening_def)

lemma configure_chronic: "chronic (configure X conf)"
proof -
  have "chronic (run [pure_step (\<lambda>w. if srv_state w = Running then stop_listening w else w),
      pure_step (\<lambda>w. w\<lparr>srv_conf := normalize_config conf\<rparr>),
      when_step (\<lambda>w. srv_state w = Running) (start_listening X)])"
    by (intro chronic_run_list chronic_pure chronic_when start_listening_chronic)
      (auto intro: evolves_stop_listening evolves_same)
  from chronicD [OF this] show ?thesis
    by (simp add: chronic_def configure_def del: run.simps split: option.split)
qed

lemma server_run_chronic: "chronic (server_run X cb)"
proof -
  have "chronic (run [pure_step (\<lambda>w. w\<lparr>srv_state := Running\<rparr>), start_listening X, fire cb RunEvent])"
    by (intro chronic_run_list chronic_pure start_listening_chronic fire_chronic)
      (rule evolves_same; simp)
  from chronicD [OF this] show ?thesis
    by (simp add: chronic_def server_run_def del: run.simps)
qed

lemma close_all_chronic: "chronic (close_all cb err n)"
proof (induction n)
  case 0
  then show ?case by (simp add: chronic_def)
next
  case (Suc n)
  have "chronic (run [close cb j err, close_all cb err n])" for j
    by (intro chronic_run_list close_chronic Suc)
  from chronicD [OF this] show ?case by (simp add: chronic_def del: run.simps)
qed

lemma server_stop_chronic: "chronic (server_stop cb)"
proof -
  have "chronic (\<lambda>w. close_all cb err (length (connections w)) w)" for err
    by (simp add: chronic_def chronicD [OF close_all_chronic])
  then have "chronic (run [pure_step stop_listening,
      \<lambda>w. close_all cb (HttpErrc server_stopping) (length (connections w)) w,
      pure_step (\<lambda>w. w\<lparr>srv_state := Initial\<rparr>), fire cb StopEvent])"
    by (intro chronic_run_list chronic_pure fire_chronic evolves_stop_listening)
      (auto intro: evolves_same)
  from chronicD [OF this] show ?thesis
    by (simp add: chronic_def server_stop_def del: run.simps)
qed

lemma server_graceful_stop_chronic: "chronic (server_graceful_stop cb)"
proof -
  have "chronic (run (map (graceful_stop cb) cs))" for cs
    by (rule chronic_run) (auto intro: graceful_stop_chronic)
  then have stops: "chronic (\<lambda>w. run (map (graceful_stop cb) (sort (connections w))) w)"
    by (simp add: chronic_def)
  have ev: "evolves w (stop_listening (w\<lparr>srv_state := Stopping\<rparr>))" for w
    by (rule evolves_same) (simp_all add: stop_listening_def)
  have "chronic (run [pure_step (\<lambda>w. stop_listening (w\<lparr>srv_state := Stopping\<rparr>)),
      \<lambda>w. run (map (graceful_stop cb) (sort (connections w))) w, stop_if_done cb])"
    by (intro chronic_run_list chronic_pure ev stops stop_if_done_chronic)
  from chronicD [OF this] show ?thesis
    by (simp add: chronic_def server_graceful_stop_def del: run.simps)
qed

lemma on_establish_chronic:
  assumes "lastid w \<noteq> - 1"
  shows "outcome_all UNIV (evolves w) (evolves w) (on_establish X cb secure err w)"
proof (cases "err = NoError")
  case False
  then show ?thesis by (simp add: on_establish_def)
next
  case True
  define i where "i = lastid w + 1"
  have "lastid w < i" unfolding i_def by (rule less_plus_one [OF assms])
  then have "evolves w (upd_conn i (\<lambda>_. c)
      (w\<lparr>lastid := i, connections := cs\<rparr>))" for c cs
    by (auto simp: evolves_def)
  from chronic_after [OF fire_chronic this] True show ?thesis
    by (simp add: on_establish_def Let_def flip: i_def)
qed

section \<open>All calls and inputs\<close>

lemma exec_cmd_chronic: "chronic (exec_cmd X cb a)"
proof (cases a)
  case (Respond r p)
  have "outcome_all UNIV (evolves w) (evolves w)
      (ServerRequest_respond X cb r (next_sid w) (new_response (unlinked_response p) w))" for w
    using chronic_after [OF respond_chronic evolves_new_response] evolves_new_response
    by (simp add: ServerRequest_respond_def split: option.split)
  with Respond show ?thesis by (simp add: chronic_def)
next
  case (Redirect dflt r uri)
  have "outcome_all UNIV (evolves w) (evolves w) (ServerRequest_redirect X cb dflt r uri w)" for w
    using chronic_after [OF respond_chronic evolves_new_response] evolves_new_response
    by (simp add: ServerRequest_redirect_def ServerRequest_respond_def split: option.split)
  with Redirect show ?thesis by (simp add: chronic_def)
next
  case (SendContinue r)
  then show ?thesis
    using chronicD [OF send_continue_chronic]
    by (simp add: chronic_def ServerRequest_send_continue_def split: option.split)
next
  case (EnablePartial r)
  have "evolves w (ServerRequest_enable_partial r w)" for w
    unfolding ServerRequest_enable_partial_def by (rule evolves_upd_req) simp_all
  with EnablePartial show ?thesis by (simp add: chronic_def)
next
  case (DropRequest r)
  then show ?thesis
    using chronicD [OF close_chronic]
    by (simp add: chronic_def ServerRequest_drop_def split: option.split)
next
  case (Upgrade r)
  have "outcome_all UNIV (evolves w) (evolves w) (map_outcome snd (ServerRequest_upgrade X cb r w))" for w
  proof -
    have "outcome_all UNIV (evolves w) (evolves w)
        (map_outcome snd (map_outcome (\<lambda>w. (Inr i :: error_code + cid, w)) (upgrade cb i r w)))" for i
      using chronicD [OF upgrade_chronic, of w i r] by (cases "upgrade cb i r w") simp_all
    then show ?thesis by (simp add: ServerRequest_upgrade_def split: option.split)
  qed
  with Upgrade show ?thesis by (simp add: chronic_def)
next
  case (SendChunk s x)
  then show ?thesis
    using chronicD [OF send_chunk_chronic]
    by (simp add: chronic_def ServerResponse_send_chunk_def split: option.split)
next
  case (SendFinalChunk s x)
  then show ?thesis
    using chronicD [OF send_final_chunk_chronic]
    by (simp add: chronic_def ServerResponse_send_final_chunk_def split: option.split)
qed (simp_all add: chronic_def chronicD [OF close_chronic] chronicD [OF shutdown_chronic]
    chronicD [OF graceful_stop_chronic] chronicD [OF server_run_chronic]
    chronicD [OF server_stop_chronic] chronicD [OF server_graceful_stop_chronic]
    chronicD [OF configure_chronic])

lemma handle_chronic:
  assumes "enabled w inp"
  shows "outcome_all UNIV (evolves w) (evolves w) (handle X cb inp w)"
  using assms
  by (cases inp)
    (simp_all add: on_establish_chronic chronicD [OF on_read_chronic] chronicD [OF on_write_chronic]
      on_connection_def chronicD [OF close_chronic] chronicD [OF on_shutdown_chronic] on_eof_def
      chronicD [OF shutdown_chronic] chronicD [OF on_idle_timer_chronic] chronicD [OF exec_cmd_chronic])

end

section \<open>The user code of the model\<close>

lemma user_cb_chronic: "chronic (user_cb X u n ev)"
proof (induction n arbitrary: ev)
  case 0
  then show ?case by (simp add: chronic_def)
next
  case (Suc n)
  have contract: "chronic_callbacks (user_cb X u n)"
    by unfold_locales (rule Suc)
  have "chronic (exec_if X (user_cb X u n) d f)" for d f
    using chronicD [OF chronic_callbacks.exec_cmd_chronic [OF contract]]
    by (simp add: chronic_def exec_if_def split: option.split)
  then have "chronic (run (map (exec_if X (user_cb X u n) d) fs))" for d fs
    by (intro chronic_run) auto
  then show ?case by (simp add: chronic_def)
qed

interpretation user_history: chronic_callbacks "user_cb X u n"
  by unfold_locales (rule user_cb_chronic)

text \<open>
  C12: Whatever happens afterwards: what has been written to a stream stays as it was and is only
  extended, and a stream that is closed stays closed and gets nothing more; a request keeps the
  response it was given, and once it has left its connection it stays away; a response that is
  complete stays complete; a connection that is closing does not take up work again; and the
  callbacks made are only added to.
\<close>

theorem history_is_kept:
  assumes "run_inputs X u n inps w = Some w'"
  shows "evolves w w'"
  using assms
proof (induction X u n inps w rule: run_inputs.induct)
  case (1 X u n w)
  then show ?case by simp
next
  case (2 X u n inp inps w)
  then have en: "enabled w inp" by (auto split: if_splits)
  have step: "outcome_all UNIV (evolves w) (evolves w) (handle X (user_cb X u n) inp w)"
    by (rule user_history.handle_chronic [OF en])
  show ?case
    using 2 en step by (auto split: outcome.splits intro: evolves_trans)
qed

theorem history_is_kept_witness:
  "\<exists>w'. run_inputs demo_ext demo_user 3 (drop 2 demo_inputs) (demo_world 2) = Some w' \<and>
    r_resp (req w' 1) = Some 0 \<and> s_completed (res w' 0)"
proof -
  obtain w' where w': "run_inputs demo_ext demo_user 3 (drop 2 demo_inputs) (demo_world 2) = Some w'"
    using demo_rest by blast
  have "(1::nat) < next_rid (demo_world 2)" "(0::nat) < next_sid (demo_world 2)"
    by (simp_all add: demo_2)
  then have "r_resp (req w' 1) = Some 0 \<and> s_completed (res w' 0)"
    using history_is_kept [OF w'] demo_2
    unfolding evolves_def by blast
  with w' show ?thesis by blast
qed

end
