(* ===== verification/LastAnswer.thy ===== *)
theory LastAnswer
  imports Chronicle
begin

text \<open>
  The answer that ends a connection: what becomes of the requests behind it, and the three ways in
  which the library itself comes to it - the limit on the requests of a connection, the end of a
  graceful stop, and an error of the client.
\<close>

section \<open>An answer that is not keep-alive\<close>

lemma drop_notice_cong:
  assumes "r_done (req w' r) = r_done (req w r)" "r_partial (req w' r) = r_partial (req w r)"
    "r_resp (req w' r) = r_resp (req w r)"
    "\<And>s. r_resp (req w r) = Some s \<Longrightarrow> s_completed (res w' s) = s_completed (res w s)"
  shows "drop_notice w' err r = drop_notice w err r"
  using assms by (auto simp: drop_notice_def response_completed_def split: option.split)

lemma drop_events_cong:
  assumes "\<And>r. r \<in> set rs \<Longrightarrow> drop_notice w' err r = drop_notice w err r"
  shows "drop_events w' err rs = drop_events w err rs"
proof -
  have "map (\<lambda>r. FinishEvent r # drop_notice w' err r) rs = map (\<lambda>r. FinishEvent r # drop_notice w err r) rs"
    using assms by simp
  then show ?thesis by (simp only: drop_events_def)
qed

lemma stop_accepting_silent:
  assumes rs: "requests (conn w i) = r # rs"
  obtains w' where "stop_accepting silent i r w = Done w'" "requests (conn w' i) = [r]"
    "closing (conn w' i)" "events w' = events w @ drop_events w (HttpErrc pipeline_canceled) rs"
    "st_open (stream (conn w' i)) = st_open (stream (conn w i))"
    "st_out (stream (conn w' i)) = st_out (stream (conn w i))"
    "stopping (conn w' i) = stopping (conn w i)" "res w' = res w"
    "\<And>q. q \<notin> set rs \<Longrightarrow> req w' q = req w q"
proof -
  define w1 where "w1 = upd_conn i (\<lambda>c. c\<lparr>closing := True\<rparr>) w"
  define w2 where "w2 = (if r_done (req w1 r) then read_ignore i w1 else w1)"
  have w2: "requests (conn w2 i) = r # rs" "closing (conn w2 i)" "events w2 = events w"
    "st_open (stream (conn w2 i)) = st_open (stream (conn w i))"
    "st_out (stream (conn w2 i)) = st_out (stream (conn w i))"
    "stopping (conn w2 i) = stopping (conn w i)" "res w2 = res w" "req w2 = req w"
    using rs by (simp_all add: w2_def w1_def read_ignore_def upd_stream_def)
  have stop: "stop_accepting silent i r w = drop_pipelined silent i r w2"
    by (simp add: stop_accepting_def flip: w1_def w2_def)
  show thesis
  proof (cases "rs = []")
    case True
    then show thesis
      using stop w2 that [of w2] by (simp add: drop_pipelined_def drop_events_def)
  next
    case False
    define w3 where "w3 = upd_conn i (\<lambda>c. c\<lparr>requests := tl (requests c)\<rparr>) w2"
    have w3: "requests (conn w3 i) = rs" using w2 by (simp add: w3_def)
    have notices: "drop_events w3 err rs = drop_events w err rs" for err
      by (intro drop_events_cong drop_notice_cong) (simp_all add: w3_def w2)
    define w4 where "w4 = (dropped i w3)
      \<lparr>events := events w @ drop_events w (HttpErrc pipeline_canceled) rs\<rparr>"
    define w5 where "w5 = upd_conn i (\<lambda>c. c\<lparr>requests := r # requests c\<rparr>) w4"
    have "drop_requests silent i (HttpErrc pipeline_canceled) w3 = Done w4"
      by (simp add: drop_requests_silent w3 notices w4_def) (simp add: w3_def w2)
    then have "drop_pipelined silent i r w2 = Done w5"
      using False w2(1) by (simp add: drop_pipelined_def when_step_def flip: w3_def w5_def)
    moreover have "requests (conn w5 i) = [r]" "closing (conn w5 i)"
      "events w5 = events w @ drop_events w (HttpErrc pipeline_canceled) rs"
      "st_open (stream (conn w5 i)) = st_open (stream (conn w i))"
      "st_out (stream (conn w5 i)) = st_out (stream (conn w i))"
      "stopping (conn w5 i) = stopping (conn w i)" "res w5 = res w"
      "\<And>q. q \<notin> set rs \<Longrightarrow> req w5 q = req w q"
      using w2 w3 by (simp_all add: w5_def w4_def w3_def)
    ultimately show thesis
      using stop that [of w5] by simp
  qed
qed

lemma shutdown_empty:
  assumes "requests (conn w i) = []"
  shows "shutdown silent i err w = Done (stream_close i w)"
proof -
  have "requests (conn (stream_close i w) i) = []"
    using assms by (simp add: stream_close_def upd_stream_def)
  then show ?thesis
    by (simp add: shutdown_def do_close_def drop_requests_def)
qed

lemma final_answer:
  assumes rs: "requests (conn w i) = r # rs" and s: "r_resp (req w r) = Some s"
    and completed: "s_completed (res w s)" and received: "r_done (req w r)"
    and ends: "ends_connection w r s" and clock: "clock_ok X" and new: "r \<notin> set rs"
  shows "\<exists>w'. write_next_response X silent i (Suc m) w = Done w' \<and>
    requests (conn w' i) = [] \<and> \<not> st_open (stream (conn w' i)) \<and>
    st_out (stream (conn w' i)) = st_out (stream (conn w i)) @
      (if st_open (stream (conn w i)) then [Head r s True True (s_body (res w s))] else []) \<and>
    events w' = events w @ drop_events w (HttpErrc pipeline_canceled) rs @ [FinishEvent r]"
proof -
  obtain w1 where w1: "fill_defaults X s w = Done w1" "cosmetic w w1"
    using fill_defaults_done [OF clock] by metis
  note same = cosmetic_simps [OF w1(2)]
  define h where "h = Head r s True True (s_body (res w s))"
  define w2 where "w2 = stream_write X i h w1"
  have ends1: "ends_connection w1 r s" using ends by (simp add: ends_connection_def same)
  have head: "write_head X i r s w1 = w2"
    using ends1 completed by (simp add: write_head_def w2_def h_def same)
  have rs2: "requests (conn w2 i) = r # rs" using rs by (simp add: w2_def same)
  obtain w3 where w3: "stop_accepting silent i r w2 = Done w3" "requests (conn w3 i) = [r]"
    "closing (conn w3 i)" "events w3 = events w2 @ drop_events w2 (HttpErrc pipeline_canceled) rs"
    "st_out (stream (conn w3 i)) = st_out (stream (conn w2 i))" "res w3 = res w2"
    "req w3 r = req w2 r"
    using stop_accepting_silent [OF rs2] new by metis
  have w2: "req w2 = req w" "res w2 = res w1" "events w2 = events w"
    by (simp_all add: w2_def same stream_write_def upd_stream_def)
  have notices: "drop_events w2 err rs = drop_events w err rs" for err
    by (intro drop_events_cong drop_notice_cong) (simp_all add: w2 same)
  define w4 where "w4 = (popped i w3)\<lparr>events := events w3 @ [FinishEvent r]\<rparr>"
  have w4: "requests (conn w4 i) = []" "closing (conn w4 i)"
    "st_out (stream (conn w4 i)) = st_out (stream (conn w2 i))"
    using w3 by (simp_all add: w4_def popped_def)
  have "cleanup_request silent i w3 = Done w4"
    by (simp only: w4_def cleanup_request_silent [OF w3(2)])
  then have "finish_with silent i nxt w3 = Done (stream_close i w4)" for nxt
    using w3 w4(1,2) s completed received w2 same(10)
    by (simp add: finish_with_def shutdown_empty)
  then have "write_next_response X silent i (Suc m) w = Done (stream_close i w4)"
    using rs s w1(1) ends1 head w3(1,6) completed w2(2) same
    by (simp add: write_with_def takes_chunks_def)
  moreover have "requests (conn (stream_close i w4) i) = []"
    "\<not> st_open (stream (conn (stream_close i w4) i))"
    "st_out (stream (conn (stream_close i w4) i)) = st_out (stream (conn w i)) @
      (if st_open (stream (conn w i)) then [h] else [])"
    "events (stream_close i w4) = events w @ drop_events w (HttpErrc pipeline_canceled) rs @ [FinishEvent r]"
    using w3 w4 w2 notices same
    by (simp_all add: stream_close_def upd_stream_def w4_def w2_def)
  ultimately show ?thesis unfolding h_def by blast
qed

section \<open>Responding\<close>

text \<open>Whether the response given now has to be the last of the connection.\<close>

definition limit_reached :: "connection \<Rightarrow> bool" where
  "limit_reached c \<longleftrightarrow>
     max_keepalive_requests c \<noteq> 0 \<and> max_keepalive_requests c \<le> requests_processed c + 1 \<and>
     length (requests c) = 1"

lemma respond_first:
  assumes r: "r_conn (req w r) = Some i" "r_resp (req w r) = None" and rs: "requests (conn w i) = r # rs"
  obtains w' where "ServerRequest_respond X cb r s w = write_next_response X cb i (length (r # rs)) w'"
    "requests (conn w' i) = r # rs" "stream (conn w' i) = stream (conn w i)" "events w' = events w"
    "req w' = (req w)(r := (req w r)\<lparr>r_resp := Some s\<rparr>)" "\<And>t. t \<noteq> s \<Longrightarrow> res w' t = res w t"
    "s_body (res w' s) = s_body (res w s)" "\<not> s_chunked (res w s) \<Longrightarrow> s_completed (res w' s)"
    "s_keep (res w' s) = (s_keep (res w s) \<and> \<not> stopping (conn w i) \<and> \<not> limit_reached (conn w i))"
proof -
  define w1 where "w1 = upd_conn i (\<lambda>c. c\<lparr>requests_processed := requests_processed c + 1\<rparr>)
    (link_response r s w)"
  define w2 where "w2 = (if limit_reached (conn w i) then upd_conn i (\<lambda>c. c\<lparr>stopping := True\<rparr>) w1 else w1)"
  define w3 where "w3 = (if stopping (conn w2 i) then upd_res s (\<lambda>p. p\<lparr>s_keep := False\<rparr>) w2 else w2)"
  define w4 where "w4 = mark_completed s w3"
  have w1: "requests (conn w1 i) = r # rs" "keepalive_limit_hit i w1 = limit_reached (conn w i)"
    using rs by (simp_all add: w1_def keepalive_limit_hit_def limit_reached_def)
  have stop: "when_step (keepalive_limit_hit i) (graceful_stop cb i) w1 = Done w2"
    using w1 by (simp add: when_step_def w2_def graceful_stop_def)
  have rs4: "requests (conn w4 i) = r # rs"
    using w1 by (simp add: w4_def w3_def w2_def mark_completed_def)
  have "ServerRequest_respond X cb r s w = write_next_response X cb i (length (r # rs)) w4"
    using r rs4 stop
    by (simp add: ServerRequest_respond_def respond_def del: write_next_response.simps
        flip: w1_def w3_def w4_def)
  moreover have "stream (conn w4 i) = stream (conn w i)" "events w4 = events w"
    by (simp_all add: w4_def w3_def w2_def w1_def mark_completed_def link_response_def)
  moreover have "req w4 = (req w)(r := (req w r)\<lparr>r_resp := Some s\<rparr>)"
    by (simp add: w4_def w3_def w2_def w1_def mark_completed_def fun_eq_iff)
  moreover have "res w4 t = res w t" if "t \<noteq> s" for t
    using that by (simp add: w4_def w3_def w2_def w1_def mark_completed_def)
  moreover have "s_body (res w4 s) = s_body (res w s)" "\<not> s_chunked (res w s) \<Longrightarrow> s_completed (res w4 s)"
    "s_keep (res w4 s) = (s_keep (res w s) \<and> \<not> stopping (conn w i) \<and> \<not> limit_reached (conn w i))"
    by (auto simp: w4_def w3_def w2_def w1_def mark_completed_def)
  ultimately show thesis using rs4 that by blast
qed

lemma respond_last:
  assumes good: "good K w" and rs: "requests (conn w i) = r # rs" and r: "\<not> answered w r" "r_done (req w r)"
    and op: "st_open (stream (conn w i))" and clock: "clock_ok X" and p: "\<not> s_chunked p"
    and last: "\<not> s_keep p \<or> \<not> r_keep (req w r) \<or> stopping (conn w i) \<or> limit_reached (conn w i)"
  shows "\<exists>w'. exec_cmd X silent (Respond r p) w = Done w' \<and>
    requests (conn w' i) = [] \<and> \<not> st_open (stream (conn w' i)) \<and>
    st_out (stream (conn w' i)) =
      st_out (stream (conn w i)) @ [Head r (next_sid w) True True (s_body p)] \<and>
    events w' = events w @ drop_events w (HttpErrc pipeline_canceled) rs @ [FinishEvent r]"
proof -
  have base: "base_inv K w" using good by (simp add: good_def)
  define s where "s = next_sid w"
  define w0 where "w0 = new_response (unlinked_response p) w"
  have linked: "r_conn (req w0 r) = Some i" "r_resp (req w0 r) = None" "requests (conn w0 i) = r # rs"
    using base_links [OF base] rs r(1) by (simp_all add: w0_def answered_def)
  obtain w1 where w1:
    "ServerRequest_respond X silent r s w0 = write_next_response X silent i (length (r # rs)) w1"
    "requests (conn w1 i) = r # rs" "stream (conn w1 i) = stream (conn w0 i)" "events w1 = events w0"
    "req w1 = (req w0)(r := (req w0 r)\<lparr>r_resp := Some s\<rparr>)" "\<And>t. t \<noteq> s \<Longrightarrow> res w1 t = res w0 t"
    "s_body (res w1 s) = s_body (res w0 s)" "\<not> s_chunked (res w0 s) \<Longrightarrow> s_completed (res w1 s)"
    "s_keep (res w1 s) = (s_keep (res w0 s) \<and> \<not> stopping (conn w0 i) \<and> \<not> limit_reached (conn w0 i))"
    by (rule respond_first [OF linked, where X = X and cb = silent and s = s]) (rule that)
  have w0: "conn w0 = conn w" "events w0 = events w" "req w0 = req w"
    "res w0 s = unlinked_response p" "\<And>t. t \<noteq> s \<Longrightarrow> res w0 t = res w t"
    by (simp_all add: w0_def s_def new_response_def)
  have new: "r \<notin> set rs"
    using base_sorted [OF base, of i] rs by auto
  have notices: "drop_events w1 err rs = drop_events w err rs" for err
  proof (intro drop_events_cong drop_notice_cong)
    fix q t assume q: "q \<in> set rs"
    then show "r_done (req w1 q) = r_done (req w q)" "r_partial (req w1 q) = r_partial (req w q)"
      "r_resp (req w1 q) = r_resp (req w q)"
      using new w1(5) w0(3) by auto
    assume "r_resp (req w q) = Some t"
    then have "t \<noteq> s" using base by (auto simp: base_inv_def resp_ok_def s_def)
    then show "s_completed (res w1 t) = s_completed (res w t)" using w1(6) w0(5) by simp
  qed
  have ends: "ends_connection w1 r s"
    using last w0 w1(5,9) by (auto simp: ends_connection_def unlinked_response_def)
  have "\<exists>w'. write_next_response X silent i (Suc (length rs)) w1 = Done w' \<and>
    requests (conn w' i) = [] \<and> \<not> st_open (stream (conn w' i)) \<and>
    st_out (stream (conn w' i)) = st_out (stream (conn w1 i)) @
      (if st_open (stream (conn w1 i)) then [Head r s True True (s_body (res w1 s))] else []) \<and>
    events w' = events w1 @ drop_events w1 (HttpErrc pipeline_canceled) rs @ [FinishEvent r]"
    by (rule final_answer [OF w1(2) _ _ _ ends clock new])
      (use w1 w0 p r in \<open>simp_all add: unlinked_response_def\<close>)
  moreover have "exec_cmd X silent (Respond r p) w = write_next_response X silent i (Suc (length rs)) w1"
    using w1(1) by (simp add: w0_def s_def del: write_next_response.simps)
  ultimately show ?thesis
    using w1(3,4,7) w0 op notices
    by (simp add: unlinked_response_def s_def del: write_next_response.simps exec_cmd.simps)
qed

text \<open>
  C13: An answer that is not keep-alive, or that answers a request which is not, ends the connection:
  it is sent and announces that, the requests pipelined behind it are dropped as canceled, in order,
  before the finish event of the answered one, and the stream is closed with nothing sent for them.
\<close>

theorem last_answer_cancels_pipeline:
  assumes "reachable conf u w" and "requests (conn w i) = r # rs" and "\<not> answered w r"
    and "r_done (req w r)" and "st_open (stream (conn w i))" and "clock_ok X" and "\<not> s_chunked p"
    and "\<not> s_keep p \<or> \<not> r_keep (req w r)"
  shows "\<exists>w'. exec_cmd X silent (Respond r p) w = Done w' \<and>
    requests (conn w' i) = [] \<and> \<not> st_open (stream (conn w' i)) \<and>
    st_out (stream (conn w' i)) =
      st_out (stream (conn w i)) @ [Head r (next_sid w) True True (s_body p)] \<and>
    events w' = events w @ drop_events w (HttpErrc pipeline_canceled) rs @ [FinishEvent r]"
  using reachable_good [OF assms(1)] respond_last [OF _ assms(2-7)] assms(8) by blast

theorem last_answer_cancels_pipeline_witness:
  "\<exists>w'. exec_cmd demo_ext silent (Respond 0 no_response) (demo_world 2) = Done w' \<and>
    requests (conn w' 1) = [] \<and> st_out (stream (conn w' 1)) = [Head 0 1 True True []] \<and>
    events w' = events (demo_world 2) @ [FinishEvent 1, FinishEvent 0]"
  using last_answer_cancels_pipeline [of demo_conf demo_user "demo_world 2" 1 0 "[1]" demo_ext
      no_response, OF demo_reachable]
  by (auto simp: demo_2 answered_def clock_ok_def demo_clock no_response_def drop_events_def
      drop_notice_def response_completed_def simp del: One_nat_def)

text \<open>
  When the number of answers on a connection reaches the configured maximum, and no other
  request waits, or when the connection is being stopped gracefully, the answer ends the connection
  even if the user and the client would keep it: it is sent as not keep-alive and the stream is
  closed after it.
\<close>

theorem limit_ends_connection:
  assumes "reachable conf u w" and "requests (conn w i) = r # rs" and "\<not> answered w r"
    and "r_done (req w r)" and "st_open (stream (conn w i))" and "clock_ok X" and "\<not> s_chunked p"
    and "stopping (conn w i) \<or> limit_reached (conn w i)"
  shows "\<exists>w'. exec_cmd X silent (Respond r p) w = Done w' \<and>
    requests (conn w' i) = [] \<and> \<not> st_open (stream (conn w' i)) \<and>
    st_out (stream (conn w' i)) =
      st_out (stream (conn w i)) @ [Head r (next_sid w) True True (s_body p)]"
  using reachable_good [OF assms(1)] respond_last [OF _ assms(2-7)] assms(8) by blast

lemma demo_stopping:
  "reachable demo_conf demo_user (upd_conn 1 (\<lambda>c. c\<lparr>stopping := True\<rparr>) (demo_world 2))"
  by (rule reachable.returns [OF demo_reachable [of 2], where inp = "Call (StopConn 1)" and X = demo_ext and n = 0])
    (simp_all add: graceful_stop_def demo_2)

theorem limit_ends_connection_witness:
  "\<exists>w'. exec_cmd demo_ext silent (Respond 0 (simple_response ''bye''))
      (upd_conn 1 (\<lambda>c. c\<lparr>stopping := True\<rparr>) (demo_world 2)) = Done w' \<and>
    requests (conn w' 1) = [] \<and> st_out (stream (conn w' 1)) = [Head 0 1 True True [''bye'']]"
  using limit_ends_connection [of demo_conf demo_user
      "upd_conn 1 (\<lambda>c. c\<lparr>stopping := True\<rparr>) (demo_world 2)" 1 0 "[1]" demo_ext
      "simple_response ''bye''", OF demo_stopping]
  by (auto simp: demo_2 answered_def clock_ok_def demo_clock simple_response_def no_response_def
      simp del: One_nat_def exec_cmd.simps)

section \<open>An error of the client\<close>

definition error_response :: "ext \<Rightarrow> string \<Rightarrow> sresponse" where
  "error_response X date =
     \<lparr>s_code = 400, s_keep = False, s_chunked = False, s_headers = [], s_date = Some date,
      s_body = [error_body (x_full_message X 400)], s_req = None, s_completed = False\<rparr>"

lemma default_error_response_done:
  assumes "clock_ok X"
  obtains w1 d where "default_error_response X 400 w = Done (new_response (error_response X d) w1)"
    "cosmetic w w1" "res w1 = res w"
proof -
  obtain w1 where "date_header_now X w = Done w1" "cosmetic w w1" "res w1 = res w"
    using date_header_now_done [OF assms] by metis
  then show thesis
    using that [of "hdate_str w1" w1] by (simp add: default_error_response_def error_response_def)
qed

lemma request_error_silent:
  assumes rs: "requests (conn w i) = [r]" and r: "r_conn (req w r) = Some i" "r_resp (req w r) = None"
    "r_done (req w r)" "\<not> r_partial (req w r)"
    and op: "st_open (stream (conn w i))" and clock: "clock_ok X"
  shows "\<exists>w'. request_error X silent i r err w = Done w' \<and>
    requests (conn w' i) = [] \<and> \<not> st_open (stream (conn w' i)) \<and>
    st_out (stream (conn w' i)) = st_out (stream (conn w i)) @
      [Head r (next_sid w) True True [error_body (x_full_message X 400)]] \<and>
    events w' = events w @ [ErrorEvent r err, FinishEvent r]"
proof -
  define s where "s = next_sid w"
  define w1 where "w1 = (read_ignore i w)\<lparr>events := events w @ [ErrorEvent r err]\<rparr>"
  have w1: "requests (conn w1 i) = [r]" "req w1 = req w" "next_sid w1 = s"
    "st_open (stream (conn w1 i))" "st_out (stream (conn w1 i)) = st_out (stream (conn w i))"
    using rs op by (simp_all add: w1_def s_def read_ignore_def upd_stream_def)
  obtain w2 d where w2: "default_error_response X 400 w1 = Done (new_response (error_response X d) w2)"
    "cosmetic w1 w2"
    using default_error_response_done [OF clock] by metis
  note same = cosmetic_simps [OF w2(2)]
  define w3 where "w3 = new_response (error_response X d) w2"
  have w3: "requests (conn w3 i) = [r]" "req w3 = req w" "conn w3 = conn w1" "events w3 = events w1"
    "res w3 s = error_response X d"
    using w1 same by (simp_all add: w3_def new_response_def)
  have linked: "r_conn (req w3 r) = Some i" "r_resp (req w3 r) = None" "requests (conn w3 i) = r # []"
    using r w3 by simp_all
  obtain w4 where w4:
    "ServerRequest_respond X silent r s w3 = write_next_response X silent i (length [r]) w4"
    "requests (conn w4 i) = r # []" "stream (conn w4 i) = stream (conn w3 i)" "events w4 = events w3"
    "req w4 = (req w3)(r := (req w3 r)\<lparr>r_resp := Some s\<rparr>)" "\<And>t. t \<noteq> s \<Longrightarrow> res w4 t = res w3 t"
    "s_body (res w4 s) = s_body (res w3 s)" "\<not> s_chunked (res w3 s) \<Longrightarrow> s_completed (res w4 s)"
    "s_keep (res w4 s) = (s_keep (res w3 s) \<and> \<not> stopping (conn w3 i) \<and> \<not> limit_reached (conn w3 i))"
    by (rule respond_first [OF linked, where X = X and cb = silent and s = s]) (rule that)
  have "request_error X silent i r err w =
      run [default_error_response X 400, respond X silent i r s] w1"
    using r w1 by (simp add: request_error_def read_ignore_def upd_stream_def w1_def s_def)
  also have "\<dots> = respond X silent i r s w3"
    using w2(1) by (simp flip: w3_def)
  also have "\<dots> = write_next_response X silent i (Suc 0) w4"
    using w4(1) linked(1) by (simp add: ServerRequest_respond_def del: write_next_response.simps)
  finally have eq: "request_error X silent i r err w = write_next_response X silent i (Suc 0) w4" .
  have "\<exists>w'. write_next_response X silent i (Suc 0) w4 = Done w' \<and>
    requests (conn w' i) = [] \<and> \<not> st_open (stream (conn w' i)) \<and>
    st_out (stream (conn w' i)) = st_out (stream (conn w4 i)) @
      (if st_open (stream (conn w4 i)) then [Head r s True True (s_body (res w4 s))] else []) \<and>
    events w' = events w4 @ drop_events w4 (HttpErrc pipeline_canceled) [] @ [FinishEvent r]"
    by (rule final_answer [OF w4(2) _ _ _ _ clock])
      (use w4 w3 r in \<open>simp_all add: ends_connection_def error_response_def\<close>)
  then show ?thesis
    unfolding eq using w4 w3 w1
    by (simp add: drop_events_def error_response_def s_def w1_def del: write_next_response.simps)
qed

text \<open>
  C14: When what a client sends cannot be parsed, and no other request waits, the user is told of the
  error, and if he does not answer, the client gets the default answer 400 with the page of the
  library, which ends the connection; what else was in the buffer is not read.
\<close>

theorem bad_request_answered:
  assumes reach: "reachable conf u w" and en: "receiving (conn w i)" "fresh_result w i p"
    and rs: "requests (conn w i) = []"
    and bad: "pr_error p \<noteq> NoError" "state_rank StDone \<le> state_rank (pr_state p)"
    and clock: "clock_ok X"
  shows "\<exists>w'. handle X silent (Read i (p # ps) NoError) w = Done w' \<and>
    requests (conn w' i) = [] \<and> \<not> st_open (stream (conn w' i)) \<and>
    st_out (stream (conn w' i)) = st_out (stream (conn w i)) @
      [Head (next_rid w) (next_sid w) True True [error_body (x_full_message X 400)]] \<and>
    events w' = events w @ [ErrorEvent (next_rid w) (pr_error p), FinishEvent (next_rid w)]"
proof -
  obtain K where good: "good K w" using reachable_good [OF reach] by blast
  then have base: "base_inv K w" by (simp add: good_def)
  have i: "i \<le> lastid w"
    using base en(1) by (auto simp: base_inv_def ids_ok_def receiving_def)
  have cur: "r_done (req w q)" if "cur (conn w i) = Some q" for q
    using base_cur_last [OF base that en(1)] rs by auto
  then have new: "pr_new p"
    using en(2) by (auto simp: fresh_result_def split: option.splits)
  define q where "q = (parsed_into p (new_srequest i w))
    \<lparr>r_done := state_rank StDone \<le> state_rank (pr_state p)\<rparr>"
  define w1 where "w1 = arrive i q (Some (next_rid w)) (stop_timer i w)"
  have rec: "receive_result i p w = (next_rid w, w1)"
    unfolding w1_def q_def by (rule receive_new [OF good new i cur])
  have w1: "requests (conn w1 i) = [next_rid w]" "req w1 (next_rid w) = q" "next_sid w1 = next_sid w"
    "stream (conn w1 i) = stream (conn w i)" "events w1 = events w"
    using rs by (simp_all add: w1_def arrive_def stop_timer_def)
  have "\<exists>w'. request_error X silent i (next_rid w) (pr_error p) w1 = Done w' \<and>
    requests (conn w' i) = [] \<and> \<not> st_open (stream (conn w' i)) \<and>
    st_out (stream (conn w' i)) = st_out (stream (conn w1 i)) @
      [Head (next_rid w) (next_sid w1) True True [error_body (x_full_message X 400)]] \<and>
    events w' = events w1 @ [ErrorEvent (next_rid w) (pr_error p), FinishEvent (next_rid w)]"
    by (rule request_error_silent [OF w1(1) _ _ _ _ _ clock])
      (use w1 en(1) bad(2) in \<open>simp_all add: q_def parsed_into_def new_srequest_def receiving_def\<close>)
  then show ?thesis
    using rec bad(1) w1 by (simp add: on_read_def)
qed

theorem bad_request_answered_witness:
  "\<exists>w'. handle demo_ext silent
      (Read 1 [(parsed True)\<lparr>pr_state := StError, pr_error := ExternErr 7\<rparr>] NoError) (demo_world 1) = Done w' \<and>
    st_out (stream (conn w' 1)) = [Head 0 0 True True [error_body ''400 Bad Request'']]"
proof -
  have "fresh_result (demo_world 1) 1 ((parsed True)\<lparr>pr_state := StError, pr_error := ExternErr 7\<rparr>)"
    by (simp add: fresh_result_def demo_1 parsed_def del: One_nat_def)
  moreover have "clock_ok demo_ext" "x_full_message demo_ext 400 = ''400 Bad Request''"
    using demo_clock by (simp_all add: clock_ok_def) (simp add: demo_ext_def)
  ultimately show ?thesis
    using bad_request_answered [OF demo_reachable, of 1 1
        "(parsed True)\<lparr>pr_state := StError, pr_error := ExternErr 7\<rparr>" demo_ext "[]"]
    by (auto simp: demo_1 parsed_def receiving_def simp del: handle.simps One_nat_def)
qed

end
