(* ===== verification/Defects.thy ===== *)
theory Defects
  imports LastAnswer
begin

text \<open>
  Behaviours of the code that are not what it means to do, as concrete runs from the start of the
  server: undefined behaviour that a client or an ordinary user can cause, data that get lost, and
  what happens when the user code breaks the rule on callbacks of detached requests.
\<close>

section \<open>Runs that end in undefined behaviour\<close>

definition idle_user :: user where
  "idle_user ev w = []"

lemma crash_reachable:
  assumes "map_option (\<lambda>w. (enabled w inp, handle X (user_cb X u n) inp w))
      (run_inputs X u n inps (new_server conf)) = Some (True, Crash f)"
  shows "\<exists>w. reachable conf u w \<and> enabled w inp \<and> handle X (user_cb X u n) inp w = Crash f"
  using assms run_inputs_reachable [OF reachable.start, of X u n inps conf] by auto

text \<open>
  C34: The configuration says that an idle timeout of 0 means no timeout. With it the connection has
  no timer, and as soon as the first answer has been sent the timer is asked through a null pointer.
\<close>

theorem no_idle_timeout_crashes:
  "\<exists>w. reachable (demo_conf\<lparr>cf_idle_timeout := 0\<rparr>) idle_user w \<and>
     enabled w (Call (Respond 0 (simple_response ''x''))) \<and>
     handle demo_ext (user_cb demo_ext idle_user 1) (Call (Respond 0 (simple_response ''x''))) w =
       Crash NullDeref"
  by (rule crash_reachable [where inps = "[Accept False NoError, Read 1 [parsed True] NoError]"])
    (simp add: demo_defs state_defs read_defs respond_defs idle_user_def)

text \<open>
  C35: A chunked answer is in progress and another request waits behind when the connection is told
  to stop gracefully; the end of the answer then runs into the assertion of \<^verbatim>\<open>finish_request\<close>.
\<close>

theorem graceful_stop_asserts:
  "\<exists>w. reachable demo_conf idle_user w \<and> enabled w (Call (SendFinalChunk 0 ''b'')) \<and>
     handle demo_ext (user_cb demo_ext idle_user 1) (Call (SendFinalChunk 0 ''b'')) w =
       Crash AssertFailed"
  by (rule crash_reachable [where inps = "[Accept False NoError,
      Read 1 [parsed True, parsed True] NoError, Call (Respond 0 chunked_response),
      Call (StopConn 1)]"])
    (simp add: demo_defs state_defs read_defs respond_defs idle_user_def graceful_stop_def)

text \<open>
  C36: When the user drops a request in the error event for it, the library goes on to answer it
  although it has left the connection, which the assertion of \<^verbatim>\<open>respond\<close> excludes.
\<close>

definition dropping_user :: user where
  "dropping_user ev w =
     (case ev of ErrorEvent r err \<Rightarrow> [\<lambda>w. Some (DropRequest r)] | _ \<Rightarrow> [])"

theorem drop_in_error_event_asserts:
  "\<exists>w. reachable demo_conf dropping_user w \<and> enabled w (Read 1 [] (ExternErr 7)) \<and>
     handle demo_ext (user_cb demo_ext dropping_user 2) (Read 1 [] (ExternErr 7)) w =
       Crash AssertFailed"
  by (rule crash_reachable [where inps = "[Accept False NoError]"])
    (simp add: demo_defs state_defs read_defs respond_defs dropping_user_def numeral_2_eq_2
      ServerRequest_drop_def response_completed_def)

section \<open>Lost data\<close>

text \<open>
  C37: The last chunk of an answer that has to wait for another one is lost: \<^verbatim>\<open>send_final_chunk\<close> marks
  the response as complete and keeps the data nowhere. Here the answer to the second request is
  given in the chunks \<open>a\<close> and \<open>b\<close> before the first request is answered, and \<open>a\<close> is all that is sent.
\<close>

theorem final_chunk_lost:
  "\<exists>w. reachable demo_conf idle_user w \<and>
     st_out (stream (conn w 1)) = [Head 0 1 False True [''x''], Head 1 0 False True [''a'']] \<and>
     run_inputs demo_ext idle_user 1
       [Accept False NoError, Read 1 [parsed True, parsed True] NoError,
        Call (Respond 1 chunked_response), Call (SendChunk 0 ''a''), Call (SendFinalChunk 0 ''b''),
        Call (Respond 0 (simple_response ''x''))] (new_server demo_conf) = Some w"
proof -
  define inps where "inps = [Accept False NoError, Read 1 [parsed True, parsed True] NoError,
    Call (Respond 1 chunked_response), Call (SendChunk 0 ''a''), Call (SendFinalChunk 0 ''b''),
    Call (Respond 0 (simple_response ''x''))]"
  have "map_option (\<lambda>w. st_out (stream (conn w 1)))
      (run_inputs demo_ext idle_user 1 inps (new_server demo_conf)) =
    Some [Head 0 1 False True [''x''], Head 1 0 False True [''a'']]"
    unfolding inps_def
    by (simp add: demo_defs state_defs read_defs respond_defs idle_user_def)
  then obtain w where w: "run_inputs demo_ext idle_user 1 inps (new_server demo_conf) = Some w"
    "st_out (stream (conn w 1)) = [Head 0 1 False True [''x''], Head 1 0 False True [''a'']]"
    by auto
  from run_inputs_reachable [OF reachable.start w(1)] w show ?thesis
    unfolding inps_def by blast
qed

section \<open>The rule for detached requests is needed\<close>

text \<open>
  A user who, told that the first request is finished, sends a chunk for the answer of the
  second, which has been given and waits, has the chunk sent before the head of its message.
\<close>

lemma map_outcome_Done: "map_outcome g out = Done y \<Longrightarrow> \<exists>w. out = Done w \<and> g w = y"
  by (cases out) auto

definition eager :: callbacks where
  "eager ev w = (if ev = FinishEvent 0 then ServerResponse_send_chunk demo_ext 0 ''x'' w else Done w)"

theorem detached_rule_needed:
  "\<exists>w w'. reachable demo_conf idle_user w \<and>
     handle demo_ext eager (Call (Respond 0 (simple_response ''y''))) w = Done w' \<and>
     \<not> wire_ok (st_out (stream (conn w' 1)))"
proof -
  have "map_option (\<lambda>w. map_outcome (\<lambda>w'. st_out (stream (conn w' 1)))
        (handle demo_ext eager (Call (Respond 0 (simple_response ''y''))) w))
      (run_inputs demo_ext idle_user 1
        [Accept False NoError, Read 1 [parsed True, parsed True] NoError,
         Call (Respond 1 chunked_response)] (new_server demo_conf)) =
    Some (Done [Head 0 1 False True [''y''], Chunk 0 ''x'', Head 1 0 False False []])"
    by (simp add: demo_defs state_defs read_defs respond_defs idle_user_def eager_def)
  then obtain w w' where w: "run_inputs demo_ext idle_user 1
        [Accept False NoError, Read 1 [parsed True, parsed True] NoError,
         Call (Respond 1 chunked_response)] (new_server demo_conf) = Some w"
    "handle demo_ext eager (Call (Respond 0 (simple_response ''y''))) w = Done w'"
    "st_out (stream (conn w' 1)) = [Head 0 1 False True [''y''], Chunk 0 ''x'', Head 1 0 False False []]"
    by (auto simp del: handle.simps run_inputs.simps dest!: map_outcome_Done)
  moreover have "\<not> wire_ok (st_out (stream (conn w' 1)))"
    by (simp add: w(3) wire_ok_def wire_state_def)
  ultimately show ?thesis
    using run_inputs_reachable [OF reachable.start w(1)] by blast
qed

end
