(* ===== verification/ClientState.thy ===== *)
theory ClientState
  imports Prelude
begin

text \<open>
  The state of the client side: requests, clients and the pool in one store (\<^verbatim>\<open>Request.h\<close>,
  \<^verbatim>\<open>Response.h\<close>, \<^verbatim>\<open>Form.h\<close>, \<^verbatim>\<open>Client.h\<close>, \<^verbatim>\<open>Pool.h\<close>). A client is itself a TCP stream, code outside
  the repository; of it the state keeps whether it is connected or connecting, which filters it has,
  whether it is weak, and what was written to it on the current connection.
\<close>

section \<open>Addresses\<close>

type_synonym crid = nat
type_synonym clid = nat

text \<open>
  A parsed URI: \<open>u_port\<close> is the explicit port (0 for none), \<open>u_rest\<close> what the sources only pass on.
  A proxy is a shared URI object, compared by identity. An SSL context is a handle.
\<close>

record uri =
  u_scheme :: string
  u_host :: string
  u_port :: "16 word"
  u_rest :: string

type_synonym proxy = "nat \<times> uri"

text \<open>\<^verbatim>\<open>NetLoc\<close>\<close>

record netloc =
  nl_host :: string
  nl_port :: "16 word"
  nl_ssl_ctx :: "nat option"
  nl_proxy :: "nat option"
  nl_check :: bool

definition netloc_eq :: "netloc \<Rightarrow> netloc \<Rightarrow> bool" where
  "netloc_eq a b \<longleftrightarrow>
     nl_host a = nl_host b \<and> nl_port a = nl_port b \<and> nl_ssl_ctx a = nl_ssl_ctx b \<and>
     nl_proxy a = nl_proxy b \<and> nl_check a = nl_check b"

lemma netloc_eq_iff [simp]: "netloc_eq a b \<longleftrightarrow> a = b"
  by (auto simp: netloc_eq_def)

section \<open>Requests and responses\<close>

text \<open>
  The items of a form. A file is read by a streamer outside the repository; of it the model keeps what it
  reads from, the client it writes to and whether it runs. \<^verbatim>\<open>in\<close> is moved into the streamer when it is
  started.
\<close>

type_synonym streamer = "nat option \<times> clid \<times> bool"

datatype form_item =
    FormField string string
  | FormEmbeddedFile string string string string
  | FormFile string "nat option" string string "streamer option"

record crequest =
  cq_uri :: "uri option"
  cq_method :: string
  cq_headers :: "(string \<times> string) list"
  cq_cookies :: "(string \<times> string) list"
  cq_body :: string
  cq_chunked :: bool
  cq_keep :: bool
  cq_compression :: "8 word"
  cq_timeout :: u64
  cq_connect_timeout :: u64
  cq_follow :: bool
  cq_nodelay :: bool
  cq_limit :: "16 word"
  cq_ssl_ctx :: "nat option"
  cq_proxy :: "proxy option"
  cq_proxy_resolve :: bool
  cq_form :: "form_item list"
  cq_streaming :: bool
  cq_check_cert :: bool
  cq_counter :: "16 word"
  cq_transferred :: bool
  cq_client :: "clid option"
  cq_pool :: bool
  cq_timer :: "(bool \<times> bool) option"

text \<open>
  The timer of a request is \<open>None\<close> when there is none, otherwise whether it is active and whether the
  request is its listener. A response is a value here: what it is at the moment of a callback.
\<close>

record cresponse =
  rp_code :: int
  rp_keep :: bool
  rp_location :: string
  rp_done :: bool

definition empty_response :: cresponse where
  "empty_response = \<lparr>rp_code = 0, rp_keep = True, rp_location = '''', rp_done = False\<rparr>"

definition DEFAULT_TIMEOUT :: u64 where
  "DEFAULT_TIMEOUT = 20000"

definition DEFAULT_REDIRECTION_LIMIT :: "16 word" where
  "DEFAULT_REDIRECTION_LIMIT = 20"

text \<open>
  The defaults of a request; \<^verbatim>\<open>default_ssl_verify\<close> is true, the other arguments are defaults of the
  message class outside the repository.
\<close>

definition default_request :: "string \<Rightarrow> bool \<Rightarrow> 8 word \<Rightarrow> crequest" where
  "default_request meth keep compression =
     \<lparr>cq_uri = None, cq_method = meth, cq_headers = [], cq_cookies = [], cq_body = '''',
      cq_chunked = False, cq_keep = keep, cq_compression = compression,
      cq_timeout = DEFAULT_TIMEOUT, cq_connect_timeout = 0, cq_follow = True, cq_nodelay = False,
      cq_limit = DEFAULT_REDIRECTION_LIMIT, cq_ssl_ctx = None, cq_proxy = None,
      cq_proxy_resolve = True, cq_form = [], cq_streaming = False, cq_check_cert = True,
      cq_counter = 0, cq_transferred = False, cq_client = None, cq_pool = False, cq_timer = None\<rparr>"

text \<open>\<^verbatim>\<open>RedirectContext\<close>\<close>

record redirect_context =
  rc_uri :: uri
  rc_ssl_ctx :: "nat option"
  rc_cookies :: "(string \<times> string) list"
  rc_removed :: "(string \<times> string) list"

section \<open>Clients\<close>

text \<open>
  What is written to a connection: the head of a request with the body it carries and whether it is
  complete with it, the chunks of a chunked request, the parts of a form.
\<close>

datatype cwire =
    ReqHead crid uri "(string \<times> string) list" "(string \<times> string) list" string bool
  | ReqChunk crid string
  | ReqFinal crid string
  | PartField crid string string
  | PartFile crid string string string
  | PartData crid string
  | FormEnd crid

text \<open>
  \<^verbatim>\<open>Client\<close>: \<open>cl_ctx\<close> is \<^verbatim>\<open>_parser.context_request()\<close>, \<open>cl_pooled\<close> whether there is a pool, \<open>cl_tls\<close> and
  \<open>cl_socks\<close> are the filters of the stream.
\<close>

record client =
  cl_pooled :: bool
  cl_netloc :: netloc
  cl_request :: "crid option"
  cl_response :: "cresponse option"
  cl_ctx :: "crid option"
  cl_last_activity :: u64
  cl_in_redirect :: bool
  cl_redirect_canceled :: bool
  cl_form_field :: int
  cl_connected :: bool
  cl_connecting :: bool
  cl_connect_timeout :: u64
  cl_nodelay :: bool
  cl_tls :: "nat option"
  cl_socks :: "(uri \<times> bool) option"
  cl_weak :: bool
  cl_out :: "cwire list"

definition no_netloc :: netloc where
  "no_netloc = \<lparr>nl_host = '''', nl_port = 0, nl_ssl_ctx = None, nl_proxy = None, nl_check = True\<rparr>"

definition new_client :: "bool \<Rightarrow> client" where
  "new_client pooled =
     \<lparr>cl_pooled = pooled, cl_netloc = no_netloc, cl_request = None, cl_response = None, cl_ctx = None,
      cl_last_activity = 0, cl_in_redirect = False, cl_redirect_canceled = False,
      cl_form_field = - 1, cl_connected = False, cl_connecting = False, cl_connect_timeout = 0,
      cl_nodelay = False, cl_tls = None, cl_socks = None, cl_weak = False, cl_out = []\<rparr>"

text \<open>What the destructor asserts. (An object that nothing refers to any more stays in the store.)\<close>

definition Client_destructible :: "client \<Rightarrow> bool" where
  "Client_destructible k \<longleftrightarrow> cl_request k = None"

section \<open>The pool and the world\<close>

text \<open>
  \<^verbatim>\<open>NetLocList\<close>; the sets are lists without repetition. \<open>nl_version\<close> counts the changes of the deque:
  an iterator into it is not used any more after a change.
\<close>

record netloc_list =
  nl_free :: "clid list"
  nl_busy :: "clid list"
  nl_queue :: "crid list"
  nl_version :: nat

record pool =
  p_entries :: "(netloc \<times> netloc_list) list"
  p_idle_timeout :: u32
  p_idle_timer :: "u32 option"
  p_max_connections :: u32

datatype cevent =
    ResponseEvent crid cresponse error_code
  | PartEvent crid cresponse error_code
  | RedirectEvent crid cresponse redirect_context
  | ContinueEvent crid

record cworld =
  client :: "clid \<Rightarrow> client"
  creq :: "crid \<Rightarrow> crequest"
  pool :: pool
  next_clid :: clid
  jar :: string
  cevents :: "cevent list"

text \<open>
  Code outside the repository: the clock of the loop, the port and the security of a URI, its parser,
  whether the default paths of certificates can be used, the two default SSL contexts, the lookup of
  headers, the compression preferences, and the order of the addresses of client objects (the order
  of \<^verbatim>\<open>std::set\<close>).
\<close>

record cext =
  cx_now :: u64
  cx_port :: "uri \<Rightarrow> 16 word"
  cx_secure :: "uri \<Rightarrow> bool"
  cx_parse_uri :: "string \<Rightarrow> uri"
  cx_verify_paths :: bool
  cx_default_ssl :: "bool \<Rightarrow> nat"
  cx_has_header :: "(string \<times> string) list \<Rightarrow> string \<Rightarrow> bool"
  cx_identity :: "8 word"
  cx_allow_gzip :: "8 word \<Rightarrow> 8 word"
  cx_addr :: "clid \<Rightarrow> nat"

type_synonym ccallbacks = "cevent \<Rightarrow> cworld call"

definition cfire :: "ccallbacks \<Rightarrow> cevent \<Rightarrow> cworld call" where
  "cfire cb ev w = cb ev (w\<lparr>cevents := cevents w @ [ev]\<rparr>)"

section \<open>Updates\<close>

definition upd_client :: "clid \<Rightarrow> (client \<Rightarrow> client) \<Rightarrow> cworld \<Rightarrow> cworld" where
  "upd_client c f w = w\<lparr>client := (client w)(c := f (client w c))\<rparr>"

definition upd_creq :: "crid \<Rightarrow> (crequest \<Rightarrow> crequest) \<Rightarrow> cworld \<Rightarrow> cworld" where
  "upd_creq r f w = w\<lparr>creq := (creq w)(r := f (creq w r))\<rparr>"

definition upd_entries ::
  "((netloc \<times> netloc_list) list \<Rightarrow> (netloc \<times> netloc_list) list) \<Rightarrow> cworld \<Rightarrow> cworld" where
  "upd_entries f w = w\<lparr>pool := (pool w)\<lparr>p_entries := f (p_entries (pool w))\<rparr>\<rparr>"

lemma upd_client_simps [simp]:
  "client (upd_client c f w) d = (if d = c then f (client w c) else client w d)"
  "creq (upd_client c f w) = creq w" "pool (upd_client c f w) = pool w"
  "next_clid (upd_client c f w) = next_clid w" "cevents (upd_client c f w) = cevents w"
  "jar (upd_client c f w) = jar w"
  by (simp_all add: upd_client_def)

lemma upd_creq_simps [simp]:
  "creq (upd_creq r f w) q = (if q = r then f (creq w r) else creq w q)"
  "client (upd_creq r f w) = client w" "pool (upd_creq r f w) = pool w"
  "next_clid (upd_creq r f w) = next_clid w" "cevents (upd_creq r f w) = cevents w"
  "jar (upd_creq r f w) = jar w"
  by (simp_all add: upd_creq_def)

lemma upd_entries_simps [simp]:
  "client (upd_entries f w) = client w" "creq (upd_entries f w) = creq w"
  "p_entries (pool (upd_entries f w)) = f (p_entries (pool w))"
  "p_idle_timeout (pool (upd_entries f w)) = p_idle_timeout (pool w)"
  "p_idle_timer (pool (upd_entries f w)) = p_idle_timer (pool w)"
  "p_max_connections (pool (upd_entries f w)) = p_max_connections (pool w)"
  "next_clid (upd_entries f w) = next_clid w" "cevents (upd_entries f w) = cevents w"
  "jar (upd_entries f w) = jar w"
  by (simp_all add: upd_entries_def)

text \<open>
  The operations of the stream the sources use. \<^verbatim>\<open>reset\<close> also reports the pending operations as
  canceled to \<^verbatim>\<open>on_connect\<close> and \<^verbatim>\<open>on_write\<close>, which ignore that, since the client has no request then.
\<close>

definition tcp_reset :: "clid \<Rightarrow> cworld \<Rightarrow> cworld" where
  "tcp_reset c = upd_client c (\<lambda>k. k\<lparr>cl_connected := False, cl_connecting := False\<rparr>)"

definition tcp_connect :: "clid \<Rightarrow> u64 \<Rightarrow> cworld \<Rightarrow> cworld" where
  "tcp_connect c timeout = upd_client c (\<lambda>k. k\<lparr>cl_connecting := True, cl_connected := False,
     cl_connect_timeout := timeout, cl_out := []\<rparr>)"

definition tcp_write :: "clid \<Rightarrow> cwire \<Rightarrow> cworld \<Rightarrow> cworld" where
  "tcp_write c x = upd_client c (\<lambda>k. k\<lparr>cl_out := cl_out k @ [x]\<rparr>)"

definition tcp_weak :: "clid \<Rightarrow> bool \<Rightarrow> cworld \<Rightarrow> cworld" where
  "tcp_weak c b = upd_client c (\<lambda>k. k\<lparr>cl_weak := b\<rparr>)"

lemma tcp_simps [simp]:
  "client (tcp_reset c w) d =
     (if d = c then (client w c)\<lparr>cl_connected := False, cl_connecting := False\<rparr> else client w d)"
  "client (tcp_connect c t w) d =
     (if d = c then (client w c)\<lparr>cl_connecting := True, cl_connected := False,
        cl_connect_timeout := t, cl_out := []\<rparr> else client w d)"
  "client (tcp_write c x w) d =
     (if d = c then (client w c)\<lparr>cl_out := cl_out (client w c) @ [x]\<rparr> else client w d)"
  "client (tcp_weak c b w) d = (if d = c then (client w c)\<lparr>cl_weak := b\<rparr> else client w d)"
  "creq (tcp_reset c w) = creq w" "creq (tcp_connect c t w) = creq w"
  "creq (tcp_write c x w) = creq w" "creq (tcp_weak c b w) = creq w"
  "pool (tcp_reset c w) = pool w" "pool (tcp_connect c t w) = pool w"
  "pool (tcp_write c x w) = pool w" "pool (tcp_weak c b w) = pool w"
  "cevents (tcp_reset c w) = cevents w" "cevents (tcp_connect c t w) = cevents w"
  "cevents (tcp_write c x w) = cevents w" "cevents (tcp_weak c b w) = cevents w"
  "next_clid (tcp_reset c w) = next_clid w" "next_clid (tcp_connect c t w) = next_clid w"
  "next_clid (tcp_write c x w) = next_clid w" "next_clid (tcp_weak c b w) = next_clid w"
  "jar (tcp_reset c w) = jar w" "jar (tcp_connect c t w) = jar w"
  "jar (tcp_write c x w) = jar w" "jar (tcp_weak c b w) = jar w"
  by (simp_all add: tcp_reset_def tcp_connect_def tcp_write_def tcp_weak_def)

end
