(* ===== verification/ClientRequest.thy ===== *)
theory ClientRequest
  imports ClientState
begin

text \<open>
  What a client does when it is given a request: the parts of \<^verbatim>\<open>Request\<close> it uses (\<^verbatim>\<open>Request.h\<close>,
  \<^verbatim>\<open>Request.icc\<close>), \<^verbatim>\<open>Client::request\<close> (\<^verbatim>\<open>Client.cc\<close>) and the streaming of forms (\<^verbatim>\<open>Form.cc\<close>).
\<close>

section \<open>The request\<close>

definition Request_netloc :: "cext \<Rightarrow> crequest \<Rightarrow> netloc" where
  "Request_netloc X q =
     (case cq_proxy q of
        Some (pid, pu) \<Rightarrow>
          if u_scheme pu = ''http''
          then \<lparr>nl_host = u_host pu, nl_port = cx_port X pu, nl_ssl_ctx = None, nl_proxy = None,
                nl_check = False\<rparr>
          else \<lparr>nl_host = u_host (the (cq_uri q)), nl_port = cx_port X (the (cq_uri q)),
                nl_ssl_ctx = cq_ssl_ctx q, nl_proxy = Some pid, nl_check = cq_check_cert q\<rparr>
      | None \<Rightarrow> \<lparr>nl_host = u_host (the (cq_uri q)), nl_port = cx_port X (the (cq_uri q)),
                nl_ssl_ctx = cq_ssl_ctx q, nl_proxy = None, nl_check = cq_check_cert q\<rparr>)"

definition Request_check :: "crequest \<Rightarrow> exn option" where
  "Request_check q =
     (case cq_uri q of
        None \<Rightarrow> Some (HttpError ''request must have uri'')
      | Some u \<Rightarrow> if u_host u = '''' then Some (HttpError ''uri must have host'') else None)"

definition timer_active :: "crequest \<Rightarrow> bool" where
  "timer_active q \<longleftrightarrow> (case cq_timer q of None \<Rightarrow> False | Some (active, listens) \<Rightarrow> active)"

text \<open>An active timer goes on, with the time it has left: the request may have been redirected.\<close>

definition ensure_timer_active :: "crequest \<Rightarrow> crequest" where
  "ensure_timer_active q =
     (if cq_timeout q = 0 then q else q\<lparr>cq_timer := Some (True, True)\<rparr>)"

definition cleanup_after_redirect :: "crequest \<Rightarrow> crequest" where
  "cleanup_after_redirect q =
     q\<lparr>cq_client := None, cq_transferred := False,
       cq_timer := map_option (\<lambda>(active, listens). (active, False)) (cq_timer q)\<rparr>"

definition finished_request :: "crequest \<Rightarrow> crequest" where
  "finished_request q =
     (cleanup_after_redirect q)\<lparr>cq_counter := 0, cq_pool := False,
       cq_timer := map_option (\<lambda>_. (False, False)) (cq_timer q)\<rparr>"

definition finish_and_notify ::
  "ccallbacks \<Rightarrow> crid \<Rightarrow> cresponse option \<Rightarrow> error_code \<Rightarrow> cworld call" where
  "finish_and_notify cb r res err w =
     (let p = (case res of None \<Rightarrow> empty_response | Some p \<Rightarrow> p)
      in run [pure_step (upd_creq r finished_request),
              cfire cb (PartEvent r p err),
              cfire cb (ResponseEvent r p err)] w)"

section \<open>Streaming of a form\<close>

text \<open>
  \<^verbatim>\<open>start\<close> of an item: whether the item is done with it. A file goes on as long as its streamer runs,
  and reports its end to the client.
\<close>

definition set_item :: "nat \<Rightarrow> form_item \<Rightarrow> crequest \<Rightarrow> crequest" where
  "set_item k x q = q\<lparr>cq_form := (cq_form q)[k := x]\<rparr>"

fun start_item :: "clid \<Rightarrow> crid \<Rightarrow> nat \<Rightarrow> form_item \<Rightarrow> cworld \<Rightarrow> bool \<times> cworld" where
  "start_item c r k (FormField name content) w =
     (True, tcp_write c (PartField r name content) w)"
| "start_item c r k (FormEmbeddedFile name content mime filename) w =
     (True, tcp_write c (PartData r content) (tcp_write c (PartFile r name filename mime) w))"
| "start_item c r k (FormFile name inp mime filename streamer) w =
     (False, tcp_write c (PartFile r name filename mime)
        (upd_creq r (set_item k (FormFile name None mime filename (Some (inp, c, True)))) w))"

text \<open>\<^verbatim>\<open>stop\<close> of an item; only a file does something, and it uses its streamer.\<close>

fun stop_item :: "crid \<Rightarrow> nat \<Rightarrow> form_item \<Rightarrow> cworld call" where
  "stop_item r k (FormFile name inp mime filename (Some st)) w =
     Done (upd_creq r (set_item k (FormFile name inp mime filename None)) w)"
| "stop_item r k (FormFile name inp mime filename None) w = Crash NullDeref"
| "stop_item r k x w = Done w"

text \<open>
  The loop of \<^verbatim>\<open>send_form\<close>, bounded by the number of items that are left; a negative index is out of
  the range of \<^verbatim>\<open>at\<close>.
\<close>

primrec form_loop :: "clid \<Rightarrow> crid \<Rightarrow> nat \<Rightarrow> cworld call" where
  "form_loop c r 0 w =
     (if cl_form_field (client w c) < int (length (cq_form (creq w r))) then Crash LoopBound
      else Done w)"
| "form_loop c r (Suc n) w =
     (let k = cl_form_field (client w c)
      in if int (length (cq_form (creq w r))) \<le> k then Done w
         else if k < 0 then Crash OutOfRange
         else (let (d, w) = start_item c r (nat k) (cq_form (creq w r) ! nat k) w
               in if d then form_loop c r n (upd_client c (\<lambda>k. k\<lparr>cl_form_field := cl_form_field k + 1\<rparr>) w)
                  else Done w))"

definition form_end :: "clid \<Rightarrow> crid \<Rightarrow> cworld \<Rightarrow> cworld" where
  "form_end c r w =
     (if cl_form_field (client w c) = int (length (cq_form (creq w r)))
      then upd_creq r (\<lambda>q. q\<lparr>cq_transferred := True\<rparr>)
             (tcp_write c (FormEnd r) (upd_client c (\<lambda>k. k\<lparr>cl_form_field := - 1\<rparr>) w))
      else w)"

definition send_form :: "clid \<Rightarrow> cworld call" where
  "send_form c w =
     (case cl_request (client w c) of
        None \<Rightarrow> Crash AssertFailed
      | Some r \<Rightarrow>
          run [form_loop c r (nat (int (length (cq_form (creq w r))) - cl_form_field (client w c))),
               pure_step (form_end c r)] w)"

section \<open>Opening the connection\<close>

text \<open>Whether the connection the client has is not used for the request.\<close>

definition needs_connect :: "cext \<Rightarrow> clid \<Rightarrow> crid \<Rightarrow> cworld \<Rightarrow> bool" where
  "needs_connect X c r w \<longleftrightarrow>
     \<not> cl_connected (client w c) \<or>
     \<not> netloc_eq (cl_netloc (client w c)) (Request_netloc X (creq w r)) \<or> \<not> cq_keep (creq w r)"

text \<open>\<^verbatim>\<open>drop_connection\<close>: the request is put aside during the reset and put back.\<close>

definition drop_connection :: "clid \<Rightarrow> cworld \<Rightarrow> cworld" where
  "drop_connection = tcp_reset"

definition clear_filters :: "clid \<Rightarrow> cworld \<Rightarrow> cworld" where
  "clear_filters c = upd_client c (\<lambda>k. k\<lparr>cl_tls := None, cl_socks := None\<rparr>)"

definition get_default_ssl_context :: "cext \<Rightarrow> bool \<Rightarrow> exn + nat" where
  "get_default_ssl_context X verify =
     (if verify \<and> \<not> cx_verify_paths X
      then Inl (HttpError ''can not set ssl certificate default verify paths'')
      else Inr (cx_default_ssl X verify))"

definition use_ssl :: "cext \<Rightarrow> clid \<Rightarrow> crid \<Rightarrow> cworld call" where
  "use_ssl X c r w =
     (if \<not> cx_secure X (the (cq_uri (creq w r))) then Done w
      else (case cq_ssl_ctx (creq w r) of
              Some ctx \<Rightarrow> Done (upd_client c (\<lambda>k. k\<lparr>cl_tls := Some ctx\<rparr>) w)
            | None \<Rightarrow>
                (case get_default_ssl_context X (cq_check_cert (creq w r)) of
                   Inl e \<Rightarrow> Throw e w
                 | Inr ctx \<Rightarrow> Done (upd_client c (\<lambda>k. k\<lparr>cl_tls := Some ctx\<rparr>) w))))"

definition use_proxy :: "clid \<Rightarrow> crid \<Rightarrow> cworld call" where
  "use_proxy c r w =
     (case cq_proxy (creq w r) of
        None \<Rightarrow> Done w
      | Some (pid, pu) \<Rightarrow>
          if u_scheme pu = ''socks5''
          then Done (upd_client c (\<lambda>k. k\<lparr>cl_socks := Some (pu, cq_proxy_resolve (creq w r))\<rparr>) w)
          else if u_scheme pu = ''http'' then Done w
          else Throw (HttpError ''client supports only socks5 protocol for proxy'') w)"

definition connect_timeout_of :: "crequest \<Rightarrow> u64" where
  "connect_timeout_of q = (if cq_connect_timeout q \<noteq> 0 then cq_connect_timeout q else cq_timeout q)"

definition start_connect :: "cext \<Rightarrow> clid \<Rightarrow> crid \<Rightarrow> cworld \<Rightarrow> cworld" where
  "start_connect X c r w =
     (let q = creq w r
      in tcp_connect c (connect_timeout_of q)
           (upd_client c (\<lambda>k. k\<lparr>cl_nodelay := cl_nodelay k \<or> cq_nodelay q,
              cl_netloc := Request_netloc X q\<rparr>) w))"

definition open_connection :: "cext \<Rightarrow> clid \<Rightarrow> crid \<Rightarrow> cworld call" where
  "open_connection X c r =
     run [pure_step (\<lambda>w. if cl_connected (client w c) then drop_connection c w else w),
          pure_step (clear_filters c),
          use_ssl X c r,
          use_proxy c r,
          pure_step (start_connect X c r)]"

section \<open>\<^verbatim>\<open>Client::request\<close>\<close>

text \<open>\<open>request->_client = this; if (!request->uri->scheme()) request->uri->scheme("http")\<close>\<close>

definition claim_request :: "clid \<Rightarrow> crequest \<Rightarrow> crequest" where
  "claim_request c q =
     q\<lparr>cq_client := Some c,
       cq_uri := map_option (\<lambda>u. if u_scheme u = '''' then u\<lparr>u_scheme := ''http''\<rparr> else u) (cq_uri q)\<rparr>"

definition allow_compression :: "cext \<Rightarrow> crequest \<Rightarrow> crequest" where
  "allow_compression X q =
     (if cq_compression q = cx_identity X \<and> \<not> cx_has_header X (cq_headers q) ''Accept-Encoding''
      then q\<lparr>cq_compression := cx_allow_gzip X (cq_compression q)\<rparr> else q)"

text \<open>Whether nothing is left to be sent after the head and the body that go with it.\<close>

definition sent_at_once :: "crequest \<Rightarrow> bool" where
  "sent_at_once q \<longleftrightarrow> \<not> cq_streaming q \<and> (\<not> cq_chunked q \<or> cq_body q \<noteq> '''')"

definition request_head :: "crid \<Rightarrow> crequest \<Rightarrow> cwire" where
  "request_head r q =
     ReqHead r (the (cq_uri q)) (cq_headers q) (cq_cookies q) (cq_body q) (sent_at_once q)"

definition write_request :: "clid \<Rightarrow> crid \<Rightarrow> cworld \<Rightarrow> cworld" where
  "write_request c r w =
     tcp_write c (request_head r (creq w r)) (upd_client c (\<lambda>k. k\<lparr>cl_ctx := Some r\<rparr>) w)"

definition send_body :: "clid \<Rightarrow> crid \<Rightarrow> cworld call" where
  "send_body c r w =
     (if cq_streaming (creq w r)
      then send_form c (upd_client c (\<lambda>k. k\<lparr>cl_form_field := 0\<rparr>) w)
      else Done (if sent_at_once (creq w r)
                 then upd_creq r (\<lambda>q. q\<lparr>cq_transferred := True\<rparr>) w else w))"

definition Client_request :: "cext \<Rightarrow> clid \<Rightarrow> crid \<Rightarrow> cworld call" where
  "Client_request X c r w =
     (if cl_request (client w c) \<noteq> None then
        Throw (HttpError ''client supports only one request at a time'') w
      else if cq_client (creq w r) \<noteq> None then
        Throw (HttpError ''request is already in progress'') w
      else case Request_check (creq w r) of
        Some e \<Rightarrow> Throw e w
      | None \<Rightarrow>
          run [pure_step (upd_creq r (claim_request c)),
               when_step (needs_connect X c r) (open_connection X c r),
               pure_step (upd_creq r ensure_timer_active),
               pure_step (tcp_weak c False),
               pure_step (upd_client c (\<lambda>k. k\<lparr>cl_request := Some r\<rparr>)),
               pure_step (upd_creq r (allow_compression X)),
               pure_step (write_request c r),
               send_body c r] w)"

section \<open>Chunks\<close>

definition Client_send_chunk :: "clid \<Rightarrow> crid \<Rightarrow> string \<Rightarrow> cworld call" where
  "Client_send_chunk c r chunk w =
     (if cl_request (client w c) \<noteq> Some r then Crash AssertFailed
      else if chunk = '''' then Done w
      else Done (tcp_write c (ReqChunk r chunk) w))"

definition Client_send_final_chunk :: "clid \<Rightarrow> crid \<Rightarrow> string \<Rightarrow> cworld call" where
  "Client_send_final_chunk c r chunk w =
     (if cl_request (client w c) \<noteq> Some r then Crash AssertFailed
      else Done (tcp_write c (ReqFinal r chunk)
                  (upd_creq r (\<lambda>q. q\<lparr>cq_transferred := True\<rparr>) w)))"

definition Request_send_chunk :: "crid \<Rightarrow> string \<Rightarrow> cworld call" where
  "Request_send_chunk r chunk w =
     (if cq_transferred (creq w r) then
        Throw (HttpError (''can'' @ [CHR 39] @
          ''t send chunk: request has already been transfered'')) w
      else (case cq_client (creq w r) of
              None \<Rightarrow> Throw (HttpError (''can'' @ [CHR 39] @
                ''t send chunk: request is not active'')) w
            | Some c \<Rightarrow> Client_send_chunk c r chunk w))"

definition Request_send_final_chunk :: "crid \<Rightarrow> string \<Rightarrow> cworld call" where
  "Request_send_final_chunk r chunk w =
     (if cq_transferred (creq w r) then
        Throw (HttpError (''can'' @ [CHR 39] @
          ''t send chunk: request has already been transfered'')) w
      else (case cq_client (creq w r) of
              None \<Rightarrow> Throw (HttpError (''can'' @ [CHR 39] @
                ''t send chunk: request is not active'')) w
            | Some c \<Rightarrow> Client_send_final_chunk c r chunk w))"

end
