(* ===== verification/Pool.thy ===== *)
theory Pool
  imports ClientRequest "HOL-Library.AList"
begin

text \<open>
  \<^verbatim>\<open>Pool\<close> (\<^verbatim>\<open>Pool.h\<close>, \<^verbatim>\<open>Pool.cc\<close>): the clients for each network location, free or busy, and the
  requests that wait for one. The hash map is an association list with one entry for each location;
  nothing in the code depends on its order but the order in which the destructor cancels requests.
\<close>

section \<open>Configuration\<close>

definition POOL_IDLE_TIMEOUT :: u32 where
  "POOL_IDLE_TIMEOUT = 60000"

definition POOL_MAX_CONNECTIONS :: u32 where
  "POOL_MAX_CONNECTIONS = 10"

text \<open>The timer is repeated, its interval is the second component of the pool's state.\<close>

definition Pool_idle_timeout :: "u32 \<Rightarrow> pool \<Rightarrow> pool" where
  "Pool_idle_timeout val p =
     (if val = 0 then p\<lparr>p_idle_timeout := val, p_idle_timer := None\<rparr>
      else p\<lparr>p_idle_timeout := val, p_idle_timer := Some (if 1000 \<le> val then 1000 else val)\<rparr>)"

definition new_pool :: "u32 \<Rightarrow> u32 \<Rightarrow> pool" where
  "new_pool max_conn timeout =
     Pool_idle_timeout timeout
       \<lparr>p_entries = [], p_idle_timeout = 0, p_idle_timer = None, p_max_connections = max_conn\<rparr>"

definition Pool_max_connections :: "u32 \<Rightarrow> pool \<Rightarrow> pool" where
  "Pool_max_connections val p = p\<lparr>p_max_connections := val\<rparr>"

section \<open>Entries\<close>

abbreviation entry :: "cworld \<Rightarrow> netloc \<Rightarrow> netloc_list option" where
  "entry w nl \<equiv> map_of (p_entries (pool w)) nl"

definition set_entry :: "netloc \<Rightarrow> netloc_list \<Rightarrow> cworld \<Rightarrow> cworld" where
  "set_entry nl L = upd_entries (AList.update nl L)"

text \<open>\<open>*begin()\<close> of a set of clients: the one with the lowest address.\<close>

fun first_client :: "cext \<Rightarrow> clid \<Rightarrow> clid list \<Rightarrow> clid" where
  "first_client X c [] = c"
| "first_client X c (d # ds) = first_client X (if cx_addr X d < cx_addr X c then d else c) ds"

definition make_client :: "cworld \<Rightarrow> clid \<times> cworld" where
  "make_client w =
     (next_clid w, (upd_client (next_clid w) (\<lambda>_. new_client True) w)\<lparr>next_clid := Suc (next_clid w)\<rparr>)"

section \<open>\<^verbatim>\<open>Pool::request\<close>\<close>

text \<open>The client that takes the request, or \<open>None\<close> when the request is queued.\<close>

definition Pool_pick :: "cext \<Rightarrow> crid \<Rightarrow> cworld \<Rightarrow> clid option \<times> cworld" where
  "Pool_pick X r w =
     (let nl = Request_netloc X (creq w r)
      in case entry w nl of
           None \<Rightarrow>
             (let (c, w) = make_client w
              in (Some c, set_entry nl \<lparr>nl_free = [], nl_busy = [c], nl_queue = [], nl_version = 0\<rparr> w))
         | Some L \<Rightarrow>
             (case nl_free L of
                f # fs \<Rightarrow>
                  (let c = first_client X f fs
                   in (Some c, set_entry nl (L\<lparr>nl_free := remove1 c (nl_free L),
                                                nl_busy := List.insert c (nl_busy L)\<rparr>) w))
              | [] \<Rightarrow>
                  if length (nl_busy L) < unat (p_max_connections (pool w)) then
                    (let (c, w) = make_client w
                     in (Some c, set_entry nl (L\<lparr>nl_busy := List.insert c (nl_busy L)\<rparr>) w))
                  else
                    (None, upd_creq r ensure_timer_active
                       (set_entry nl (L\<lparr>nl_queue := nl_queue L @ [r],
                                         nl_version := Suc (nl_version L)\<rparr>) w))))"

definition Pool_request :: "cext \<Rightarrow> crid \<Rightarrow> cworld call" where
  "Pool_request X r w =
     (case Request_check (creq w r) of
        Some e \<Rightarrow> Throw e w
      | None \<Rightarrow>
          (case Pool_pick X r (upd_creq r (\<lambda>q. q\<lparr>cq_pool := True\<rparr>) w) of
             (None, w) \<Rightarrow> Done w
           | (Some c, w) \<Rightarrow> Client_request X c r w))"

section \<open>\<^verbatim>\<open>Pool::putback\<close>\<close>

definition Pool_putback :: "cext \<Rightarrow> clid \<Rightarrow> cworld call" where
  "Pool_putback X c w =
     (let nl = cl_netloc (client w c)
      in case entry w nl of
           None \<Rightarrow> Crash AssertFailed
         | Some L \<Rightarrow>
             (case nl_queue L of
                r # rs \<Rightarrow>
                  Client_request X c r
                    (set_entry nl (L\<lparr>nl_queue := rs, nl_version := Suc (nl_version L)\<rparr>) w)
              | [] \<Rightarrow>
                  if c \<notin> set (nl_busy L) then Crash AssertFailed
                  else Done (set_entry nl (L\<lparr>nl_busy := remove1 c (nl_busy L),
                                             nl_free := List.insert c (nl_free L)\<rparr>) w)))"

section \<open>\<^verbatim>\<open>Pool::cancel_request\<close>\<close>

text \<open>
  The request is notified before it is erased through the iterator found before; if the deque was
  changed meanwhile, the iterator is not valid any more. (The standard leaves it valid after some
  changes at the ends; the model counts every change.)
\<close>

definition erase_queued :: "netloc \<Rightarrow> nat \<Rightarrow> crid \<Rightarrow> cworld call" where
  "erase_queued nl version r w =
     (case entry w nl of
        None \<Rightarrow> Crash InvalidIterator
      | Some L \<Rightarrow>
          if nl_version L \<noteq> version then Crash InvalidIterator
          else Done (set_entry nl (L\<lparr>nl_queue := remove1 r (nl_queue L),
                                     nl_version := Suc (nl_version L)\<rparr>) w))"

definition Pool_cancel_request :: "cext \<Rightarrow> ccallbacks \<Rightarrow> crid \<Rightarrow> error_code \<Rightarrow> cworld call" where
  "Pool_cancel_request X cb r err w =
     (let nl = Request_netloc X (creq w r)
      in case entry w nl of
           None \<Rightarrow> Crash AssertFailed
         | Some L \<Rightarrow>
             if r \<notin> set (nl_queue L) then Crash AssertFailed
             else run [finish_and_notify cb r None err, erase_queued nl (nl_version L) r] w)"

section \<open>Inactive clients, counts, destruction\<close>

text \<open>The clock is 64 bits wide and unsigned; the difference wraps.\<close>

definition keep_active :: "cext \<Rightarrow> cworld \<Rightarrow> clid \<Rightarrow> bool" where
  "keep_active X w c \<longleftrightarrow>
     \<not> cl_last_activity (client w c) < cx_now X - ucast (p_idle_timeout (pool w))"

fun purge :: "(clid \<Rightarrow> bool) \<Rightarrow> (netloc \<times> netloc_list) list \<Rightarrow> (netloc \<times> netloc_list) list" where
  "purge keep [] = []"
| "purge keep ((nl, L) # es) =
     (let fs = filter keep (nl_free L)
      in if fs = [] \<and> nl_busy L = [] then purge keep es
         else (nl, L\<lparr>nl_free := fs\<rparr>) # purge keep es)"

definition Pool_check_inactivity :: "cext \<Rightarrow> cworld \<Rightarrow> cworld" where
  "Pool_check_inactivity X w = upd_entries (purge (keep_active X w)) w"

definition Pool_size :: "pool \<Rightarrow> nat" where
  "Pool_size p = sum_list (map (\<lambda>(nl, L). length (nl_free L) + length (nl_busy L)) (p_entries p))"

definition Pool_nbusy :: "pool \<Rightarrow> nat" where
  "Pool_nbusy p = sum_list (map (\<lambda>(nl, L). length (nl_busy L)) (p_entries p))"

definition Pool_empty :: "pool \<Rightarrow> bool" where
  "Pool_empty p \<longleftrightarrow> p_entries p = []"

text \<open>The destructor: the busy clients lose the pool, the waiting requests are canceled.\<close>

definition Pool_release :: "ccallbacks \<Rightarrow> netloc_list \<Rightarrow> cworld call" where
  "Pool_release cb L =
     run (pure_step (fold (\<lambda>c. upd_client c (\<lambda>k. k\<lparr>cl_pooled := False\<rparr>)) (nl_busy L)) #
          map (\<lambda>r. finish_and_notify cb r None (StdErrc operation_canceled)) (nl_queue L))"

definition Pool_destroy :: "ccallbacks \<Rightarrow> cworld call" where
  "Pool_destroy cb w = run (map (\<lambda>(nl, L). Pool_release cb L) (p_entries (pool w))) w"

end
