(* ===== verification/Client.thy ===== *)
theory Client
  imports Pool
begin

text \<open>
  \<^verbatim>\<open>Client\<close> (\<^verbatim>\<open>Client.cc\<close>): from the answer of the server to the end of a request, with redirects,
  cancellation and the return to the pool.
\<close>

section \<open>The end of a request\<close>

text \<open>\<open>err = errc::transfer_aborted\<close> if the answer came before the request was sent in full.\<close>

definition final_error :: "error_code \<Rightarrow> crequest \<Rightarrow> error_code" where
  "final_error err q =
     (if err = NoError \<and> \<not> cq_transferred q then HttpErrc transfer_aborted else err)"

definition settle_connection ::
  "clid \<Rightarrow> error_code \<Rightarrow> cresponse option \<Rightarrow> crequest \<Rightarrow> cworld call" where
  "settle_connection c err res q w =
     (if err \<noteq> NoError then Done (drop_connection c w)
      else (case res of
              None \<Rightarrow> Crash NullDeref
            | Some p \<Rightarrow>
                if \<not> rp_keep p \<or> \<not> cq_keep q then Done (drop_connection c w)
                else Done (tcp_weak c True w)))"

definition stop_form :: "clid \<Rightarrow> crid \<Rightarrow> cworld call" where
  "stop_form c r w =
     (let k = cl_form_field (client w c)
      in if k < 0 then Done w
         else if int (length (cq_form (creq w r))) \<le> k then Crash OutOfRange
         else run [stop_item r (nat k) (cq_form (creq w r) ! nat k),
                   pure_step (upd_client c (\<lambda>k. k\<lparr>cl_form_field := - 1\<rparr>))] w)"

definition finish_request :: "cext \<Rightarrow> ccallbacks \<Rightarrow> clid \<Rightarrow> error_code \<Rightarrow> cworld call" where
  "finish_request X cb c err0 w =
     (case cl_request (client w c) of
        None \<Rightarrow> Crash NullDeref
      | Some r \<Rightarrow>
          (let res = cl_response (client w c);
               err = final_error err0 (creq w r)
           in run [pure_step (upd_client c (\<lambda>k. k\<lparr>cl_request := None, cl_response := None\<rparr>)),
                   settle_connection c err res (creq w r),
                   stop_form c r,
                   pure_step (upd_client c (\<lambda>k. k\<lparr>cl_last_activity := cx_now X\<rparr>)),
                   when_step (\<lambda>w. cl_pooled (client w c)) (Pool_putback X c),
                   finish_and_notify cb r res err] w))"

definition Client_cancel :: "cext \<Rightarrow> ccallbacks \<Rightarrow> clid \<Rightarrow> error_code \<Rightarrow> cworld call" where
  "Client_cancel X cb c err w =
     (if cl_request (client w c) = None then Done w
      else run [pure_step (upd_client c (\<lambda>k. k\<lparr>cl_ctx := None\<rparr>)),
                pure_step (upd_client c (\<lambda>k.
                  if cl_in_redirect k then k\<lparr>cl_redirect_canceled := True\<rparr> else k)),
                finish_request X cb c err] w)"

definition timed_out_error :: "client \<Rightarrow> error_code" where
  "timed_out_error k =
     (if cl_connecting k then NestedErrc connect_error (StdErrc timed_out) else StdErrc timed_out)"

definition Client_timed_out :: "cext \<Rightarrow> ccallbacks \<Rightarrow> clid \<Rightarrow> cworld call" where
  "Client_timed_out X cb c w = Client_cancel X cb c (timed_out_error (client w c)) w"

definition Request_cancel :: "cext \<Rightarrow> ccallbacks \<Rightarrow> crid \<Rightarrow> error_code \<Rightarrow> cworld call" where
  "Request_cancel X cb r err w =
     (case cq_client (creq w r) of
        Some c \<Rightarrow> Client_cancel X cb c err w
      | None \<Rightarrow> if cq_pool (creq w r) then Pool_cancel_request X cb r err w else Done w)"

definition Request_on_timer :: "cext \<Rightarrow> ccallbacks \<Rightarrow> crid \<Rightarrow> cworld call" where
  "Request_on_timer X cb r w =
     (case cq_client (creq w r) of
        Some c \<Rightarrow> Client_timed_out X cb c w
      | None \<Rightarrow> if cq_pool (creq w r) then Pool_cancel_request X cb r (StdErrc timed_out) w
                else Done w)"

section \<open>Redirects\<close>

definition is_redirect :: "int \<Rightarrow> bool" where
  "is_redirect code \<longleftrightarrow>
     code = 300 \<or> code = 301 \<or> code = 302 \<or> code = 303 \<or> code = 307 \<or> code = 308"

text \<open>The target: what the location leaves out is taken from the URI of the request.\<close>

definition redirect_target :: "cext \<Rightarrow> uri \<Rightarrow> string \<Rightarrow> uri" where
  "redirect_target X prev loc =
     (let u = cx_parse_uri X loc;
          u = (if u_scheme u = '''' then u\<lparr>u_scheme := u_scheme prev\<rparr> else u)
      in if u_host u = '''' then
           (let u = u\<lparr>u_host := u_host prev\<rparr>
            in if u_port prev \<noteq> 0 then u\<lparr>u_port := cx_port X prev\<rparr> else u)
         else u)"

text \<open>The names are compared as strings.\<close>

definition sensitive :: "string \<Rightarrow> bool" where
  "sensitive name \<longleftrightarrow>
     name = ''Authorization'' \<or> name = ''Cookie'' \<or> name = ''Host'' \<or> name = ''Referer''"

definition redirect_ctx_of :: "crequest \<Rightarrow> redirect_context" where
  "redirect_ctx_of q =
     \<lparr>rc_uri = the (cq_uri q), rc_ssl_ctx = cq_ssl_ctx q, rc_cookies = cq_cookies q,
      rc_removed = filter (\<lambda>h. sensitive (fst h)) (cq_headers q)\<rparr>"

definition redirected :: "uri \<Rightarrow> crequest \<Rightarrow> crequest" where
  "redirected u q =
     q\<lparr>cq_headers := filter (\<lambda>h. \<not> sensitive (fst h)) (cq_headers q),
       cq_ssl_ctx := None, cq_cookies := [], cq_uri := Some u\<rparr>"

text \<open>
  \<^verbatim>\<open>redirect_event\<close> inside its \<^verbatim>\<open>try\<close>: on an exception the request is canceled and the exception goes
  on.
\<close>

definition fire_redirect ::
  "cext \<Rightarrow> ccallbacks \<Rightarrow> clid \<Rightarrow> cevent \<Rightarrow> cworld call" where
  "fire_redirect X cb c ev w =
     (case cfire cb ev (upd_client c (\<lambda>k. k\<lparr>cl_in_redirect := True\<rparr>) w) of
        Done w \<Rightarrow> Done (upd_client c (\<lambda>k. k\<lparr>cl_in_redirect := False\<rparr>) w)
      | Throw e w \<Rightarrow>
          (case Client_cancel X cb c (StdErrc operation_canceled)
                  (upd_client c (\<lambda>k. k\<lparr>cl_in_redirect := False, cl_redirect_canceled := False\<rparr>) w) of
             Done w \<Rightarrow> Throw e w
           | Throw e' w \<Rightarrow> Throw e' w
           | Crash f \<Rightarrow> Crash f)
      | Crash f \<Rightarrow> Crash f)"

definition see_other :: "int \<Rightarrow> crequest \<Rightarrow> crequest" where
  "see_other code q = (if code = 303 then q\<lparr>cq_method := ''GET'', cq_body := ''''\<rparr> else q)"

text \<open>
  After the event: the request leaves the client and is requested again, by the pool when the host or
  the port is another one.
\<close>

definition follow_redirect :: "cext \<Rightarrow> clid \<Rightarrow> cworld call" where
  "follow_redirect X c w =
     (case (cl_request (client w c), cl_response (client w c)) of
        (Some r, Some p) \<Rightarrow>
          (let w = upd_creq r (see_other (rp_code p)) w;
               nl = Request_netloc X (creq w r);
               elsewhere = (cl_pooled (client w c) \<and>
                 (nl_host nl \<noteq> nl_host (cl_netloc (client w c)) \<or>
                  nl_port nl \<noteq> nl_port (cl_netloc (client w c))))
           in run [pure_step (upd_client c (\<lambda>k. k\<lparr>cl_request := None, cl_response := None\<rparr>)),
                   pure_step (\<lambda>w. if rp_keep p then w else tcp_reset c w),
                   pure_step (upd_creq r cleanup_after_redirect),
                   if elsewhere then
                     run [pure_step (upd_client c (\<lambda>k. k\<lparr>cl_last_activity := cx_now X\<rparr>)),
                          Pool_putback X c,
                          pure_step (tcp_weak c True),
                          Pool_request X r]
                   else Client_request X c r] w)
      | _ \<Rightarrow> Crash NullDeref)"

definition redirect_to :: "cext \<Rightarrow> ccallbacks \<Rightarrow> clid \<Rightarrow> crid \<Rightarrow> cresponse \<Rightarrow> cworld call" where
  "redirect_to X cb c r p w =
     (let ctx = redirect_ctx_of (creq w r);
          u = redirect_target X (rc_uri ctx) (rp_location p)
      in run [pure_step (upd_creq r (redirected u)),
              fire_redirect X cb c (RedirectEvent r p ctx),
              \<lambda>w. if cl_redirect_canceled (client w c)
                  then Done (upd_client c (\<lambda>k. k\<lparr>cl_redirect_canceled := False\<rparr>) w)
                  else follow_redirect X c w] w)"

definition redirect_request :: "cext \<Rightarrow> ccallbacks \<Rightarrow> clid \<Rightarrow> crid \<Rightarrow> cresponse \<Rightarrow> cworld call" where
  "redirect_request X cb c r p w =
     (if cq_limit (creq w r) = 0 then Client_cancel X cb c (HttpErrc unexpected_redirect) w
      else (let w = upd_creq r (\<lambda>q. q\<lparr>cq_counter := cq_counter q + 1\<rparr>) w
            in if cq_limit (creq w r) < cq_counter (creq w r) then
                 Client_cancel X cb c (HttpErrc redirection_limit) w
               else if rp_location p = '''' then Client_cancel X cb c (HttpErrc no_redirect_uri) w
               else redirect_to X cb c r p w))"

section \<open>Receiving\<close>

definition analyze_request :: "cext \<Rightarrow> ccallbacks \<Rightarrow> clid \<Rightarrow> cworld call" where
  "analyze_request X cb c w =
     (case (cl_request (client w c), cl_response (client w c)) of
        (Some r, Some p) \<Rightarrow>
          if rp_code p = 100 then
            run [cfire cb (ContinueEvent r),
                 pure_step (upd_client c (\<lambda>k. k\<lparr>cl_response := None\<rparr>))] w
          else if cq_follow (creq w r) \<and> is_redirect (rp_code p) then redirect_request X cb c r p w
          else finish_request X cb c NoError w
      | _ \<Rightarrow> Crash NullDeref)"

text \<open>
  As for the server, the buffer is the sequence of what the parser returns on it round by round:
  how far the response is parsed, the error, the response, and whether the parser still has its
  context request after the round.
\<close>

record response_result =
  rr_state :: parse_state
  rr_error :: error_code
  rr_response :: cresponse
  rr_context :: bool

definition take_response :: "clid \<Rightarrow> response_result \<Rightarrow> cworld \<Rightarrow> cworld" where
  "take_response c p =
     upd_client c (\<lambda>k. k\<lparr>cl_response := Some ((rr_response p)
         \<lparr>rp_done := (state_rank StDone \<le> state_rank (rr_state p))\<rparr>),
       cl_ctx := (if rr_context p then cl_ctx k else None)\<rparr>)"

text \<open>A part of the body has arrived: the user is told, unless it is not the final response.\<close>

definition deliver_part :: "ccallbacks \<Rightarrow> clid \<Rightarrow> cworld call" where
  "deliver_part cb c w =
     (case cl_response (client w c) of
        None \<Rightarrow> Crash NullDeref
      | Some p \<Rightarrow>
          if rp_code p = 100 then Done w
          else (case cl_request (client w c) of
                  None \<Rightarrow> Crash NullDeref
                | Some r \<Rightarrow>
                    if cq_follow (creq w r) \<and> is_redirect (rp_code p) then Done w
                    else cfire cb (PartEvent r p NoError) w))"

primrec response_loop ::
  "cext \<Rightarrow> ccallbacks \<Rightarrow> clid \<Rightarrow> response_result list \<Rightarrow> cworld call" where
  "response_loop X cb c [] w = Done w"
| "response_loop X cb c (p # ps) w =
     (if cl_ctx (client w c) = None then Done (drop_connection c w)
      else (let w = take_response c p w
            in if rr_error p \<noteq> NoError then Client_cancel X cb c (rr_error p) w
               else if state_rank (rr_state p) \<le> state_rank StHeaders then Done w
               else run [if rr_state p \<noteq> StDone then deliver_part cb c
                         else analyze_request X cb c,
                         response_loop X cb c ps] w))"

definition Client_on_read ::
  "cext \<Rightarrow> ccallbacks \<Rightarrow> clid \<Rightarrow> response_result list \<Rightarrow> error_code \<Rightarrow> cworld call" where
  "Client_on_read X cb c buf err w =
     (if err \<noteq> NoError then Client_cancel X cb c err w else response_loop X cb c buf w)"

definition Client_on_eof :: "cext \<Rightarrow> ccallbacks \<Rightarrow> clid \<Rightarrow> response_result \<Rightarrow> cworld call" where
  "Client_on_eof X cb c p w =
     (if cl_request (client w c) = None then Done (tcp_reset c w)
      else (let w = upd_client c (\<lambda>k. k\<lparr>cl_response := Some ((rr_response p)\<lparr>rp_done := True\<rparr>),
                  cl_ctx := (if rr_context p then cl_ctx k else None)\<rparr>) w
            in if rr_error p \<noteq> NoError then Client_cancel X cb c (rr_error p) w
               else analyze_request X cb c w))"

section \<open>Other events of the stream\<close>

definition Client_on_connect :: "cext \<Rightarrow> ccallbacks \<Rightarrow> clid \<Rightarrow> error_code \<Rightarrow> cworld call" where
  "Client_on_connect X cb c err w =
     (if cl_request (client w c) \<noteq> None \<and> err \<noteq> NoError
      then Client_cancel X cb c (NestedErrc connect_error err) w else Done w)"

definition Client_on_write :: "cext \<Rightarrow> ccallbacks \<Rightarrow> clid \<Rightarrow> error_code \<Rightarrow> cworld call" where
  "Client_on_write X cb c err w =
     (if cl_request (client w c) \<noteq> None \<and> err \<noteq> NoError then Client_cancel X cb c err w
      else Done w)"

text \<open>The streamer of a file passes on a piece of it, and has come to its end.\<close>

definition ClientOutput_write :: "clid \<Rightarrow> crid \<Rightarrow> string \<Rightarrow> cworld \<Rightarrow> cworld" where
  "ClientOutput_write c r data = tcp_write c (PartData r data)"

definition form_file_complete ::
  "cext \<Rightarrow> ccallbacks \<Rightarrow> clid \<Rightarrow> error_code \<Rightarrow> cworld call" where
  "form_file_complete X cb c err w =
     (if err \<noteq> NoError then finish_request X cb c err w
      else send_form c (upd_client c (\<lambda>k. k\<lparr>cl_form_field := cl_form_field k + 1\<rparr>) w))"

text \<open>
  A reset reports the pending operations as canceled; without a request that has no effect, so the
  model leaves it out.
\<close>

lemma reset_reports_ignored:
  "cl_request (client w c) = None \<Longrightarrow> Client_on_connect X cb c err w = Done w"
  "cl_request (client w c) = None \<Longrightarrow> Client_on_write X cb c err w = Done w"
  by (simp_all add: Client_on_connect_def Client_on_write_def)

end
