(* ===== verification/ClientUser.thy ===== *)
theory ClientUser
  imports Client
begin

text \<open>
  The client side as a whole: user code that calls the public interface from callbacks and from
  outside of them, the events of streams and timers, and the states that can be reached.
\<close>

section \<open>User code\<close>

datatype ccmd =
    SubmitPool crid
  | SubmitClient clid crid
  | NewClient
  | SetRequest crid crequest
  | SetHeaders crid "(string \<times> string) list"
  | SetCookies crid "(string \<times> string) list"
  | CancelRequest crid error_code
  | CancelClient clid error_code
  | ChunkRequest crid string
  | FinalChunkRequest crid string
  | PoolIdleTimeout u32
  | PoolMaxConnections u32
  | ClientUserThrow

text \<open>The user sets the public members of a request; the private ones stay.\<close>

definition set_public :: "crequest \<Rightarrow> crequest \<Rightarrow> crequest" where
  "set_public new old =
     new\<lparr>cq_counter := cq_counter old, cq_transferred := cq_transferred old,
        cq_client := cq_client old, cq_pool := cq_pool old, cq_timer := cq_timer old\<rparr>"

definition make_standalone :: "cworld \<Rightarrow> cworld" where
  "make_standalone w =
     (upd_client (next_clid w) (\<lambda>_. new_client False) w)\<lparr>next_clid := Suc (next_clid w)\<rparr>"

fun exec_ccmd :: "cext \<Rightarrow> ccallbacks \<Rightarrow> ccmd \<Rightarrow> cworld call" where
  "exec_ccmd X cb (SubmitPool r) w = Pool_request X r w"
| "exec_ccmd X cb (SubmitClient c r) w = Client_request X c r w"
| "exec_ccmd X cb NewClient w = Done (make_standalone w)"
| "exec_ccmd X cb (SetRequest r q) w = Done (upd_creq r (set_public q) w)"
| "exec_ccmd X cb (SetHeaders r hs) w = Done (upd_creq r (\<lambda>q. q\<lparr>cq_headers := hs\<rparr>) w)"
| "exec_ccmd X cb (SetCookies r cs) w = Done (upd_creq r (\<lambda>q. q\<lparr>cq_cookies := cs\<rparr>) w)"
| "exec_ccmd X cb (CancelRequest r err) w = Request_cancel X cb r err w"
| "exec_ccmd X cb (CancelClient c err) w = Client_cancel X cb c err w"
| "exec_ccmd X cb (ChunkRequest r x) w = Request_send_chunk r x w"
| "exec_ccmd X cb (FinalChunkRequest r x) w = Request_send_final_chunk r x w"
| "exec_ccmd X cb (PoolIdleTimeout t) w = Done (w\<lparr>pool := Pool_idle_timeout t (pool w)\<rparr>)"
| "exec_ccmd X cb (PoolMaxConnections n) w = Done (w\<lparr>pool := Pool_max_connections n (pool w)\<rparr>)"
| "exec_ccmd X cb ClientUserThrow w = Throw UserException w"

text \<open>
  The rules of the user code for the theorems on reachable states. A request is changed and submitted
  only while it is idle: not given to a client and not waiting in the pool. Its URI has a scheme, its
  proxy is of a kind the client supports, it has no SSL context of its own and no file in its form.
  A cancellation has an error. And the clients of the pool are left to the pool.
\<close>

fun is_file :: "form_item \<Rightarrow> bool" where
  "is_file (FormFile a b c d e) = True"
| "is_file x = False"

definition plain :: "crequest \<Rightarrow> bool" where
  "plain q \<longleftrightarrow>
     (\<forall>u. cq_uri q = Some u \<longrightarrow> u_scheme u \<noteq> '''') \<and> cq_ssl_ctx q = None \<and>
     (\<forall>pid pu. cq_proxy q = Some (pid, pu) \<longrightarrow> u_scheme pu = ''http'' \<or> u_scheme pu = ''socks5'') \<and>
     list_all (\<lambda>x. \<not> is_file x) (cq_form q)"

definition queued :: "cworld \<Rightarrow> crid \<Rightarrow> bool" where
  "queued w r \<longleftrightarrow> list_ex (\<lambda>(nl, L). r \<in> set (nl_queue L)) (p_entries (pool w))"

definition idle_request :: "cworld \<Rightarrow> crid \<Rightarrow> bool" where
  "idle_request w r \<longleftrightarrow> cq_client (creq w r) = None \<and> \<not> queued w r"

fun cpermitted :: "cworld \<Rightarrow> ccmd \<Rightarrow> bool" where
  "cpermitted w (SubmitPool r) = idle_request w r"
| "cpermitted w (SubmitClient c r) =
     (idle_request w r \<and> c < next_clid w \<and> \<not> cl_pooled (client w c))"
| "cpermitted w (SetRequest r q) = (idle_request w r \<and> plain q)"
| "cpermitted w (CancelRequest r err) = (err \<noteq> NoError)"
| "cpermitted w (CancelClient c err) = (err \<noteq> NoError)"
| "cpermitted w a = True"

definition exec_cif :: "cext \<Rightarrow> ccallbacks \<Rightarrow> (cworld \<Rightarrow> ccmd option) \<Rightarrow> cworld call" where
  "exec_cif X cb f w =
     (case f w of
        None \<Rightarrow> Done w
      | Some a \<Rightarrow> if cpermitted w a then exec_ccmd X cb a w else Done w)"

type_synonym cuser = "cevent \<Rightarrow> cworld \<Rightarrow> (cworld \<Rightarrow> ccmd option) list"

primrec cuser_cb :: "cext \<Rightarrow> cuser \<Rightarrow> nat \<Rightarrow> ccallbacks" where
  "cuser_cb X u 0 ev w = (if u ev w = [] then Done w else Crash LoopBound)"
| "cuser_cb X u (Suc n) ev w = run (map (exec_cif X (cuser_cb X u n)) (u ev w)) w"

section \<open>Events and reachable states\<close>

datatype cinput =
    ClientConnected clid error_code
  | ClientWritten clid error_code
  | ClientRead clid "response_result list" error_code
  | ClientEof clid response_result
  | RequestTimer crid
  | PoolTimer
  | FileData crid nat string
  | FileDone crid nat error_code
  | ClientCall ccmd

definition connect_done :: "clid \<Rightarrow> error_code \<Rightarrow> cworld \<Rightarrow> cworld" where
  "connect_done c err =
     upd_client c (\<lambda>k. k\<lparr>cl_connected := (err = NoError), cl_connecting := False\<rparr>)"

text \<open>A timer that fires is inactive when its listener is called.\<close>

definition timer_fired :: "crequest \<Rightarrow> crequest" where
  "timer_fired q = q\<lparr>cq_timer := map_option (\<lambda>(active, listens). (False, listens)) (cq_timer q)\<rparr>"

text \<open>The streamer of the file at the place \<open>k\<close> of a form, and that it has come to its end.\<close>

definition streamer_of :: "crequest \<Rightarrow> nat \<Rightarrow> streamer option" where
  "streamer_of q k =
     (if length (cq_form q) \<le> k then None
      else (case cq_form q ! k of FormFile name inp mime filename st \<Rightarrow> st | _ \<Rightarrow> None))"

definition streamer_done :: "nat \<Rightarrow> crequest \<Rightarrow> crequest" where
  "streamer_done k q =
     (case cq_form q ! k of
        FormFile name inp mime filename (Some (i, c, active)) \<Rightarrow>
          set_item k (FormFile name inp mime filename (Some (i, c, False))) q
      | _ \<Rightarrow> q)"

definition runs :: "streamer option \<Rightarrow> bool" where
  "runs st \<longleftrightarrow> (case st of None \<Rightarrow> False | Some (inp, c, active) \<Rightarrow> active)"

lemma plain_streamer:
  assumes "plain q"
  shows "streamer_of q k = None"
proof -
  have "\<not> is_file (cq_form q ! k)" if "k < length (cq_form q)"
    using assms that by (simp add: plain_def list_all_length)
  then show ?thesis by (cases "cq_form q ! k") (auto simp: streamer_of_def)
qed

fun chandle :: "cext \<Rightarrow> ccallbacks \<Rightarrow> cinput \<Rightarrow> cworld call" where
  "chandle X cb (ClientConnected c err) w = Client_on_connect X cb c err (connect_done c err w)"
| "chandle X cb (ClientWritten c err) w = Client_on_write X cb c err w"
| "chandle X cb (ClientRead c buf err) w = Client_on_read X cb c buf err w"
| "chandle X cb (ClientEof c p) w = Client_on_eof X cb c p w"
| "chandle X cb (RequestTimer r) w = Request_on_timer X cb r (upd_creq r timer_fired w)"
| "chandle X cb PoolTimer w = Done (Pool_check_inactivity X w)"
| "chandle X cb (FileData r k data) w =
     (case streamer_of (creq w r) k of
        None \<Rightarrow> Done w
      | Some (inp, c, active) \<Rightarrow> Done (ClientOutput_write c r data w))"
| "chandle X cb (FileDone r k err) w =
     (case streamer_of (creq w r) k of
        None \<Rightarrow> Done w
      | Some (inp, c, active) \<Rightarrow> form_file_complete X cb c err (upd_creq r (streamer_done k) w))"
| "chandle X cb (ClientCall a) w = exec_ccmd X cb a w"

text \<open>
  What the parser guarantees: a final response that is complete ends its context, and after the end
  of the stream there is none either.
\<close>

definition context_law :: "response_result \<Rightarrow> bool" where
  "context_law p \<longleftrightarrow> (rr_state p = StDone \<and> rp_code (rr_response p) \<noteq> 100 \<longrightarrow> \<not> rr_context p)"

fun cenabled :: "cworld \<Rightarrow> cinput \<Rightarrow> bool" where
  "cenabled w (ClientConnected c err) = cl_connecting (client w c)"
| "cenabled w (ClientWritten c err) = (cl_connected (client w c) \<or> cl_connecting (client w c))"
| "cenabled w (ClientRead c buf err) = (cl_connected (client w c) \<and> list_all context_law buf)"
| "cenabled w (ClientEof c p) =
     (cl_connected (client w c) \<and> (rp_code (rr_response p) \<noteq> 100 \<longrightarrow> \<not> rr_context p))"
| "cenabled w (RequestTimer r) = (cq_timer (creq w r) = Some (True, True))"
| "cenabled w PoolTimer = (p_idle_timer (pool w) \<noteq> None)"
| "cenabled w (FileData r k data) = runs (streamer_of (creq w r) k)"
| "cenabled w (FileDone r k err) = runs (streamer_of (creq w r) k)"
| "cenabled w (ClientCall a) = cpermitted w a"

definition new_cworld :: "u32 \<Rightarrow> u32 \<Rightarrow> string \<Rightarrow> cworld" where
  "new_cworld max_conn timeout cookies =
     \<lparr>client = (\<lambda>_. new_client False), creq = (\<lambda>_. default_request ''GET'' True 0),
      pool = new_pool max_conn timeout, next_clid = 0, jar = cookies, cevents = []\<rparr>"

text \<open>
  The code outside is the same throughout, but for the time; the default certificates can be loaded.
\<close>

definition at_time :: "cext \<Rightarrow> u64 \<Rightarrow> cext" where
  "at_time X now = X\<lparr>cx_now := now, cx_verify_paths := True\<rparr>"

inductive creachable :: "cext \<Rightarrow> cuser \<Rightarrow> cworld \<Rightarrow> bool" for X u where
  start: "creachable X u (new_cworld m t j)"
| returns: "creachable X u w \<Longrightarrow> cenabled w inp \<Longrightarrow>
     chandle (at_time X now) (cuser_cb (at_time X now) u n) inp w = Done w' \<Longrightarrow> creachable X u w'"
| throws: "creachable X u w \<Longrightarrow> cenabled w inp \<Longrightarrow>
     chandle (at_time X now) (cuser_cb (at_time X now) u n) inp w = Throw e w' \<Longrightarrow> creachable X u w'"

end
