(* ===== verification/ClientServe.thy ===== *)
theory ClientServe
  imports ClientUser
begin

text \<open>
  What \<^verbatim>\<open>Client::request\<close> does to the state when it accepts a request: it calls nothing back, and
  touches its client and the request only.
\<close>

section \<open>Forms without files\<close>

text \<open>\<open>only c r w w'\<close>: of the store, only the client \<open>c\<close> and the request \<open>r\<close> have changed.\<close>

definition only :: "clid \<Rightarrow> crid \<Rightarrow> cworld \<Rightarrow> cworld \<Rightarrow> bool" where
  "only c r w w' \<longleftrightarrow>
     pool w' = pool w \<and> next_clid w' = next_clid w \<and> cevents w' = cevents w \<and> jar w' = jar w \<and>
     (\<forall>d. d \<noteq> c \<longrightarrow> client w' d = client w d) \<and> (\<forall>q. q \<noteq> r \<longrightarrow> creq w' q = creq w q)"

lemma only_refl [simp]: "only c r w w"
  by (simp add: only_def)

lemma only_trans: "only c r w w' \<Longrightarrow> only c r w' w'' \<Longrightarrow> only c r w w''"
  by (simp add: only_def)

lemma only_client [simp]: "only c r w (upd_client c f w') = only c r w w'"
  by (auto simp: only_def)

lemma only_creq [simp]: "only c r w (upd_creq r f w') = only c r w w'"
  by (auto simp: only_def)

lemma only_stream [simp]:
  "only c r w (tcp_write c x w') = only c r w w'" "only c r w (tcp_reset c w') = only c r w w'"
  "only c r w (tcp_connect c t w') = only c r w w'" "only c r w (tcp_weak c b w') = only c r w w'"
  by (simp_all add: tcp_write_def tcp_reset_def tcp_connect_def tcp_weak_def)

text \<open>The parts of a client that sending the items of a form leaves alone.\<close>

definition same_control :: "client \<Rightarrow> client \<Rightarrow> bool" where
  "same_control k k' \<longleftrightarrow>
     cl_pooled k' = cl_pooled k \<and> cl_netloc k' = cl_netloc k \<and> cl_request k' = cl_request k \<and>
     cl_response k' = cl_response k \<and> cl_ctx k' = cl_ctx k \<and>
     cl_in_redirect k' = cl_in_redirect k \<and> cl_redirect_canceled k' = cl_redirect_canceled k \<and>
     cl_connected k' = cl_connected k \<and> cl_connecting k' = cl_connecting k \<and>
     cl_tls k' = cl_tls k \<and> cl_weak k' = cl_weak k"

lemma same_control_refl [simp]: "same_control k k"
  by (simp add: same_control_def)

lemma same_control_trans: "same_control a b \<Longrightarrow> same_control b c \<Longrightarrow> same_control a c"
  by (simp add: same_control_def)

lemma start_item_plain:
  assumes "\<not> is_file x"
  shows "\<exists>xs. start_item c r k x w = (True, upd_client c (\<lambda>k. k\<lparr>cl_out := cl_out k @ xs\<rparr>) w)"
proof (cases x)
  case (FormField name content)
  then show ?thesis
    by (intro exI [where x = "[PartField r name content]"]) (simp add: tcp_write_def)
next
  case (FormEmbeddedFile name content mime filename)
  then show ?thesis
    by (intro exI [where x = "[PartFile r name filename mime, PartData r content]"])
      (simp add: tcp_write_def upd_client_def)
qed (use assms in simp)

lemma form_loop_plain:
  assumes "list_all (\<lambda>x. \<not> is_file x) (cq_form (creq w r))"
    and "0 \<le> cl_form_field (client w c)"
    and "nat (int (length (cq_form (creq w r))) - cl_form_field (client w c)) = n"
    and "cl_form_field (client w c) \<le> int (length (cq_form (creq w r)))"
  shows "\<exists>w'. form_loop c r n w = Done w' \<and> only c r w w' \<and> creq w' = creq w \<and>
    same_control (client w c) (client w' c) \<and>
    cl_form_field (client w' c) = int (length (cq_form (creq w r)))"
  using assms
proof (induction n arbitrary: w)
  case 0
  then show ?case by simp
next
  case (Suc n)
  let ?k = "cl_form_field (client w c)"
  let ?x = "cq_form (creq w r) ! nat ?k"
  have k: "0 \<le> ?k" "?k < int (length (cq_form (creq w r)))"
    using Suc.prems by auto
  then have "\<not> is_file ?x"
    using Suc.prems(1) by (simp add: list_all_length nat_less_iff)
  then obtain xs where xs: "start_item c r (nat ?k) ?x w =
      (True, upd_client c (\<lambda>k. k\<lparr>cl_out := cl_out k @ xs\<rparr>) w)"
    using start_item_plain by blast
  define w1 where "w1 = upd_client c (\<lambda>k. k\<lparr>cl_form_field := cl_form_field k + 1\<rparr>)
      (upd_client c (\<lambda>k. k\<lparr>cl_out := cl_out k @ xs\<rparr>) w)"
  have step: "form_loop c r (Suc n) w = form_loop c r n w1"
    using k xs by (simp add: Let_def w1_def)
  have w1: "creq w1 = creq w" "cl_form_field (client w1 c) = ?k + 1" "only c r w w1"
    "same_control (client w c) (client w1 c)"
    by (simp_all add: w1_def same_control_def)
  have "\<exists>w'. form_loop c r n w1 = Done w' \<and> only c r w1 w' \<and> creq w' = creq w1 \<and>
      same_control (client w1 c) (client w' c) \<and>
      cl_form_field (client w' c) = int (length (cq_form (creq w1 r)))"
    by (rule Suc.IH) (use Suc.prems k w1 in auto)
  then show ?case
    using step w1 by (metis only_trans same_control_trans)
qed

lemma send_form_plain:
  assumes "cl_request (client w c) = Some r"
    and "list_all (\<lambda>x. \<not> is_file x) (cq_form (creq w r))" and "cl_form_field (client w c) = 0"
  shows "\<exists>w'. send_form c w = Done w' \<and> only c r w w' \<and> same_control (client w c) (client w' c) \<and>
    cl_form_field (client w' c) = - 1 \<and> creq w' r = (creq w r)\<lparr>cq_transferred := True\<rparr>"
proof -
  obtain w' where w': "form_loop c r (nat (int (length (cq_form (creq w r))) -
      cl_form_field (client w c))) w = Done w'" "only c r w w'" "creq w' = creq w"
    "same_control (client w c) (client w' c)"
    "cl_form_field (client w' c) = int (length (cq_form (creq w r)))"
    using form_loop_plain [OF assms(2) _ refl, of c] assms(3) by auto
  then show ?thesis
    using assms(1)
    by (intro exI [where x = "form_end c r w'"])
      (simp add: send_form_def form_end_def same_control_def only_def)
qed

section \<open>A request that is accepted\<close>

definition same_request :: "crequest \<Rightarrow> crequest \<Rightarrow> bool" where
  "same_request q q' \<longleftrightarrow>
     cq_uri q' = cq_uri q \<and> cq_ssl_ctx q' = cq_ssl_ctx q \<and> cq_proxy q' = cq_proxy q \<and>
     cq_check_cert q' = cq_check_cert q \<and> cq_form q' = cq_form q \<and> cq_pool q' = cq_pool q \<and>
     cq_headers q' = cq_headers q \<and> cq_cookies q' = cq_cookies q \<and> cq_body q' = cq_body q \<and>
     cq_keep q' = cq_keep q \<and> cq_counter q' = cq_counter q \<and> cq_limit q' = cq_limit q"

lemma same_request_refl [simp]: "same_request q q"
  by (simp add: same_request_def)

lemma same_request_netloc: "same_request q q' \<Longrightarrow> Request_netloc X q' = Request_netloc X q"
  by (auto simp: same_request_def Request_netloc_def split: option.split)

lemma same_request_plain: "same_request q q' \<Longrightarrow> plain q' = plain q"
  by (simp add: same_request_def plain_def)

lemma same_request_check: "same_request q q' \<Longrightarrow> Request_check q' = Request_check q"
  by (simp add: same_request_def Request_check_def)

definition served :: "cext \<Rightarrow> clid \<Rightarrow> crid \<Rightarrow> cworld \<Rightarrow> cworld \<Rightarrow> bool" where
  "served X c r w w' \<longleftrightarrow>
     only c r w w' \<and> same_request (creq w r) (creq w' r) \<and> cq_client (creq w' r) = Some c \<and>
     cl_request (client w' c) = Some r \<and> cl_ctx (client w' c) = Some r \<and>
     cl_netloc (client w' c) = Request_netloc X (creq w r) \<and> cl_form_field (client w' c) = - 1 \<and>
     cl_pooled (client w' c) = cl_pooled (client w c) \<and>
     cl_response (client w' c) = cl_response (client w c) \<and>
     cl_in_redirect (client w' c) = cl_in_redirect (client w c) \<and>
     cl_redirect_canceled (client w' c) = cl_redirect_canceled (client w c)"

definition acceptable :: "crequest \<Rightarrow> bool" where
  "acceptable q \<longleftrightarrow> Request_check q = None \<and> plain q"

lemma claim_request_same:
  "acceptable q \<Longrightarrow> same_request q (claim_request c q) \<and> cq_client (claim_request c q) = Some c"
  by (auto simp: acceptable_def plain_def claim_request_def same_request_def Request_check_def
      split: option.splits)

lemma use_ssl_plain:
  assumes "cx_verify_paths X" and "plain (creq w r)"
  shows "\<exists>t. use_ssl X c r w = Done (upd_client c (\<lambda>k. k\<lparr>cl_tls := t (cl_tls k)\<rparr>) w)"
proof (cases "cx_secure X (the (cq_uri (creq w r)))")
  case True
  then show ?thesis
    using assms
    by (auto simp: use_ssl_def plain_def get_default_ssl_context_def intro: exI [where x = "\<lambda>_. Some _"])
next
  case False
  then have "use_ssl X c r w = Done (upd_client c (\<lambda>k. k\<lparr>cl_tls := (\<lambda>t. t) (cl_tls k)\<rparr>) w)"
    by (simp add: use_ssl_def upd_client_def fun_upd_idem)
  then show ?thesis by (intro exI [where x = "\<lambda>t. t"])
qed

lemma use_proxy_plain:
  assumes "plain (creq w r)"
  shows "\<exists>s. use_proxy c r w = Done (upd_client c (\<lambda>k. k\<lparr>cl_socks := s (cl_socks k)\<rparr>) w)"
proof -
  have same: "Done w = Done (upd_client c (\<lambda>k. k\<lparr>cl_socks := (\<lambda>s. s) (cl_socks k)\<rparr>) w)"
    by (simp add: upd_client_def fun_upd_idem)
  consider "use_proxy c r w = Done w"
    | pu where "use_proxy c r w = Done (upd_client c
        (\<lambda>k. k\<lparr>cl_socks := Some (pu, cq_proxy_resolve (creq w r))\<rparr>) w)"
    using assms by (fastforce simp: use_proxy_def plain_def split: option.splits prod.splits)
  then show ?thesis
  proof cases
    case 1
    then show ?thesis using same by (intro exI [where x = "\<lambda>s. s"]) simp
  next
    case (2 pu)
    then show ?thesis
      by (intro exI [where x = "\<lambda>_. Some (pu, cq_proxy_resolve (creq w r))"]) simp
  qed
qed

lemma open_connection_plain:
  assumes "cx_verify_paths X" and "plain (creq w r)"
  shows "\<exists>w'. open_connection X c r w = Done w' \<and> only c r w w' \<and> creq w' = creq w \<and>
    same_control (client w c)
      ((client w' c)\<lparr>cl_netloc := cl_netloc (client w c), cl_connected := cl_connected (client w c),
        cl_connecting := cl_connecting (client w c), cl_tls := cl_tls (client w c)\<rparr>) \<and>
    cl_netloc (client w' c) = Request_netloc X (creq w r) \<and> cl_connecting (client w' c) \<and>
    \<not> cl_connected (client w' c) \<and>
    cl_form_field (client w' c) = cl_form_field (client w c) \<and> cl_out (client w' c) = []"
proof -
  define w1 where "w1 = clear_filters c (if cl_connected (client w c) then drop_connection c w else w)"
  have w1: "only c r w w1" "creq w1 = creq w"
    by (simp_all add: w1_def clear_filters_def drop_connection_def)
  obtain t where t: "use_ssl X c r w1 = Done (upd_client c (\<lambda>k. k\<lparr>cl_tls := t (cl_tls k)\<rparr>) w1)"
    using use_ssl_plain [OF assms(1), of w1 r] assms(2) w1 by auto
  define w2 where "w2 = upd_client c (\<lambda>k. k\<lparr>cl_tls := t (cl_tls k)\<rparr>) w1"
  obtain s where s: "use_proxy c r w2 = Done (upd_client c (\<lambda>k. k\<lparr>cl_socks := s (cl_socks k)\<rparr>) w2)"
    using use_proxy_plain [of w2 r] assms(2) w1 by (auto simp: w2_def)
  define w3 where "w3 = upd_client c (\<lambda>k. k\<lparr>cl_socks := s (cl_socks k)\<rparr>) w2"
  have run: "open_connection X c r w = Done (start_connect X c r w3)"
    using t s by (simp add: open_connection_def w3_def w2_def w1_def [symmetric] cong: if_cong)
  have "only c r w (start_connect X c r w3)" "creq (start_connect X c r w3) = creq w"
    using w1 by (simp_all add: w3_def w2_def start_connect_def Let_def)
  then show ?thesis
    using run
    by (intro exI [where x = "start_connect X c r w3"])
      (simp add: same_control_def w3_def w2_def w1_def start_connect_def Let_def clear_filters_def
        drop_connection_def)
qed

text \<open>The request and the connection are ready; the rest writes the request.\<close>

definition claimed :: "cext \<Rightarrow> clid \<Rightarrow> crid \<Rightarrow> cworld \<Rightarrow> cworld" where
  "claimed X c r w =
     write_request c r (upd_creq r (allow_compression X)
       (upd_client c (\<lambda>k. k\<lparr>cl_request := Some r\<rparr>)
         (tcp_weak c False (upd_creq r ensure_timer_active w))))"

lemma adjusted_same:
  "same_request q (ensure_timer_active q)" "same_request q (allow_compression X q)"
  "cq_client (ensure_timer_active q) = cq_client q" "cq_client (allow_compression X q) = cq_client q"
  by (simp_all add: ensure_timer_active_def allow_compression_def same_request_def)

lemma same_request_trans: "same_request a b \<Longrightarrow> same_request b c \<Longrightarrow> same_request a c"
  by (simp add: same_request_def)

lemma claimed_simps:
  "only c r w (claimed X c r w)"
  "same_request (creq w r) (creq (claimed X c r w) r)"
  "cq_client (creq (claimed X c r w) r) = cq_client (creq w r)"
  "client (claimed X c r w) c =
     (client w c)\<lparr>cl_request := Some r, cl_ctx := Some r, cl_weak := False,
       cl_out := cl_out (client w c) @ [request_head r (creq (claimed X c r w) r)]\<rparr>"
  using same_request_trans [OF adjusted_same(1,2)]
  by (simp_all add: claimed_def write_request_def adjusted_same)

lemma send_body_plain:
  assumes "cl_request (client w c) = Some r" and "plain (creq w r)"
    and "cl_form_field (client w c) = - 1"
  shows "\<exists>w'. send_body c r w = Done w' \<and> only c r w w' \<and> same_control (client w c) (client w' c) \<and>
    cl_form_field (client w' c) = - 1 \<and>
    (creq w' r = creq w r \<or> creq w' r = (creq w r)\<lparr>cq_transferred := True\<rparr>)"
proof (cases "cq_streaming (creq w r)")
  case True
  let ?w = "upd_client c (\<lambda>k. k\<lparr>cl_form_field := 0\<rparr>) w"
  have "cl_request (client ?w c) = Some r" "list_all (\<lambda>x. \<not> is_file x) (cq_form (creq ?w r))"
    "cl_form_field (client ?w c) = 0"
    using assms by (simp_all add: plain_def)
  from send_form_plain [OF this] obtain w' where w': "send_form c ?w = Done w'" "only c r ?w w'"
    "same_control (client ?w c) (client w' c)" "cl_form_field (client w' c) = - 1"
    "creq w' r = (creq ?w r)\<lparr>cq_transferred := True\<rparr>"
    by blast
  have "only c r w w'"
    by (rule only_trans [OF _ w'(2)]) simp
  moreover have "same_control (client w c) (client w' c)"
    by (rule same_control_trans [OF _ w'(3)]) (simp add: same_control_def)
  moreover have "send_body c r w = Done w'" "creq w' r = (creq w r)\<lparr>cq_transferred := True\<rparr>"
    using True w'(1,5) by (simp_all add: send_body_def)
  ultimately show ?thesis
    using w'(4) by blast
next
  case False
  then show ?thesis
    using assms by (simp add: send_body_def)
qed

lemma Client_request_served:
  assumes X: "cx_verify_paths X" and idle: "cl_request (client w c) = None" "cq_client (creq w r) = None"
    and q: "acceptable (creq w r)" and field: "cl_form_field (client w c) = - 1"
  shows "\<exists>w'. Client_request X c r w = Done w' \<and> served X c r w w'"
proof -
  define w1 where "w1 = upd_creq r (claim_request c) w"
  have w1: "only c r w w1" "client w1 = client w" "same_request (creq w r) (creq w1 r)"
    "cq_client (creq w1 r) = Some c"
    using claim_request_same [OF q, of c] by (simp_all add: w1_def)
  then have plain1: "plain (creq w1 r)"
    using q same_request_plain by (simp add: acceptable_def)
  have "\<exists>w2. when_step (needs_connect X c r) (open_connection X c r) w1 = Done w2 \<and>
      only c r w1 w2 \<and> creq w2 = creq w1 \<and>
      same_control (client w1 c) ((client w2 c)\<lparr>cl_netloc := cl_netloc (client w1 c),
        cl_connected := cl_connected (client w1 c), cl_connecting := cl_connecting (client w1 c),
        cl_tls := cl_tls (client w1 c)\<rparr>) \<and>
      cl_netloc (client w2 c) = Request_netloc X (creq w1 r) \<and>
      cl_form_field (client w2 c) = cl_form_field (client w1 c)"
  proof (cases "needs_connect X c r w1")
    case True
    then show ?thesis
      using open_connection_plain [OF X plain1, of c] by auto
  next
    case False
    then show ?thesis
      by (intro exI [where x = w1]) (simp add: needs_connect_def same_control_def)
  qed
  then obtain w2 where w2: "when_step (needs_connect X c r) (open_connection X c r) w1 = Done w2"
    "only c r w1 w2" "creq w2 = creq w1"
    "same_control (client w1 c) ((client w2 c)\<lparr>cl_netloc := cl_netloc (client w1 c),
      cl_connected := cl_connected (client w1 c), cl_connecting := cl_connecting (client w1 c),
      cl_tls := cl_tls (client w1 c)\<rparr>)"
    "cl_netloc (client w2 c) = Request_netloc X (creq w1 r)"
    "cl_form_field (client w2 c) = cl_form_field (client w1 c)"
    by blast
  define w3 where "w3 = claimed X c r w2"
  note step = claimed_simps [where c = c and r = r and w = w2 and X = X, folded w3_def]
  have w3: "only c r w w3" "same_request (creq w r) (creq w3 r)" "cq_client (creq w3 r) = Some c"
    using only_trans [OF w1(1) only_trans [OF w2(2) step(1)]] step(2,3) w1(3,4) w2(3)
      same_request_trans [of "creq w r" "creq w1 r" "creq w3 r"] by simp_all
  note w3 = w3 step(4)
  have "\<exists>w'. send_body c r w3 = Done w' \<and> only c r w3 w' \<and> same_control (client w3 c) (client w' c) \<and>
      cl_form_field (client w' c) = - 1 \<and>
      (creq w' r = creq w3 r \<or> creq w' r = (creq w3 r)\<lparr>cq_transferred := True\<rparr>)"
    by (rule send_body_plain)
      (use w3 w2(6) w1(2) field q same_request_plain [OF w3(2)] in \<open>simp_all add: acceptable_def\<close>)
  then obtain w' where w': "send_body c r w3 = Done w'" "only c r w3 w'"
    "same_control (client w3 c) (client w' c)" "cl_form_field (client w' c) = - 1"
    "creq w' r = creq w3 r \<or> creq w' r = (creq w3 r)\<lparr>cq_transferred := True\<rparr>"
    by blast
  have run: "Client_request X c r w = Done w'"
    using idle q w2(1) w'(1) unfolding w3_def claimed_def
    by (simp add: Client_request_def acceptable_def w1_def [symmetric])
  have "same_request (creq w3 r) (creq w' r)" "cq_client (creq w' r) = Some c"
    using w'(5) w3(3) by (auto simp: same_request_def)
  then have r: "only c r w w'" "same_request (creq w r) (creq w' r)" "cq_client (creq w' r) = Some c"
    using only_trans [OF w3(1) w'(2)] same_request_trans [OF w3(2)] by simp_all
  have "cl_netloc (client w' c) = Request_netloc X (creq w r)"
    using w'(3) w3(4) w2(5) same_request_netloc [OF w1(3), of X] by (simp add: same_control_def)
  then have "served X c r w w'"
    using r w'(3,4) w3(4) w2(4) w1(2) by (simp add: served_def same_control_def)
  with run show ?thesis by blast
qed

text \<open>The refusals, which change nothing.\<close>

lemma Client_request_refused:
  assumes "cl_request (client w c) \<noteq> None \<or> cq_client (creq w r) \<noteq> None \<or>
    Request_check (creq w r) \<noteq> None"
  shows "\<exists>e. Client_request X c r w = Throw e w"
  using assms by (auto simp: Client_request_def)

end
