(* ===== verification/ClientInv.thy ===== *)
theory ClientInv
  imports ClientServe
begin

text \<open>
  The invariant of the client side. Its core relates the pool's entries with the clients and the
  requests. It is stated over functions that say which request each client has (\<open>A\<close>), for which
  location it is used (\<open>N\<close>), which client each request has (\<open>E\<close>) and whether it is with the pool
  (\<open>P\<close>), so that it also describes the states in the middle of a hand-over.
\<close>

section \<open>The core\<close>

definition entry_ok ::
  "cext \<Rightarrow> (clid \<Rightarrow> crid option) \<Rightarrow> (clid \<Rightarrow> netloc) \<Rightarrow> (crid \<Rightarrow> clid option) \<Rightarrow> cworld \<Rightarrow>
   netloc \<Rightarrow> netloc_list \<Rightarrow> bool" where
  "entry_ok X A N E w nl L \<longleftrightarrow>
     distinct (nl_free L) \<and> distinct (nl_busy L) \<and> distinct (nl_queue L) \<and>
     (\<forall>c\<in>set (nl_free L). cl_pooled (client w c) \<and> N c = nl \<and> A c = None) \<and>
     (\<forall>c\<in>set (nl_busy L). cl_pooled (client w c) \<and> N c = nl \<and> A c \<noteq> None) \<and>
     (nl_free L \<noteq> [] \<or> nl_busy L \<noteq> []) \<and> (nl_queue L \<noteq> [] \<longrightarrow> nl_free L = []) \<and>
     (\<forall>r\<in>set (nl_queue L). E r = None \<and> Request_check (creq w r) = None \<and>
        Request_netloc X (creq w r) = nl)"

definition entries_ok where
  "entries_ok X A N E w \<longleftrightarrow>
     distinct (map fst (p_entries (pool w))) \<and>
     (\<forall>nl L. entry w nl = Some L \<longrightarrow> entry_ok X A N E w nl L)"

definition linked :: "(clid \<Rightarrow> crid option) \<Rightarrow> (crid \<Rightarrow> clid option) \<Rightarrow> bool" where
  "linked A E \<longleftrightarrow> (\<forall>c r. A c = Some r \<longleftrightarrow> E r = Some c)"

definition busy_ok :: "(clid \<Rightarrow> crid option) \<Rightarrow> (clid \<Rightarrow> netloc) \<Rightarrow> cworld \<Rightarrow> bool" where
  "busy_ok A N w \<longleftrightarrow>
     (\<forall>c r. cl_pooled (client w c) \<and> A c = Some r \<longrightarrow>
        (\<exists>L. entry w (N c) = Some L \<and> c \<in> set (nl_busy L)))"

definition waiting_ok :: "cext \<Rightarrow> (crid \<Rightarrow> clid option) \<Rightarrow> (crid \<Rightarrow> bool) \<Rightarrow> cworld \<Rightarrow> bool" where
  "waiting_ok X E P w \<longleftrightarrow>
     (\<forall>r. P r \<and> E r = None \<longrightarrow>
        (\<exists>L. entry w (Request_netloc X (creq w r)) = Some L \<and> r \<in> set (nl_queue L)))"

definition requests_ok :: "(crid \<Rightarrow> clid option) \<Rightarrow> cworld \<Rightarrow> bool" where
  "requests_ok E w \<longleftrightarrow>
     (\<forall>r. plain (creq w r)) \<and> (\<forall>r c. E r = Some c \<longrightarrow> Request_check (creq w r) = None)"

definition fresh_ok :: "(clid \<Rightarrow> crid option) \<Rightarrow> cworld \<Rightarrow> bool" where
  "fresh_ok A w \<longleftrightarrow> (\<forall>c\<ge>next_clid w. A c = None \<and> \<not> cl_pooled (client w c))"

text \<open>
  The location a client is used for is of the kind of its request: a redirect changes only the host
  and the port.
\<close>

definition same_kind :: "netloc \<Rightarrow> netloc \<Rightarrow> bool" where
  "same_kind a b \<longleftrightarrow>
     nl_ssl_ctx a = nl_ssl_ctx b \<and> nl_proxy a = nl_proxy b \<and> nl_check a = nl_check b"

lemma same_kind_refl [simp]: "same_kind a a"
  by (simp add: same_kind_def)

definition kind_ok :: "cext \<Rightarrow> (clid \<Rightarrow> crid option) \<Rightarrow> (clid \<Rightarrow> netloc) \<Rightarrow> cworld \<Rightarrow> bool" where
  "kind_ok X A N w \<longleftrightarrow>
     (\<forall>c r. A c = Some r \<longrightarrow> same_kind (N c) (Request_netloc X (creq w r)))"

definition core ::
  "cext \<Rightarrow> (clid \<Rightarrow> crid option) \<Rightarrow> (clid \<Rightarrow> netloc) \<Rightarrow> (crid \<Rightarrow> clid option) \<Rightarrow> (crid \<Rightarrow> bool) \<Rightarrow>
   cworld \<Rightarrow> bool" where
  "core X A N E P w \<longleftrightarrow>
     entries_ok X A N E w \<and> linked A E \<and> busy_ok A N w \<and> waiting_ok X E P w \<and>
     requests_ok E w \<and> fresh_ok A w \<and> kind_ok X A N w"

lemma coreD:
  assumes "core X A N E P w"
  shows "entries_ok X A N E w" "linked A E" "busy_ok A N w" "waiting_ok X E P w" "requests_ok E w"
    "fresh_ok A w" "kind_ok X A N w"
  using assms by (simp_all add: core_def)

lemma core_distinct: "core X A N E P w \<Longrightarrow> distinct (map fst (p_entries (pool w)))"
  by (simp add: core_def entries_ok_def)

lemma core_entry: "core X A N E P w \<Longrightarrow> entry w nl = Some L \<Longrightarrow> entry_ok X A N E w nl L"
  by (simp add: core_def entries_ok_def)

lemma core_linked: "core X A N E P w \<Longrightarrow> A c = Some r \<longleftrightarrow> E r = Some c"
  by (simp add: core_def linked_def)

lemma core_plain: "core X A N E P w \<Longrightarrow> plain (creq w r)"
  by (simp add: core_def requests_ok_def)

text \<open>The core depends on little of the store.\<close>

lemma core_cong:
  assumes "core X A N E P w"
    and "pool w' = pool w" and "next_clid w' = next_clid w"
    and "\<And>c. cl_pooled (client w' c) = cl_pooled (client w c)"
    and "\<And>r. Request_netloc X (creq w' r) = Request_netloc X (creq w r)"
    and "\<And>r. Request_check (creq w' r) = Request_check (creq w r)"
    and "\<And>r. plain (creq w' r) = plain (creq w r)"
  shows "core X A N E P w'"
  using assms(1)
  unfolding core_def entries_ok_def entry_ok_def busy_ok_def waiting_ok_def requests_ok_def
    fresh_ok_def kind_ok_def assms(2-7) .

lemma set_entry_simps [simp]:
  "entry (set_entry nl L w) nl' = (if nl' = nl then Some L else entry w nl')"
  "client (set_entry nl L w) = client w" "creq (set_entry nl L w) = creq w"
  "next_clid (set_entry nl L w) = next_clid w" "cevents (set_entry nl L w) = cevents w"
  "jar (set_entry nl L w) = jar w"
  "distinct (map fst (p_entries (pool w))) \<Longrightarrow>
     distinct (map fst (p_entries (pool (set_entry nl L w))))"
  "p_max_connections (pool (set_entry nl L w)) = p_max_connections (pool w)"
  by (simp_all add: set_entry_def update_conv' distinct_update)

text \<open>Clients and requests that an entry holds are in no other entry.\<close>

lemma core_client_unique:
  "core X A N E P w \<Longrightarrow> entry w nl = Some L \<Longrightarrow> c \<in> set (nl_busy L) \<or> c \<in> set (nl_free L) \<Longrightarrow>
     N c = nl \<and> cl_pooled (client w c)"
  using core_entry [of X A N E P w nl L] by (auto simp: entry_ok_def)

lemma core_queue_unique:
  "core X A N E P w \<Longrightarrow> entry w nl = Some L \<Longrightarrow> r \<in> set (nl_queue L) \<Longrightarrow>
     Request_netloc X (creq w r) = nl \<and> E r = None \<and> Request_check (creq w r) = None"
  using core_entry [of X A N E P w nl L] by (simp add: entry_ok_def)

lemma queued_iff:
  assumes "distinct (map fst (p_entries (pool w)))"
  shows "queued w r \<longleftrightarrow> (\<exists>nl L. entry w nl = Some L \<and> r \<in> set (nl_queue L))"
proof
  assume "queued w r"
  then obtain nl L where "(nl, L) \<in> set (p_entries (pool w))" "r \<in> set (nl_queue L)"
    by (auto simp: queued_def list_ex_iff)
  then show "\<exists>nl L. entry w nl = Some L \<and> r \<in> set (nl_queue L)"
    using assms map_of_is_SomeI by fastforce
next
  assume "\<exists>nl L. entry w nl = Some L \<and> r \<in> set (nl_queue L)"
  then show "queued w r"
    by (auto simp: queued_def list_ex_iff dest!: map_of_SomeD intro!: bexI)
qed

section \<open>Hand-overs\<close>

text \<open>A request and a client that have nobody are linked.\<close>

lemma linked_take:
  assumes "linked A E" "A c = None" "E r = None"
  shows "linked (A(c := Some r)) (E(r := Some c))"
  unfolding linked_def
proof (intro allI)
  fix d q
  have "A d = Some q \<longleftrightarrow> E q = Some d" using assms(1) by (simp add: linked_def)
  then show "(A(c := Some r)) d = Some q \<longleftrightarrow> (E(r := Some c)) q = Some d"
    using assms(2,3) by (cases "d = c"; cases "q = r") auto
qed

lemma linked_drop:
  assumes "linked A E" "A c = Some r"
  shows "linked (A(c := None)) (E(r := None))"
  unfolding linked_def
proof (intro allI)
  fix d q
  have "A d = Some q \<longleftrightarrow> E q = Some d" "E r = Some c" using assms by (simp_all add: linked_def)
  then show "(A(c := None)) d = Some q \<longleftrightarrow> (E(r := None)) q = Some d"
    using assms(2) by (cases "d = c"; cases "q = r") auto
qed

lemma linked_swap:
  "linked A E \<Longrightarrow> A c = Some r \<Longrightarrow> E q = None \<Longrightarrow> linked (A(c := Some q)) (E(r := None, q := Some c))"
  using linked_take [of "A(c := None)" "E(r := None)" c q] linked_drop [of A E c r] by auto

text \<open>A client outside the pool takes an idle request.\<close>

lemma core_take_standalone:
  assumes core: "core X A N E P w" and c: "\<not> cl_pooled (client w c)" "A c = None" "c < next_clid w"
    and r: "E r = None" "Request_check (creq w r) = None"
      "\<And>nl L. entry w nl = Some L \<Longrightarrow> r \<notin> set (nl_queue L)"
    and nl: "same_kind nl (Request_netloc X (creq w r))"
  shows "core X (A(c := Some r)) (N(c := nl)) (E(r := Some c)) P w"
proof -
  have "entries_ok X (A(c := Some r)) (N(c := nl)) (E(r := Some c)) w"
    unfolding entries_ok_def
  proof (intro conjI allI impI)
    fix nl' L assume e: "entry w nl' = Some L"
    have "c \<notin> set (nl_free L)" "c \<notin> set (nl_busy L)"
      using core_client_unique [OF core e] c by blast+
    then show "entry_ok X (A(c := Some r)) (N(c := nl)) (E(r := Some c)) w nl' L"
      using core_entry [OF core e] r(3) [OF e] by (auto simp: entry_ok_def)
  qed (rule core_distinct [OF core])
  moreover have "linked (A(c := Some r)) (E(r := Some c))"
    using coreD(2) [OF core] c(2) r(1) by (rule linked_take)
  moreover have "busy_ok (A(c := Some r)) (N(c := nl)) w"
    using coreD(3) [OF core] c(1) by (auto simp: busy_ok_def)
  moreover have "waiting_ok X (E(r := Some c)) P w"
    using coreD(4) [OF core] by (auto simp: waiting_ok_def)
  moreover have "requests_ok (E(r := Some c)) w" "fresh_ok (A(c := Some r)) w"
    using coreD(5,6) [OF core] r(2) c(3) by (auto simp: requests_ok_def fresh_ok_def)
  moreover have "kind_ok X (A(c := Some r)) (N(c := nl)) w"
    using coreD(7) [OF core] nl by (simp add: kind_ok_def)
  ultimately show ?thesis by (simp add: core_def)
qed

text \<open>Replacing an entry by one that holds at least the same, or adding one.\<close>

lemma busy_ok_set_entry:
  assumes "busy_ok A N w" and "\<And>L. entry w nl = Some L \<Longrightarrow> set (nl_busy L) \<subseteq> set (nl_busy L')"
  shows "busy_ok A N (set_entry nl L' w)"
  unfolding busy_ok_def
proof (intro allI impI)
  fix d q assume "cl_pooled (client (set_entry nl L' w) d) \<and> A d = Some q"
  then obtain K where "entry w (N d) = Some K" "d \<in> set (nl_busy K)"
    using assms(1) by (auto simp: busy_ok_def)
  then show "\<exists>K. entry (set_entry nl L' w) (N d) = Some K \<and> d \<in> set (nl_busy K)"
    using assms(2) by (cases "N d = nl") auto
qed

lemma waiting_ok_set_entry:
  assumes "waiting_ok X E P w" and "\<And>L. entry w nl = Some L \<Longrightarrow> set (nl_queue L) \<subseteq> set (nl_queue L')"
  shows "waiting_ok X E P (set_entry nl L' w)"
  unfolding waiting_ok_def
proof (intro allI impI)
  fix q assume "P q \<and> E q = None"
  then obtain K where "entry w (Request_netloc X (creq w q)) = Some K" "q \<in> set (nl_queue K)"
    using assms(1) by (auto simp: waiting_ok_def)
  then show "\<exists>K. entry (set_entry nl L' w) (Request_netloc X (creq (set_entry nl L' w) q)) = Some K \<and>
      q \<in> set (nl_queue K)"
    using assms(2) by (cases "Request_netloc X (creq w q) = nl") auto
qed

lemma busy_ok_take:
  assumes "busy_ok A N w" and "entry w nl = Some L" and "c \<in> set (nl_busy L)"
  shows "busy_ok (A(c := x)) (N(c := nl)) w"
  using assms by (auto simp: busy_ok_def)

lemma waiting_ok_take: "waiting_ok X E P w \<Longrightarrow> waiting_ok X (E(r := Some c)) (P(r := b)) w"
  by (auto simp: waiting_ok_def)

text \<open>A client of the pool takes an idle request: it is busy in the entry of the request then.\<close>

lemma core_take_pooled:
  assumes core: "core X A N E P w"
    and c: "cl_pooled (client w c)" "A c = None" "c < next_clid w"
      "\<And>nl' K. nl' \<noteq> nl \<Longrightarrow> entry w nl' = Some K \<Longrightarrow> c \<notin> set (nl_busy K) \<union> set (nl_free K)"
    and r: "E r = None" "Request_check (creq w r) = None"
      "\<And>nl L. entry w nl = Some L \<Longrightarrow> r \<notin> set (nl_queue L)"
    and L: "entry w nl = Some L"
      "distinct (nl_free L')" "distinct (nl_busy L')" "set (nl_free L') \<subseteq> set (nl_free L) - {c}"
      "set (nl_busy L') = insert c (set (nl_busy L))" "nl_queue L' = nl_queue L"
    and nl: "same_kind nl (Request_netloc X (creq w r))"
  shows "core X (A(c := Some r)) (N(c := nl)) (E(r := Some c)) (P(r := b)) (set_entry nl L' w)"
proof -
  have "entries_ok X (A(c := Some r)) (N(c := nl)) (E(r := Some c)) (set_entry nl L' w)"
    unfolding entries_ok_def
  proof (intro conjI allI impI)
    show "distinct (map fst (p_entries (pool (set_entry nl L' w))))"
      using core_distinct [OF core] by simp
  next
    fix nl' K assume e: "entry (set_entry nl L' w) nl' = Some K"
    show "entry_ok X (A(c := Some r)) (N(c := nl)) (E(r := Some c)) (set_entry nl L' w) nl' K"
    proof (cases "nl' = nl")
      case True
      then have K: "K = L'" using e by simp
      have old: "entry_ok X A N E w nl L" by (rule core_entry [OF core L(1)])
      show ?thesis
        unfolding entry_ok_def K True
        using old L(2-6) r(3) [OF L(1)] c(1) by (auto simp: entry_ok_def)
    next
      case False
      then have e': "entry w nl' = Some K" using e by simp
      show ?thesis
        using core_entry [OF core e'] c(4) [OF False e'] r(3) [OF e'] by (auto simp: entry_ok_def)
    qed
  qed
  moreover have "linked (A(c := Some r)) (E(r := Some c))"
    using coreD(2) [OF core] c(2) r(1) by (rule linked_take)
  moreover have "busy_ok (A(c := Some r)) (N(c := nl)) (set_entry nl L' w)"
    by (rule busy_ok_take [where L = L']) (use L coreD(3) [OF core] in \<open>auto intro: busy_ok_set_entry\<close>)
  moreover have "waiting_ok X (E(r := Some c)) (P(r := b)) (set_entry nl L' w)"
    by (rule waiting_ok_take, rule waiting_ok_set_entry [OF coreD(4) [OF core]]) (use L in simp)
  moreover have "requests_ok (E(r := Some c)) (set_entry nl L' w)"
    "fresh_ok (A(c := Some r)) (set_entry nl L' w)"
    using coreD(5,6) [OF core] r(2) c(3) by (auto simp: requests_ok_def fresh_ok_def)
  moreover have "kind_ok X (A(c := Some r)) (N(c := nl)) (set_entry nl L' w)"
    using coreD(7) [OF core] nl by (simp add: kind_ok_def)
  ultimately show ?thesis by (simp add: core_def)
qed

text \<open>A new entry with its first client.\<close>

lemma core_take_first:
  assumes core: "core X A N E P w"
    and c: "cl_pooled (client w c)" "A c = None" "c < next_clid w"
      "\<And>nl' K. entry w nl' = Some K \<Longrightarrow> c \<notin> set (nl_busy K) \<union> set (nl_free K)"
    and r: "E r = None" "Request_check (creq w r) = None"
      "\<And>nl L. entry w nl = Some L \<Longrightarrow> r \<notin> set (nl_queue L)"
    and L: "entry w nl = None" "nl_free L' = []" "nl_busy L' = [c]" "nl_queue L' = []"
    and nl: "same_kind nl (Request_netloc X (creq w r))"
  shows "core X (A(c := Some r)) (N(c := nl)) (E(r := Some c)) (P(r := b)) (set_entry nl L' w)"
proof -
  have "entries_ok X (A(c := Some r)) (N(c := nl)) (E(r := Some c)) (set_entry nl L' w)"
    unfolding entries_ok_def
  proof (intro conjI allI impI)
    show "distinct (map fst (p_entries (pool (set_entry nl L' w))))"
      using core_distinct [OF core] by simp
  next
    fix nl' K assume e: "entry (set_entry nl L' w) nl' = Some K"
    show "entry_ok X (A(c := Some r)) (N(c := nl)) (E(r := Some c)) (set_entry nl L' w) nl' K"
    proof (cases "nl' = nl")
      case True
      then have K: "K = L'" using e by simp
      show ?thesis unfolding entry_ok_def K True using c(1) L(2-4) by simp
    next
      case False
      then have e': "entry w nl' = Some K" using e by simp
      show ?thesis
        using core_entry [OF core e'] c(4) [OF e'] r(3) [OF e'] by (auto simp: entry_ok_def)
    qed
  qed
  moreover have "linked (A(c := Some r)) (E(r := Some c))"
    using coreD(2) [OF core] c(2) r(1) by (rule linked_take)
  moreover have "busy_ok (A(c := Some r)) (N(c := nl)) (set_entry nl L' w)"
    by (rule busy_ok_take [where L = L']) (use L coreD(3) [OF core] in \<open>auto intro: busy_ok_set_entry\<close>)
  moreover have "waiting_ok X (E(r := Some c)) (P(r := b)) (set_entry nl L' w)"
    by (rule waiting_ok_take, rule waiting_ok_set_entry [OF coreD(4) [OF core]]) (use L in simp)
  moreover have "requests_ok (E(r := Some c)) (set_entry nl L' w)"
    "fresh_ok (A(c := Some r)) (set_entry nl L' w)"
    using coreD(5,6) [OF core] r(2) c(3) by (auto simp: requests_ok_def fresh_ok_def)
  moreover have "kind_ok X (A(c := Some r)) (N(c := nl)) (set_entry nl L' w)"
    using coreD(7) [OF core] nl by (simp add: kind_ok_def)
  ultimately show ?thesis by (simp add: core_def)
qed

text \<open>A new client, of the pool or not.\<close>

lemma core_new_client:
  assumes core: "core X A N E P w"
  shows "core X A N E P ((upd_client (next_clid w) (\<lambda>_. new_client b) w)\<lparr>next_clid := Suc (next_clid w)\<rparr>)"
    (is "core X A N E P ?w")
proof -
  have fresh: "A (next_clid w) = None" "\<not> cl_pooled (client w (next_clid w))"
    using coreD(6) [OF core] by (auto simp: fresh_ok_def)
  have "entry_ok X A N E ?w nl L" if e: "entry w nl = Some L" for nl L
  proof -
    have "next_clid w \<notin> set (nl_free L)" "next_clid w \<notin> set (nl_busy L)"
      using core_client_unique [OF core e] fresh by blast+
    then show ?thesis
      using core_entry [OF core e] by (auto simp: entry_ok_def)
  qed
  then have "entries_ok X A N E ?w"
    using core_distinct [OF core] by (simp add: entries_ok_def)
  moreover have "busy_ok A N ?w"
    using coreD(3) [OF core] fresh(1) by (auto simp: busy_ok_def)
  moreover have "waiting_ok X E P ?w" "requests_ok E ?w" "fresh_ok A ?w"
    using coreD(4-6) [OF core] by (simp_all add: waiting_ok_def requests_ok_def fresh_ok_def)
  moreover have "kind_ok X A N ?w"
    using coreD(7) [OF core] by (simp add: kind_ok_def)
  ultimately show ?thesis
    using coreD(2) [OF core] by (simp add: core_def)
qed

text \<open>An idle request is queued; all clients of its entry are busy.\<close>

lemma core_enqueue:
  assumes core: "core X A N E P w"
    and r: "E r = None" "Request_check (creq w r) = None" "Request_netloc X (creq w r) = nl"
      "\<And>nl L. entry w nl = Some L \<Longrightarrow> r \<notin> set (nl_queue L)"
    and L: "entry w nl = Some L" "nl_free L = []"
      "nl_free L' = []" "nl_busy L' = nl_busy L" "nl_queue L' = nl_queue L @ [r]"
  shows "core X A N E (P(r := True)) (set_entry nl L' w)"
proof -
  have old: "entry_ok X A N E w nl L" by (rule core_entry [OF core L(1)])
  have new: "entry_ok X A N E (set_entry nl L' w) nl L'"
    unfolding entry_ok_def L set_entry_simps
    using old r(1-3) r(4) [OF L(1)] unfolding entry_ok_def L by simp
  have "entries_ok X A N E (set_entry nl L' w)"
    unfolding entries_ok_def
  proof (intro conjI allI impI)
    show "distinct (map fst (p_entries (pool (set_entry nl L' w))))"
      using core_distinct [OF core] by simp
  next
    fix nl' K assume e: "entry (set_entry nl L' w) nl' = Some K"
    show "entry_ok X A N E (set_entry nl L' w) nl' K"
    proof (cases "nl' = nl")
      case True
      then show ?thesis using e new by simp
    next
      case False
      then have "entry_ok X A N E w nl' K" using core_entry [OF core, of nl' K] e by simp
      then show ?thesis by (simp add: entry_ok_def)
    qed
  qed
  moreover have "busy_ok A N (set_entry nl L' w)"
    by (rule busy_ok_set_entry [OF coreD(3) [OF core]]) (use L in simp)
  moreover have "waiting_ok X E P (set_entry nl L' w)"
    by (rule waiting_ok_set_entry [OF coreD(4) [OF core]]) (use L in auto)
  then have "waiting_ok X E (P(r := True)) (set_entry nl L' w)"
    using r(3) by (simp add: waiting_ok_def L)
  moreover have "requests_ok E (set_entry nl L' w)" "fresh_ok A (set_entry nl L' w)"
    using coreD(5,6) [OF core] by (simp_all add: requests_ok_def fresh_ok_def)
  moreover have "kind_ok X A N (set_entry nl L' w)"
    using coreD(7) [OF core] by (simp add: kind_ok_def)
  ultimately show ?thesis
    using coreD(2) [OF core] by (simp add: core_def)
qed

text \<open>A client gives its request up; it is not of the pool, or it becomes free.\<close>

lemma linked_idle: "linked A E \<Longrightarrow> A c = Some r \<Longrightarrow> E r = Some c"
  by (simp add: linked_def)

lemma waiting_ok_drop: "waiting_ok X E P w \<Longrightarrow> waiting_ok X (E(r := None)) (P(r := False)) w"
  by (auto simp: waiting_ok_def)

lemma entry_ok_drop:
  assumes "entry_ok X A N E w nl L" and "c \<notin> set (nl_busy L)"
  shows "entry_ok X (A(c := None)) N (E(r := None)) w nl L"
  using assms by (auto simp: entry_ok_def)

lemma core_release_standalone:
  assumes core: "core X A N E P w" and c: "\<not> cl_pooled (client w c)" "A c = Some r"
  shows "core X (A(c := None)) N (E(r := None)) (P(r := False)) w"
proof -
  have "entries_ok X (A(c := None)) N (E(r := None)) w"
    unfolding entries_ok_def
  proof (intro conjI allI impI)
    fix nl L assume e: "entry w nl = Some L"
    have "c \<notin> set (nl_busy L)"
      using core_client_unique [OF core e] c by blast
    then show "entry_ok X (A(c := None)) N (E(r := None)) w nl L"
      using core_entry [OF core e] by (simp add: entry_ok_drop)
  qed (rule core_distinct [OF core])
  moreover have "linked (A(c := None)) (E(r := None))"
    using coreD(2) [OF core] c(2) by (rule linked_drop)
  moreover have "busy_ok (A(c := None)) N w" "requests_ok (E(r := None)) w" "fresh_ok (A(c := None)) w"
    using coreD(3,5,6) [OF core] by (simp_all add: busy_ok_def requests_ok_def fresh_ok_def)
  moreover have "kind_ok X (A(c := None)) N w"
    using coreD(7) [OF core] by (simp add: kind_ok_def)
  ultimately show ?thesis
    using waiting_ok_drop [OF coreD(4) [OF core]] by (simp add: core_def)
qed

lemma core_release_pooled:
  assumes core: "core X A N E P w" and c: "A c = Some r" "N c = nl"
    and L: "entry w nl = Some L" "c \<in> set (nl_busy L)" "nl_queue L = []"
      "nl_queue L' = []" "nl_busy L' = remove1 c (nl_busy L)" "nl_free L' = List.insert c (nl_free L)"
  shows "core X (A(c := None)) N (E(r := None)) (P(r := False)) (set_entry nl L' w)"
proof -
  have old: "entry_ok X A N E w nl L" by (rule core_entry [OF core L(1)])
  have "distinct (nl_busy L)" "List.insert c (nl_free L) \<noteq> []"
    using old by (simp_all add: entry_ok_def List.insert_def) auto
  then have new: "entry_ok X (A(c := None)) N (E(r := None)) (set_entry nl L' w) nl L'"
    using old c(2) L(2) unfolding entry_ok_def L(4-6) set_entry_simps by auto
  have "entries_ok X (A(c := None)) N (E(r := None)) (set_entry nl L' w)"
    unfolding entries_ok_def
  proof (intro conjI allI impI)
    show "distinct (map fst (p_entries (pool (set_entry nl L' w))))"
      using core_distinct [OF core] by simp
  next
    fix nl' K assume e: "entry (set_entry nl L' w) nl' = Some K"
    show "entry_ok X (A(c := None)) N (E(r := None)) (set_entry nl L' w) nl' K"
    proof (cases "nl' = nl")
      case True
      then show ?thesis using e new by simp
    next
      case False
      then have e': "entry w nl' = Some K" using e by simp
      have "c \<notin> set (nl_busy K)" using core_client_unique [OF core e'] False c(2) by blast
      then have "entry_ok X (A(c := None)) N (E(r := None)) w nl' K"
        using core_entry [OF core e'] by (simp add: entry_ok_drop)
      then show ?thesis by (simp add: entry_ok_def)
    qed
  qed
  moreover have "linked (A(c := None)) (E(r := None))"
    using coreD(2) [OF core] c(1) by (rule linked_drop)
  moreover have "busy_ok (A(c := None)) N (set_entry nl L' w)"
    unfolding busy_ok_def
  proof (intro allI impI)
    fix d q assume d: "cl_pooled (client (set_entry nl L' w) d) \<and> (A(c := None)) d = Some q"
    then have "d \<noteq> c" by auto
    moreover obtain K where "entry w (N d) = Some K" "d \<in> set (nl_busy K)"
      using d coreD(3) [OF core] by (auto simp: busy_ok_def split: if_splits)
    ultimately show "\<exists>K. entry (set_entry nl L' w) (N d) = Some K \<and> d \<in> set (nl_busy K)"
      using L(1,5) by (cases "N d = nl") auto
  qed
  moreover have "waiting_ok X E P (set_entry nl L' w)"
    by (rule waiting_ok_set_entry [OF coreD(4) [OF core]]) (use L in simp)
  moreover have "requests_ok (E(r := None)) (set_entry nl L' w)"
    "fresh_ok (A(c := None)) (set_entry nl L' w)"
    using coreD(5,6) [OF core] by (simp_all add: requests_ok_def fresh_ok_def)
  moreover have "kind_ok X (A(c := None)) N (set_entry nl L' w)"
    using coreD(7) [OF core] by (simp add: kind_ok_def)
  ultimately show ?thesis
    using waiting_ok_drop by (simp add: core_def)
qed

text \<open>A client of the pool gives its request up and takes the first one that waits.\<close>

lemma core_hand_over:
  assumes core: "core X A N E P w" and c: "A c = Some r" "N c = nl"
    and L: "entry w nl = Some L" "c \<in> set (nl_busy L)" "nl_queue L = q # qs"
      "nl_queue L' = qs" "nl_busy L' = nl_busy L" "nl_free L' = nl_free L"
  shows "core X (A(c := Some q)) N (E(r := None, q := Some c)) (P(r := False)) (set_entry nl L' w)"
proof -
  have old: "entry_ok X A N E w nl L" by (rule core_entry [OF core L(1)])
  then have q: "E q = None" "Request_check (creq w q) = None" "q \<notin> set qs" "distinct qs"
    using L(3) by (simp_all add: entry_ok_def)
  have r: "E r = Some c" using linked_idle [OF coreD(2) [OF core] c(1)] .
  have new: "entry_ok X (A(c := Some q)) N (E(r := None, q := Some c)) (set_entry nl L' w) nl L'"
    using old q(3,4) r L(2) unfolding entry_ok_def L(3-6) set_entry_simps by auto
  have "entries_ok X (A(c := Some q)) N (E(r := None, q := Some c)) (set_entry nl L' w)"
    unfolding entries_ok_def
  proof (intro conjI allI impI)
    show "distinct (map fst (p_entries (pool (set_entry nl L' w))))"
      using core_distinct [OF core] by simp
  next
    fix nl' K assume e: "entry (set_entry nl L' w) nl' = Some K"
    show "entry_ok X (A(c := Some q)) N (E(r := None, q := Some c)) (set_entry nl L' w) nl' K"
    proof (cases "nl' = nl")
      case True
      then show ?thesis using e new by simp
    next
      case False
      then have e': "entry w nl' = Some K" using e by simp
      have "c \<notin> set (nl_busy K)" "c \<notin> set (nl_free K)"
        using core_client_unique [OF core e'] False c(2) by blast+
      moreover have "q \<notin> set (nl_queue K)"
        using core_queue_unique [OF core e', of q] core_queue_unique [OF core L(1), of q] False L(3)
        by auto
      ultimately show ?thesis
        using core_entry [OF core e'] by (auto simp: entry_ok_def)
    qed
  qed
  moreover have "linked (A(c := Some q)) (E(r := None, q := Some c))"
    using coreD(2) [OF core] c(1) q(1) by (rule linked_swap)
  moreover have "busy_ok A N (set_entry nl L' w)"
    by (rule busy_ok_set_entry [OF coreD(3) [OF core]]) (use L in simp)
  then have "busy_ok (A(c := Some q)) (N(c := nl)) (set_entry nl L' w)"
    by (rule busy_ok_take [where L = L']) (use L(2,5) in simp_all)
  then have "busy_ok (A(c := Some q)) N (set_entry nl L' w)"
    using c(2) fun_upd_triv [of N c] by simp
  moreover have "waiting_ok X (E(r := None, q := Some c)) (P(r := False)) (set_entry nl L' w)"
    unfolding waiting_ok_def
  proof (intro allI impI)
    fix p assume "(P(r := False)) p \<and> (E(r := None, q := Some c)) p = None"
    then have p: "p \<noteq> q" "P p" "E p = None" by (auto split: if_splits)
    then obtain K where "entry w (Request_netloc X (creq w p)) = Some K" "p \<in> set (nl_queue K)"
      using coreD(4) [OF core] by (auto simp: waiting_ok_def)
    then show "\<exists>K. entry (set_entry nl L' w) (Request_netloc X (creq (set_entry nl L' w) p)) = Some K \<and>
        p \<in> set (nl_queue K)"
      using L(1,3,4) p(1) by (cases "Request_netloc X (creq w p) = nl") auto
  qed
  moreover have "requests_ok (E(r := None, q := Some c)) (set_entry nl L' w)"
    using coreD(5) [OF core] q(2) by (simp add: requests_ok_def)
  moreover have "fresh_ok (A(c := Some q)) (set_entry nl L' w)"
    using coreD(6) [OF core] c(1) by (auto simp: fresh_ok_def)
  moreover have "Request_netloc X (creq w q) = nl"
    using old L(3) by (simp add: entry_ok_def)
  then have "kind_ok X (A(c := Some q)) N (set_entry nl L' w)"
    using coreD(7) [OF core] c(2) by (simp add: kind_ok_def)
  ultimately show ?thesis by (simp add: core_def)
qed

text \<open>A waiting request, which is not with the pool any more, is taken out of the queue.\<close>

lemma core_erase:
  assumes core: "core X A N E P w" and r: "\<not> P r"
    and L: "entry w nl = Some L" "nl_queue L' = remove1 r (nl_queue L)" "nl_busy L' = nl_busy L"
      "nl_free L' = nl_free L"
  shows "core X A N E P (set_entry nl L' w)"
proof -
  have old: "entry_ok X A N E w nl L" by (rule core_entry [OF core L(1)])
  have "set (remove1 r (nl_queue L)) \<subseteq> set (nl_queue L)" by (rule set_remove1_subset)
  moreover have "remove1 r (nl_queue L) \<noteq> [] \<Longrightarrow> nl_queue L \<noteq> []" by auto
  ultimately have new: "entry_ok X A N E (set_entry nl L' w) nl L'"
    using old unfolding entry_ok_def L(2-4) set_entry_simps by auto
  have "entries_ok X A N E (set_entry nl L' w)"
    unfolding entries_ok_def
  proof (intro conjI allI impI)
    show "distinct (map fst (p_entries (pool (set_entry nl L' w))))"
      using core_distinct [OF core] by simp
  next
    fix nl' K assume e: "entry (set_entry nl L' w) nl' = Some K"
    show "entry_ok X A N E (set_entry nl L' w) nl' K"
    proof (cases "nl' = nl")
      case True
      then show ?thesis using e new by simp
    next
      case False
      then have "entry_ok X A N E w nl' K" using core_entry [OF core, of nl' K] e by simp
      then show ?thesis by (simp add: entry_ok_def)
    qed
  qed
  moreover have "busy_ok A N (set_entry nl L' w)"
    by (rule busy_ok_set_entry [OF coreD(3) [OF core]]) (use L in simp)
  moreover have "waiting_ok X E P (set_entry nl L' w)"
    unfolding waiting_ok_def
  proof (intro allI impI)
    fix p assume p: "P p \<and> E p = None"
    then have "p \<noteq> r" using r by auto
    moreover obtain K where "entry w (Request_netloc X (creq w p)) = Some K" "p \<in> set (nl_queue K)"
      using p coreD(4) [OF core] by (auto simp: waiting_ok_def)
    ultimately show "\<exists>K. entry (set_entry nl L' w) (Request_netloc X (creq (set_entry nl L' w) p)) = Some K \<and>
        p \<in> set (nl_queue K)"
      using L(1,2) by (cases "Request_netloc X (creq w p) = nl") auto
  qed
  moreover have "requests_ok E (set_entry nl L' w)" "fresh_ok A (set_entry nl L' w)"
    using coreD(5,6) [OF core] by (simp_all add: requests_ok_def fresh_ok_def)
  moreover have "kind_ok X A N (set_entry nl L' w)"
    using coreD(7) [OF core] by (simp add: kind_ok_def)
  ultimately show ?thesis
    using coreD(2) [OF core] by (simp add: core_def)
qed

section \<open>Changes of requests and of the pool\<close>

text \<open>A client outside the pool is used for another location, and a request it has is changed.\<close>

lemma core_rename_standalone:
  assumes core: "core X A N E P w" and c: "\<not> cl_pooled (client w c)" "A c = Some r"
    and nl: "same_kind nl (Request_netloc X (creq w r))"
  shows "core X A (N(c := nl)) E P w"
proof -
  have "entry_ok X A (N(c := nl)) E w nl' L" if e: "entry w nl' = Some L" for nl' L
  proof -
    have "c \<notin> set (nl_free L)" "c \<notin> set (nl_busy L)"
      using core_client_unique [OF core e] c(1) by blast+
    then show ?thesis using core_entry [OF core e] by (auto simp: entry_ok_def)
  qed
  then have "entries_ok X A (N(c := nl)) E w"
    using core_distinct [OF core] by (simp add: entries_ok_def)
  moreover have "busy_ok A (N(c := nl)) w"
    using coreD(3) [OF core] c(1) by (auto simp: busy_ok_def)
  moreover have "kind_ok X A (N(c := nl)) w"
    using coreD(7) [OF core] c(2) nl by (simp add: kind_ok_def)
  ultimately show ?thesis
    using coreD(2,4-6) [OF core] by (simp add: core_def)
qed

lemma core_change_request:
  assumes core: "core X A N E P w"
    and away: "\<And>nl L. entry w nl = Some L \<Longrightarrow> r \<notin> set (nl_queue L)"
    and f: "plain (f (creq w r))" "E r \<noteq> None \<Longrightarrow> Request_check (f (creq w r)) = None"
      "E r \<noteq> None \<Longrightarrow> same_kind (Request_netloc X (creq w r)) (Request_netloc X (f (creq w r)))"
  shows "core X A N E P (upd_creq r f w)"
proof -
  have "entry_ok X A N E (upd_creq r f w) nl L" if e: "entry w nl = Some L" for nl L
    using core_entry [OF core e] away [OF e] by (auto simp: entry_ok_def)
  then have "entries_ok X A N E (upd_creq r f w)"
    using core_distinct [OF core] by (simp add: entries_ok_def)
  moreover have "waiting_ok X E P (upd_creq r f w)"
    using coreD(4) [OF core] away by (fastforce simp: waiting_ok_def)
  moreover have "requests_ok E (upd_creq r f w)"
    using coreD(5) [OF core] f(1,2) by (auto simp: requests_ok_def)
  moreover have "kind_ok X A N (upd_creq r f w)"
    using coreD(2,7) [OF core] f(3) by (auto simp: kind_ok_def linked_def same_kind_def)
  ultimately show ?thesis
    using coreD(2,3,6) [OF core] by (simp add: core_def busy_ok_def fresh_ok_def)
qed

lemma map_of_purge:
  "distinct (map fst es) \<Longrightarrow> map_of (purge keep es) nl =
     (case map_of es nl of
        None \<Rightarrow> None
      | Some L \<Rightarrow> if filter keep (nl_free L) = [] \<and> nl_busy L = [] then None
                  else Some (L\<lparr>nl_free := filter keep (nl_free L)\<rparr>))"
proof (induction keep es rule: purge.induct)
  case (1 keep)
  then show ?case by simp
next
  case (2 keep nl' L es)
  have "map_of es nl' = None"
    using 2(3) by (simp add: map_of_eq_None_iff)
  then show ?case
    using 2 by (auto simp: Let_def)
qed

lemma purge_keys: "set (map fst (purge keep es)) \<subseteq> set (map fst es)"
proof (induction es)
  case (Cons e es)
  then show ?case by (cases e) (auto simp: Let_def)
qed simp

lemma purge_distinct: "distinct (map fst es) \<Longrightarrow> distinct (map fst (purge keep es))"
proof (induction es)
  case (Cons e es)
  obtain nl L where "e = (nl, L)" by (cases e)
  moreover from this have "nl \<notin> set (map fst (purge keep es))"
    using Cons.prems purge_keys [of keep es] by auto
  ultimately show ?case using Cons by (simp add: Let_def)
qed simp

lemma core_purge:
  assumes core: "core X A N E P w"
  shows "core X A N E P (upd_entries (purge keep) w)"
proof -
  note e' = map_of_purge [OF core_distinct [OF core], of keep]
  have "entries_ok X A N E (upd_entries (purge keep) w)"
    unfolding entries_ok_def
  proof (intro conjI allI impI)
    show "distinct (map fst (p_entries (pool (upd_entries (purge keep) w))))"
      using purge_distinct [OF core_distinct [OF core]] by simp
  next
    fix nl K assume "entry (upd_entries (purge keep) w) nl = Some K"
    then obtain L where L: "entry w nl = Some L" "K = L\<lparr>nl_free := filter keep (nl_free L)\<rparr>"
      "\<not> (filter keep (nl_free L) = [] \<and> nl_busy L = [])"
      by (auto simp: e' split: option.splits if_splits)
    have "entry_ok X A N E w nl L" by (rule core_entry [OF core L(1)])
    then show "entry_ok X A N E (upd_entries (purge keep) w) nl K"
      using L(3) unfolding L(2) by (auto simp: entry_ok_def)
  qed
  moreover have "busy_ok A N (upd_entries (purge keep) w)"
    unfolding busy_ok_def
  proof (intro allI impI)
    fix d q assume "cl_pooled (client (upd_entries (purge keep) w) d) \<and> A d = Some q"
    then obtain L where "entry w (N d) = Some L" "d \<in> set (nl_busy L)"
      using coreD(3) [OF core] by (auto simp: busy_ok_def)
    then show "\<exists>L. entry (upd_entries (purge keep) w) (N d) = Some L \<and> d \<in> set (nl_busy L)"
      by (auto simp: e')
  qed
  moreover have "waiting_ok X E P (upd_entries (purge keep) w)"
    unfolding waiting_ok_def
  proof (intro allI impI)
    fix q assume "P q \<and> E q = None"
    then obtain L where L: "entry w (Request_netloc X (creq w q)) = Some L" "q \<in> set (nl_queue L)"
      using coreD(4) [OF core] by (auto simp: waiting_ok_def)
    moreover have "nl_busy L \<noteq> []"
      using core_entry [OF core L(1)] L(2) by (auto simp: entry_ok_def)
    ultimately show "\<exists>L. entry (upd_entries (purge keep) w)
        (Request_netloc X (creq (upd_entries (purge keep) w) q)) = Some L \<and> q \<in> set (nl_queue L)"
      by (auto simp: e')
  qed
  ultimately show ?thesis
    using coreD(2,5-7) [OF core] by (simp add: core_def requests_ok_def fresh_ok_def kind_ok_def)
qed

end
