(* ===== verification/ClientSafe.thy ===== *)
theory ClientSafe
  imports ClientInv
begin

text \<open>
  Every operation of the client side keeps the invariant, whatever the user code does in the
  callbacks, as long as it keeps the invariant itself: the interface \<open>client_contract\<close>.
\<close>

section \<open>The invariant\<close>

abbreviation curA :: "cworld \<Rightarrow> clid \<Rightarrow> crid option" where
  "curA w \<equiv> (\<lambda>c. cl_request (client w c))"

abbreviation curN :: "cworld \<Rightarrow> clid \<Rightarrow> netloc" where
  "curN w \<equiv> (\<lambda>c. cl_netloc (client w c))"

abbreviation curE :: "cworld \<Rightarrow> crid \<Rightarrow> clid option" where
  "curE w \<equiv> (\<lambda>r. cq_client (creq w r))"

abbreviation curP :: "cworld \<Rightarrow> crid \<Rightarrow> bool" where
  "curP w \<equiv> (\<lambda>r. cq_pool (creq w r))"

text \<open>
  The frame of a callback has two parts. \<open>F\<close> gives for a client that is calling the redirect event its
  request and response: they are the same afterwards, unless the request was canceled. \<open>W\<close> holds for
  a queued request that is being canceled its location and the version of the deque: as long as the
  version is the same, the request is in the queue and not with the pool any more.
\<close>

type_synonym frame = "(clid \<Rightarrow> (crid \<times> cresponse) option) \<times> (netloc \<times> nat \<times> crid) set"

definition client_ok :: "(crid \<times> cresponse) option \<Rightarrow> client \<Rightarrow> bool" where
  "client_ok f k \<longleftrightarrow>
     (cl_ctx k \<noteq> None \<longrightarrow> cl_ctx k = cl_request k) \<and> cl_form_field k = - 1 \<and>
     (cl_redirect_canceled k \<longrightarrow> cl_in_redirect k) \<and>
     (f \<noteq> None \<longrightarrow> cl_in_redirect k \<and> (cl_redirect_canceled k \<or>
        cl_request k = map_option fst f \<and> cl_response k = map_option snd f \<and> cl_ctx k = None))"

definition window :: "cworld \<Rightarrow> netloc \<times> nat \<times> crid \<Rightarrow> bool" where
  "window w x \<longleftrightarrow>
     (\<exists>L. entry w (fst x) = Some L \<and> fst (snd x) \<le> nl_version L \<and>
        (nl_version L = fst (snd x) \<longrightarrow>
           snd (snd x) \<in> set (nl_queue L) \<and> \<not> cq_pool (creq w (snd (snd x)))))"

definition control :: "frame \<Rightarrow> cworld \<Rightarrow> bool" where
  "control K w \<longleftrightarrow>
     (\<forall>c. client_ok (fst K c) (client w c)) \<and>
     (\<forall>c\<ge>next_clid w. client w c = new_client False) \<and> (\<forall>x\<in>snd K. window w x)"

definition cinv :: "cext \<Rightarrow> frame \<Rightarrow> cworld \<Rightarrow> bool" where
  "cinv X K w \<longleftrightarrow> core X (curA w) (curN w) (curE w) (curP w) w \<and> control K w"

lemma cinv_core: "cinv X K w \<Longrightarrow> core X (curA w) (curN w) (curE w) (curP w) w"
  by (simp add: cinv_def)

lemma cinv_control: "cinv X K w \<Longrightarrow> control K w"
  by (simp add: cinv_def)

lemma cinv_client_ok: "cinv X K w \<Longrightarrow> client_ok (fst K c) (client w c)"
  by (simp add: cinv_def control_def)

lemma core_mono:
  assumes "core X A N E P w" and "\<And>r. P' r \<Longrightarrow> P r"
  shows "core X A N E P' w"
  using assms by (auto simp: core_def waiting_ok_def)

section \<open>What the updates do to the control part\<close>

lemma window_cong:
  "pool w' = pool w \<Longrightarrow> cq_pool (creq w' (snd (snd x))) = cq_pool (creq w (snd (snd x))) \<Longrightarrow>
     window w' x = window w x"
  by (simp add: window_def)

lemma window_set_entry:
  assumes "window w x"
    and "\<And>L. entry w nl = Some L \<Longrightarrow>
      nl_version L < nl_version L' \<or> nl_version L' = nl_version L \<and> nl_queue L' = nl_queue L"
  shows "window (set_entry nl L' w) x"
  using assms by (cases "fst x = nl") (fastforce simp: window_def)+

lemma control_set_entry:
  assumes "control K w"
    and "\<And>L. entry w nl = Some L \<Longrightarrow>
      nl_version L < nl_version L' \<or> nl_version L' = nl_version L \<and> nl_queue L' = nl_queue L"
  shows "control K (set_entry nl L' w)"
  using assms window_set_entry by (simp add: control_def)

lemma control_client:
  assumes "control K w" and "client_ok (fst K c) (f (client w c))" and "c < next_clid w"
  shows "control K (upd_client c f w)"
  using assms window_cong [of "upd_client c f w" w] by (auto simp: control_def)

lemma control_creq:
  assumes "control K w" and "cq_pool (f (creq w r)) \<Longrightarrow> cq_pool (creq w r)"
  shows "control K (upd_creq r f w)"
proof -
  have "window (upd_creq r f w) x" if "window w x" for x
    using that assms(2) by (auto simp: window_def)
  then show ?thesis using assms(1) by (simp add: control_def)
qed

text \<open>A request that waits nowhere goes to the pool.\<close>

lemma control_to_pool:
  assumes "control K w" and "\<And>nl L. entry w nl = Some L \<Longrightarrow> r \<notin> set (nl_queue L)"
  shows "control K (upd_creq r (\<lambda>q. q\<lparr>cq_pool := True\<rparr>) w)"
proof -
  have "window (upd_creq r (\<lambda>q. q\<lparr>cq_pool := True\<rparr>) w) x" if "window w x" for x
    using that assms(2) by (auto simp: window_def)
  then show ?thesis using assms(1) by (simp add: control_def)
qed

lemma control_new_client:
  assumes "control K w"
  shows "control K ((upd_client (next_clid w) (\<lambda>_. new_client b) w)\<lparr>next_clid := Suc (next_clid w)\<rparr>)"
proof -
  have "client w (next_clid w) = new_client False" "client_ok (fst K (next_clid w)) (client w (next_clid w))"
    using assms unfolding control_def by blast+
  then have "client_ok (fst K (next_clid w)) (new_client b)"
    by (simp add: client_ok_def new_client_def)
  then show ?thesis
    using assms by (auto simp: control_def window_def)
qed

lemma servedD:
  assumes "served X c r w w'"
  shows "pool w' = pool w" "next_clid w' = next_clid w" "d \<noteq> c \<Longrightarrow> client w' d = client w d"
    "q \<noteq> r \<Longrightarrow> creq w' q = creq w q" "same_request (creq w r) (creq w' r)"
    "cl_pooled (client w' d) = cl_pooled (client w d)" "cq_pool (creq w' q) = cq_pool (creq w q)"
    "cq_client (creq w' r) = Some c" "cevents w' = cevents w"
proof -
  note d = assms [unfolded served_def only_def]
  show "pool w' = pool w" "next_clid w' = next_clid w" "cq_client (creq w' r) = Some c"
    "same_request (creq w r) (creq w' r)" "cevents w' = cevents w"
    using d by simp_all
  show "d \<noteq> c \<Longrightarrow> client w' d = client w d" "q \<noteq> r \<Longrightarrow> creq w' q = creq w q"
    using d by simp_all
  show "cl_pooled (client w' d) = cl_pooled (client w d)" "cq_pool (creq w' q) = cq_pool (creq w q)"
    using d by (cases "d = c", simp_all) (cases "q = r", simp_all add: same_request_def)
qed

lemma control_served:
  assumes "control K w" and "cl_request (client w c) = None" and "served X c r w w'"
    and "c < next_clid w"
  shows "control K w'"
proof -
  have w': "pool w' = pool w" "next_clid w' = next_clid w" "\<And>d. d \<noteq> c \<Longrightarrow> client w' d = client w d"
    "\<And>q. cq_pool (creq w' q) = cq_pool (creq w q)"
    using servedD [OF assms(3)] by simp_all
  have "client_ok (fst K c) (client w c)" using assms(1) by (simp add: control_def)
  then have "client_ok (fst K c) (client w' c)"
    using assms(2,3) unfolding served_def client_ok_def by (elim conjE) auto
  then have "client_ok (fst K d) (client w' d)" for d
    using assms(1) w'(3) by (cases "d = c") (auto simp: control_def)
  moreover have "\<forall>d\<ge>next_clid w'. client w' d = new_client False"
    using assms(1,4) w'(2,3) by (simp add: control_def)
  moreover have "\<forall>x\<in>snd K. window w' x"
    using assms(1) window_cong [OF w'(1) w'(4)] by (simp add: control_def)
  ultimately show ?thesis
    by (simp add: control_def)
qed

text \<open>After a hand-over the functions are the current ones.\<close>

lemma served_core:
  assumes core: "core X ((curA w)(c := Some r)) ((curN w)(c := Request_netloc X (creq w r))) E P w"
    and served: "served X c r w w'"
  shows "core X (curA w') (curN w') E P w'"
proof -
  have w': "pool w' = pool w" "next_clid w' = next_clid w" "\<And>d. d \<noteq> c \<Longrightarrow> client w' d = client w d"
    "\<And>q. q \<noteq> r \<Longrightarrow> creq w' q = creq w q" "same_request (creq w r) (creq w' r)"
    "\<And>d. cl_pooled (client w' d) = cl_pooled (client w d)"
    using servedD [OF served] by simp_all
  have "curA w' = (curA w)(c := Some r)" "curN w' = (curN w)(c := Request_netloc X (creq w r))"
    using served w'(3) by (simp_all add: served_def fun_eq_iff)
  moreover have "core X ((curA w)(c := Some r)) ((curN w)(c := Request_netloc X (creq w r))) E P w'"
  proof (rule core_cong [OF core w'(1,2)])
    show "cl_pooled (client w' d) = cl_pooled (client w d)" for d
      by (rule w'(6))
    show "Request_netloc X (creq w' q) = Request_netloc X (creq w q)"
      "Request_check (creq w' q) = Request_check (creq w q)" "plain (creq w' q) = plain (creq w q)" for q
      using w'(4,5) same_request_netloc same_request_check same_request_plain
      by (cases "q = r"; auto)+
  qed
  ultimately show ?thesis by simp
qed

lemma served_curE: "served X c r w w' \<Longrightarrow> curE w' = (curE w)(r := Some c)"
  by (rule ext) (simp add: servedD)

lemma served_curP: "served X c r w w' \<Longrightarrow> curP w' = curP w"
  by (rule ext) (simp add: servedD)

section \<open>The pool\<close>

lemma first_client_mem: "first_client X c ds \<in> set (c # ds)"
  by (induction X c ds rule: first_client.induct) auto

definition nowhere :: "cworld \<Rightarrow> crid \<Rightarrow> bool" where
  "nowhere w r \<longleftrightarrow> (\<forall>nl L. entry w nl = Some L \<longrightarrow> r \<notin> set (nl_queue L))"

lemma nowhereD: "nowhere w r \<Longrightarrow> entry w nl = Some L \<Longrightarrow> r \<notin> set (nl_queue L)"
  by (simp add: nowhere_def)

lemma nowhere_cong: "pool w' = pool w \<Longrightarrow> nowhere w' r = nowhere w r"
  by (simp add: nowhere_def)

text \<open>What the choice of a client guarantees: the client is idle and the invariant is ready for it.\<close>

definition picked :: "cext \<Rightarrow> frame \<Rightarrow> crid \<Rightarrow> clid \<Rightarrow> cworld \<Rightarrow> bool" where
  "picked X K r c w \<longleftrightarrow>
     core X ((curA w)(c := Some r)) ((curN w)(c := Request_netloc X (creq w r)))
       ((curE w)(r := Some c)) (curP w) w \<and> control K w \<and>
     cl_request (client w c) = None \<and> cq_client (creq w r) = None \<and> acceptable (creq w r) \<and>
     c < next_clid w"

lemma picked_served:
  assumes X: "cx_verify_paths X" and "picked X K r c w"
  shows "\<exists>w'. Client_request X c r w = Done w' \<and> cinv X K w' \<and> cevents w' = cevents w \<and>
    cq_client (creq w' r) = Some c \<and> served X c r w w'"
proof -
  note p = assms(2) [unfolded picked_def]
  have "cl_form_field (client w c) = - 1"
    using p by (simp add: control_def client_ok_def)
  then obtain w' where w': "Client_request X c r w = Done w'" "served X c r w w'"
    using Client_request_served [OF X, of w c r] p by auto
  have "core X (curA w') (curN w') ((curE w)(r := Some c)) (curP w) w'"
    by (rule served_core [OF _ w'(2)]) (use p in simp)
  then have "cinv X K w'"
    using control_served [OF _ _ w'(2)] p served_curE [OF w'(2)] served_curP [OF w'(2)]
    by (simp add: cinv_def)
  then show ?thesis
    using w' servedD [OF w'(2)] by blast
qed

text \<open>A request that has just been given to the pool, before it has a client or a place in the queue.\<close>

definition given_to_pool :: "cext \<Rightarrow> frame \<Rightarrow> crid \<Rightarrow> cworld \<Rightarrow> bool" where
  "given_to_pool X K r w \<longleftrightarrow>
     core X (curA w) (curN w) (curE w) ((curP w)(r := False)) w \<and> control K w \<and>
     cq_client (creq w r) = None \<and> acceptable (creq w r) \<and> nowhere w r \<and> cq_pool (creq w r)"

lemma given_to_poolD:
  assumes "given_to_pool X K r w"
  shows "core X (curA w) (curN w) (curE w) ((curP w)(r := False)) w" and "control K w"
    and "cq_client (creq w r) = None" "acceptable (creq w r)" "nowhere w r" "cq_pool (creq w r)"
    and "Request_check (creq w r) = None" and "curP w = (curP w)(r := False, r := True)"
  using assms by (auto simp: given_to_pool_def acceptable_def fun_eq_iff)

lemma pick_free:
  assumes g: "given_to_pool X K r w" and L: "entry w (Request_netloc X (creq w r)) = Some L"
    and c: "c \<in> set (nl_free L)"
    and L': "L' = L\<lparr>nl_free := remove1 c (nl_free L), nl_busy := List.insert c (nl_busy L)\<rparr>"
  shows "picked X K r c (set_entry (Request_netloc X (creq w r)) L' w)"
proof -
  note g = given_to_poolD [OF g]
  let ?nl = "Request_netloc X (creq w r)"
  have ok: "entry_ok X (curA w) (curN w) (curE w) w ?nl L" by (rule core_entry [OF g(1) L])
  then have k: "cl_pooled (client w c)" "cl_request (client w c) = None" "cl_netloc (client w c) = ?nl"
    using c by (simp_all add: entry_ok_def)
  have lt: "c < next_clid w"
    using coreD(6) [OF g(1)] k(1) by (auto simp: fresh_ok_def not_le [symmetric])
  have "core X ((curA w)(c := Some r)) ((curN w)(c := ?nl)) ((curE w)(r := Some c))
      ((curP w)(r := False, r := True)) (set_entry ?nl L' w)"
  proof (rule core_take_pooled [OF g(1)])
    fix nl' K assume "nl' \<noteq> ?nl" "entry w nl' = Some K"
    then show "c \<notin> set (nl_busy K) \<union> set (nl_free K)"
      using core_client_unique [OF g(1)] k(3) by blast
  qed (use k lt g L ok c nowhereD [OF g(5)] in \<open>auto simp: L' entry_ok_def\<close>)
  moreover have "control K (set_entry ?nl L' w)"
    by (rule control_set_entry [OF g(2)]) (use L in \<open>simp add: L'\<close>)
  ultimately show ?thesis
    unfolding g(8) [symmetric] using k lt g by (simp add: picked_def)
qed

lemma pick_new:
  assumes g: "given_to_pool X K r w"
    and L': "case entry w (Request_netloc X (creq w r)) of
        None \<Rightarrow> L' = \<lparr>nl_free = [], nl_busy = [next_clid w], nl_queue = [], nl_version = 0\<rparr>
      | Some L \<Rightarrow> nl_free L = [] \<and> L' = L\<lparr>nl_busy := List.insert (next_clid w) (nl_busy L)\<rparr>"
  shows "picked X K r (next_clid w) (set_entry (Request_netloc X (creq w r)) L' (snd (make_client w)))"
proof -
  note g = given_to_poolD [OF g]
  let ?nl = "Request_netloc X (creq w r)" and ?n = "next_clid w"
  define w1 where "w1 = (upd_client ?n (\<lambda>_. new_client True) w)\<lparr>next_clid := Suc ?n\<rparr>"
  have old: "cl_request (client w ?n) = None" "\<not> cl_pooled (client w ?n)"
    using coreD(6) [OF g(1)] by (simp_all add: fresh_ok_def)
  have cur: "curA w1 = curA w" "curN w1 = (curN w)(?n := no_netloc)" "curE w1 = curE w"
    "curP w1 = curP w" "pool w1 = pool w" "creq w1 = creq w" "cl_pooled (client w1 ?n)"
    "?n < next_clid w1" "cl_request (client w1 ?n) = None"
    using old by (auto simp: w1_def new_client_def fun_eq_iff)
  have unused: "?n \<notin> set (nl_busy L) \<union> set (nl_free L)" if "entry w nl = Some L" for nl L
    using core_client_unique [OF g(1) that, of ?n] old by blast
  have core1: "core X (curA w) (curN w) (curE w) ((curP w)(r := False)) w1"
    unfolding w1_def by (rule core_new_client [OF g(1)])
  have "core X ((curA w)(?n := Some r)) ((curN w)(?n := ?nl)) ((curE w)(r := Some ?n))
      ((curP w)(r := False, r := True)) (set_entry ?nl L' w1)"
  proof (cases "entry w ?nl")
    case None
    show ?thesis
      by (rule core_take_first [OF core1]) (use cur old g None L' unused nowhereD [OF g(5)] in auto)
  next
    case (Some L)
    then have "entry_ok X (curA w) (curN w) (curE w) w ?nl L" by (rule core_entry [OF g(1)])
    then show ?thesis
      by (intro core_take_pooled [OF core1])
        (use cur old g Some L' unused nowhereD [OF g(5)] in \<open>auto simp: entry_ok_def\<close>)
  qed
  moreover have "control K w1" unfolding w1_def by (rule control_new_client [OF g(2)])
  then have "control K (set_entry ?nl L' w1)"
    by (rule control_set_entry) (use cur L' in auto)
  ultimately have "picked X K r ?n (set_entry ?nl L' w1)"
    unfolding g(8) [symmetric] using cur g by (simp add: picked_def)
  then show ?thesis by (simp add: make_client_def w1_def)
qed

lemma pick_wait:
  assumes g: "given_to_pool X K r w" and L: "entry w (Request_netloc X (creq w r)) = Some L" "nl_free L = []"
    and L': "L' = L\<lparr>nl_queue := nl_queue L @ [r], nl_version := Suc (nl_version L)\<rparr>"
  shows "cinv X K (upd_creq r ensure_timer_active (set_entry (Request_netloc X (creq w r)) L' w))"
proof -
  note g = given_to_poolD [OF g]
  define w2 where "w2 = set_entry (Request_netloc X (creq w r)) L' w"
  have "core X (curA w) (curN w) (curE w) ((curP w)(r := False, r := True)) w2"
    unfolding w2_def
    by (rule core_enqueue [OF g(1) _ _ refl]) (use g L nowhereD [OF g(5)] in \<open>auto simp: L'\<close>)
  then have "core X (curA w) (curN w) (curE w) (curP w) (upd_creq r ensure_timer_active w2)"
    unfolding g(8) [symmetric]
    by (rule core_cong)
      (auto simp: same_request_netloc [OF adjusted_same(1)] same_request_check [OF adjusted_same(1)]
        same_request_plain [OF adjusted_same(1)])
  moreover have "control K (upd_creq r ensure_timer_active w2)"
    unfolding w2_def
    by (intro control_creq control_set_entry [OF g(2)])
      (use L g(6) in \<open>simp_all add: L' ensure_timer_active_def\<close>)
  moreover have "curE (upd_creq r ensure_timer_active w2) = curE w"
    "curP (upd_creq r ensure_timer_active w2) = curP w"
    by (simp_all add: w2_def adjusted_same fun_eq_iff ensure_timer_active_def)
  ultimately show ?thesis by (simp add: cinv_def w2_def)
qed

lemma Pool_pick_inv:
  assumes "core X (curA w) (curN w) (curE w) ((curP w)(r := False)) w" and "control K w"
    and "cq_client (creq w r) = None" "acceptable (creq w r)" "nowhere w r" "cq_pool (creq w r)"
  shows "case Pool_pick X r w of (None, w') \<Rightarrow> cinv X K w' | (Some c, w') \<Rightarrow> picked X K r c w'"
proof -
  have g: "given_to_pool X K r w" using assms by (simp add: given_to_pool_def)
  have new: "fst (make_client w) = next_clid w" by (simp add: make_client_def)
  show ?thesis
  proof (cases "entry w (Request_netloc X (creq w r))")
    case None
    then show ?thesis using new pick_new [OF g] by (simp add: Pool_pick_def Let_def split_beta)
  next
    case (Some L)
    show ?thesis
    proof (cases "nl_free L")
      case Nil
      then show ?thesis
        using Some new pick_new [OF g] pick_wait [OF g Some Nil refl] by (simp add: Pool_pick_def Let_def split_beta)
    next
      case (Cons f fs)
      then show ?thesis
        using Some first_client_mem [of X f fs] pick_free [OF g Some, of "first_client X f fs"]
        by (simp add: Pool_pick_def Let_def)
    qed
  qed
qed

text \<open>\<^verbatim>\<open>Pool::request\<close> of an idle request calls nothing back, and fails only in the check.\<close>

lemma Pool_pick_idle:
  assumes core: "core X (curA w) (curN w) (curE w) ((curP w)(r := False)) w" and control: "control K w"
    and r: "cq_client (creq w r) = None" "acceptable (creq w r)" "nowhere w r"
  shows "case Pool_pick X r (upd_creq r (\<lambda>q. q\<lparr>cq_pool := True\<rparr>) w) of
    (None, w') \<Rightarrow> cinv X K w' | (Some c, w') \<Rightarrow> picked X K r c w'"
proof -
  define w1 where "w1 = upd_creq r (\<lambda>q. q\<lparr>cq_pool := True\<rparr>) w"
  have static: "Request_netloc X (creq w1 q) = Request_netloc X (creq w q)"
    "Request_check (creq w1 q) = Request_check (creq w q)" "plain (creq w1 q) = plain (creq w q)" for q
    by (auto simp: w1_def Request_netloc_def Request_check_def plain_def split: option.split)
  have cur: "curA w1 = curA w" "curN w1 = curN w" "curE w1 = curE w"
    "(curP w1)(r := False) = (curP w)(r := False)"
    by (auto simp: w1_def fun_eq_iff)
  have "core X (curA w) (curN w) (curE w) ((curP w)(r := False)) w1"
    by (rule core_cong [OF core]) (simp_all add: static, simp_all add: w1_def)
  moreover have "control K w1"
    unfolding w1_def by (rule control_to_pool [OF control]) (rule nowhereD [OF r(3)])
  moreover have "acceptable (creq w1 r)"
    using r(2) unfolding acceptable_def static .
  moreover have "cq_client (creq w1 r) = None" "nowhere w1 r" "cq_pool (creq w1 r)"
    using r by (simp_all add: w1_def nowhere_def)
  ultimately show ?thesis
    unfolding w1_def [symmetric] by (intro Pool_pick_inv) (simp_all only: cur)
qed

lemma Pool_request_inv:
  assumes X: "cx_verify_paths X"
    and core: "core X (curA w) (curN w) (curE w) ((curP w)(r := False)) w" and control: "control K w"
    and r: "cq_client (creq w r) = None" "acceptable (creq w r)" "nowhere w r"
  shows "\<exists>w'. Pool_request X r w = Done w' \<and> cinv X K w'"
proof -
  have check: "Request_check (creq w r) = None" using r(2) by (simp add: acceptable_def)
  obtain cc w2 where p: "Pool_pick X r (upd_creq r (\<lambda>q. q\<lparr>cq_pool := True\<rparr>) w) = (cc, w2)"
    by fastforce
  note pick = Pool_pick_idle [OF core control r, unfolded p]
  show ?thesis
  proof (cases cc)
    case None
    then show ?thesis
      using pick p check by (simp add: Pool_request_def)
  next
    case (Some c)
    then have "picked X K r c w2" using pick by simp
    then show ?thesis
      using picked_served [OF X] p check Some by (fastforce simp: Pool_request_def)
  qed
qed

text \<open>
  \<^verbatim>\<open>Pool::putback\<close> of a client that has just given up its request \<open>r\<close>: the assertions hold, and the
  next waiting request is served.
\<close>

lemma Pool_putback_inv:
  assumes X: "cx_verify_paths X"
    and core: "core X ((curA w)(c := Some r)) (curN w) ((curE w)(r := Some c)) (curP w) w"
    and control: "control K w" and c: "cl_request (client w c) = None" "cl_pooled (client w c)"
  shows "\<exists>w'. Pool_putback X c w = Done w' \<and> control K w' \<and> creq w' r = creq w r \<and>
    core X (curA w') (curN w') ((curE w')(r := None)) ((curP w')(r := False)) w' \<and>
    cevents w' = cevents w \<and> next_clid w' = next_clid w \<and> nowhere w' r"
proof -
  let ?nl = "cl_netloc (client w c)"
  obtain L where L: "entry w ?nl = Some L" "c \<in> set (nl_busy L)"
    using coreD(3) [OF core] c(2) by (fastforce simp: busy_ok_def)
  have lt: "c < next_clid w"
    using coreD(6) [OF core] c(2) by (auto simp: fresh_ok_def not_le [symmetric])
  have away: "r \<notin> set (nl_queue K)" if "entry w nl = Some K" for nl K
    using core_queue_unique [OF core that, of r] by auto
  have A: "(curA w)(c := None) = curA w" using c(1) by (simp add: fun_eq_iff)
  show ?thesis
  proof (cases "nl_queue L")
    case Nil
    define L' where "L' = L\<lparr>nl_busy := remove1 c (nl_busy L), nl_free := List.insert c (nl_free L)\<rparr>"
    have "core X ((curA w)(c := Some r, c := None)) (curN w) ((curE w)(r := Some c, r := None))
        ((curP w)(r := False)) (set_entry ?nl L' w)"
      by (rule core_release_pooled [OF core _ refl L]) (use Nil in \<open>simp_all add: L'_def\<close>)
    then have "core X (curA w) (curN w) ((curE w)(r := None)) ((curP w)(r := False)) (set_entry ?nl L' w)"
      by (simp add: A)
    moreover have "control K (set_entry ?nl L' w)"
      by (rule control_set_entry [OF control]) (use L in \<open>simp add: L'_def\<close>)
    moreover have "nowhere (set_entry ?nl L' w) r"
      using away Nil by (auto simp: nowhere_def L'_def)
    ultimately show ?thesis
      using L Nil by (intro exI [where x = "set_entry ?nl L' w"]) (simp add: Pool_putback_def L'_def Let_def)
  next
    case (Cons q qs)
    define L' where "L' = L\<lparr>nl_queue := qs, nl_version := Suc (nl_version L)\<rparr>"
    define w1 where "w1 = set_entry ?nl L' w"
    have "q \<noteq> r" using away [OF L(1)] Cons by auto
    have old: "entry_ok X ((curA w)(c := Some r)) (curN w) ((curE w)(r := Some c)) w ?nl L"
      by (rule core_entry [OF core L(1)])
    then have q: "cq_client (creq w q) = None" "Request_check (creq w q) = None"
      "Request_netloc X (creq w q) = ?nl" using Cons \<open>q \<noteq> r\<close> by (simp_all add: entry_ok_def)
    have "core X ((curA w)(c := Some r, c := Some q)) (curN w)
        ((curE w)(r := Some c, r := None, q := Some c)) ((curP w)(r := False)) w1"
      unfolding w1_def
      by (rule core_hand_over [OF core _ refl L Cons]) (simp_all add: L'_def)
    then have core1: "core X ((curA w1)(c := Some q)) ((curN w1)(c := Request_netloc X (creq w1 q)))
        ((curE w)(r := None, q := Some c)) ((curP w)(r := False)) w1"
      using fun_upd_triv [of "curN w" c] q(3) by (simp add: w1_def)
    have control1: "control K w1"
      unfolding w1_def by (rule control_set_entry [OF control]) (use L in \<open>simp add: L'_def\<close>)
    have "\<exists>w'. Client_request X c q w1 = Done w' \<and> served X c q w1 w'"
      by (rule Client_request_served [OF X])
        (use c q control1 core_plain [OF core] in
          \<open>simp_all add: w1_def acceptable_def control_def client_ok_def\<close>)
    then obtain w' where w': "Client_request X c q w1 = Done w'" "served X c q w1 w'" by blast
    have "nowhere w' r"
      using away away [OF L(1)] Cons servedD(1) [OF w'(2)] by (auto simp: nowhere_def w1_def L'_def)
    moreover have "control K w'"
      by (rule control_served [OF control1 _ w'(2)]) (use c lt in \<open>simp_all add: w1_def\<close>)
    moreover have "core X (curA w') (curN w') ((curE w)(r := None, q := Some c)) ((curP w)(r := False)) w'"
      by (rule served_core [OF core1 w'(2)])
    moreover have "(curE w')(r := None) = (curE w)(r := None, q := Some c)"
      "(curP w')(r := False) = (curP w)(r := False)"
      using served_curE [OF w'(2)] served_curP [OF w'(2)] \<open>q \<noteq> r\<close> by (auto simp: w1_def fun_eq_iff)
    ultimately show ?thesis
      using w' L Cons servedD [OF w'(2)] \<open>q \<noteq> r\<close>
      by (intro exI [where x = w']) (simp add: Pool_putback_def Let_def w1_def L'_def)
  qed
qed

end
