(* ===== verification/ClientHandlers.thy ===== *)
theory ClientHandlers
  imports ClientSafe
begin

text \<open>
  The interface between the client side and the user code behind its callbacks, and that every
  operation that calls back keeps the invariant if the callbacks do. The faults in \<open>D\<close> are those that
  cannot be excluded: an iterator that a callback has made invalid, and what the callbacks
  themselves run into.
\<close>

section \<open>Updates\<close>

lemma cinv_events [simp]: "cinv X K (w\<lparr>cevents := es\<rparr>) = cinv X K w"
proof -
  have "window (w\<lparr>cevents := es\<rparr>) x = window w x" for x
    by (rule window_cong) simp_all
  then have "control K (w\<lparr>cevents := es\<rparr>) = control K w"
    by (simp add: control_def)
  moreover have "core X A N E P (w\<lparr>cevents := es\<rparr>) = core X A N E P w" for A N E P
    by (simp add: core_def entries_ok_def entry_ok_def busy_ok_def waiting_ok_def requests_ok_def
        fresh_ok_def kind_ok_def)
  ultimately show ?thesis by (simp add: cinv_def)
qed

text \<open>A client changes in what the core does not see.\<close>

lemma core_client:
  assumes "core X A N E P w" and "cl_pooled (f (client w c)) = cl_pooled (client w c)"
  shows "core X A N E P (upd_client c f w)"
  by (rule core_cong [OF assms(1)]) (use assms(2) in simp_all)

lemma cinv_client:
  assumes inv: "cinv X K w" and ok: "client_ok (fst K c) (f (client w c))" and lt: "c < next_clid w"
    and same: "cl_pooled (f (client w c)) = cl_pooled (client w c)"
      "cl_request (f (client w c)) = cl_request (client w c)"
      "cl_netloc (f (client w c)) = cl_netloc (client w c)"
  shows "cinv X K (upd_client c f w)"
proof -
  have "curA (upd_client c f w) = curA w" "curN (upd_client c f w) = curN w"
    using same by (simp_all add: fun_eq_iff)
  then show ?thesis
    using core_client [of X _ _ _ _ w f c, OF cinv_core [OF inv] same(1)]
      control_client [of K w c f] inv ok lt
    by (simp add: cinv_def)
qed

text \<open>A request changes in what the core does not see, or only for the client that has it.\<close>

lemma cinv_creq:
  assumes inv: "cinv X K w"
    and same: "cq_client (f (creq w r)) = cq_client (creq w r)" "cq_pool (f (creq w r)) = cq_pool (creq w r)"
    and static: "Request_netloc X (f (creq w r)) = Request_netloc X (creq w r)"
      "Request_check (f (creq w r)) = Request_check (creq w r)" "plain (f (creq w r)) = plain (creq w r)"
  shows "cinv X K (upd_creq r f w)"
proof -
  have "core X (curA w) (curN w) (curE w) (curP w) (upd_creq r f w)"
    by (rule core_cong [OF cinv_core [OF inv]]) (use static in auto)
  moreover have "curE (upd_creq r f w) = curE w" "curP (upd_creq r f w) = curP w"
    using same by (simp_all add: fun_eq_iff)
  ultimately show ?thesis
    using control_creq [of K w f r] inv same by (simp add: cinv_def)
qed

lemma cinv_same_request:
  assumes "cinv X K w" and "same_request (creq w r) (f (creq w r))"
    and "cq_client (f (creq w r)) = cq_client (creq w r)"
  shows "cinv X K (upd_creq r f w)"
  using assms(1,3)
  by (rule cinv_creq)
    (use assms(2) same_request_netloc same_request_check same_request_plain in
      \<open>simp_all add: same_request_def [of "creq w r"]\<close>)

lemma client_lt:
  "cinv X K w \<Longrightarrow> client w c \<noteq> new_client False \<Longrightarrow> c < next_clid w"
  by (auto simp: cinv_def control_def not_le [symmetric])

lemma request_lt: "cinv X K w \<Longrightarrow> cl_request (client w c) \<noteq> None \<Longrightarrow> c < next_clid w"
  by (rule client_lt) (auto simp: new_client_def)

lemma active_away:
  assumes "cinv X K w" and "cl_request (client w c) = Some r"
  shows "nowhere w r"
proof -
  have "cq_client (creq w r) = Some c"
    using linked_idle [OF coreD(2) [OF cinv_core [OF assms(1)]], of c r] assms(2) by simp
  then show ?thesis
    using core_queue_unique [OF cinv_core [OF assms(1)]] by (fastforce simp: nowhere_def)
qed

lemma idle_away: "cinv X K w \<Longrightarrow> idle_request w r \<Longrightarrow> nowhere w r"
  using queued_iff [OF core_distinct [OF cinv_core]] by (auto simp: idle_request_def nowhere_def)

section \<open>The end of a request\<close>

text \<open>The connection can be used again: no error, and both sides keep it.\<close>

definition keeps_connection :: "error_code \<Rightarrow> cresponse option \<Rightarrow> crequest \<Rightarrow> bool" where
  "keeps_connection err res q \<longleftrightarrow>
     err = NoError \<and> (case res of None \<Rightarrow> False | Some p \<Rightarrow> rp_keep p) \<and> cq_keep q"

lemma settle_connection_stream:
  "err \<noteq> NoError \<or> res \<noteq> None \<Longrightarrow>
     settle_connection c err res q w =
       Done (if keeps_connection err res q then tcp_weak c True w else tcp_reset c w)"
  by (cases res) (auto simp: settle_connection_def drop_connection_def keeps_connection_def)

text \<open>The client has given up its request and is about to go back to its pool.\<close>

definition gave_up :: "cext \<Rightarrow> frame \<Rightarrow> clid \<Rightarrow> crid \<Rightarrow> bool \<Rightarrow> cworld \<Rightarrow> cworld \<Rightarrow> bool" where
  "gave_up X K c r kept w w' \<longleftrightarrow>
     core X ((curA w')(c := Some r)) (curN w') ((curE w')(r := Some c)) (curP w') w' \<and> control K w' \<and>
     cl_request (client w' c) = None \<and> creq w' = creq w \<and> pool w' = pool w \<and>
     cevents w' = cevents w \<and> cl_pooled (client w' c) = cl_pooled (client w c) \<and>
     cl_netloc (client w' c) = cl_netloc (client w c) \<and> cl_last_activity (client w' c) = cx_now X \<and>
     cl_connected (client w' c) = (cl_connected (client w c) \<and> kept)"

lemma finish_request_gave_up:
  assumes inv: "cinv X K w" and r: "cl_request (client w c) = Some r" and ctx: "cl_ctx (client w c) = None"
    and frame: "fst K c = None \<or> cl_redirect_canceled (client w c)"
    and res: "err \<noteq> NoError \<or> cl_response (client w c) \<noteq> None"
    and e: "e = final_error err (creq w r)" and p: "p = cl_response (client w c)"
  shows "\<exists>w'. finish_request X cb c err w =
      run [when_step (\<lambda>w. cl_pooled (client w c)) (Pool_putback X c), finish_and_notify cb r p e] w' \<and>
    gave_up X K c r (keeps_connection e p (creq w r)) w w'"
proof -
  have lt: "c < next_clid w" using request_lt [OF inv] r by simp
  have ok: "client_ok (fst K c) (client w c)" using cinv_client_ok [OF inv] .
  define kept where "kept = keeps_connection e p (creq w r)"
  define g :: "client \<Rightarrow> client" where "g = (\<lambda>k. if kept then k\<lparr>cl_weak := True\<rparr>
    else k\<lparr>cl_connected := False, cl_connecting := False\<rparr>)"
  have "e \<noteq> NoError \<or> p \<noteq> None"
    using res by (auto simp: e p final_error_def)
  then have g: "settle_connection c e p (creq w r)
      (upd_client c (\<lambda>k. k\<lparr>cl_request := None, cl_response := None\<rparr>) w) =
      Done (upd_client c g (upd_client c (\<lambda>k. k\<lparr>cl_request := None, cl_response := None\<rparr>) w))"
    using settle_connection_stream [of e p c "creq w r"]
    by (simp add: g_def kept_def [symmetric] tcp_reset_def tcp_weak_def)
  define f where "f = (\<lambda>k. (g (k\<lparr>cl_request := None, cl_response := None\<rparr>))\<lparr>cl_last_activity := cx_now X\<rparr>)"
  define w1 where "w1 = upd_client c f w"
  have f: "cl_request (f k) = None" "cl_netloc (f k) = cl_netloc k" "cl_pooled (f k) = cl_pooled k"
    "cl_ctx (f k) = cl_ctx k" "cl_form_field (f k) = cl_form_field k"
    "cl_in_redirect (f k) = cl_in_redirect k" "cl_redirect_canceled (f k) = cl_redirect_canceled k"
    "cl_last_activity (f k) = cx_now X" "cl_connected (f k) = (cl_connected k \<and> kept)" for k
    by (simp_all add: f_def g_def)
  have field: "cl_form_field (client w c) = - 1" using ok by (simp add: client_ok_def)
  have run: "finish_request X cb c err w =
      run [when_step (\<lambda>w. cl_pooled (client w c)) (Pool_putback X c), finish_and_notify cb r p e] w1"
  proof -
    have "upd_client c (\<lambda>k. k\<lparr>cl_last_activity := cx_now X\<rparr>)
        (upd_client c g (upd_client c (\<lambda>k. k\<lparr>cl_request := None, cl_response := None\<rparr>) w)) = w1"
      by (simp add: w1_def f_def upd_client_def)
    moreover have "stop_form c r (upd_client c g (upd_client c
          (\<lambda>k. k\<lparr>cl_request := None, cl_response := None\<rparr>) w)) =
        Done (upd_client c g (upd_client c (\<lambda>k. k\<lparr>cl_request := None, cl_response := None\<rparr>) w))"
      using field by (simp add: stop_form_def g_def)
    ultimately show ?thesis
      unfolding finish_request_def r option.case p [symmetric] e [symmetric] Let_def
      by (simp only: run.simps pure_step_apply outcome.case g)
  qed
  have "(curA w1)(c := Some r) = curA w" "curN w1 = curN w"
    using f r by (auto simp: w1_def fun_eq_iff)
  moreover have "curE w1 = curE w" "curP w1 = curP w" by (simp_all add: w1_def)
  moreover have "core X (curA w) (curN w) (curE w) (curP w) w1"
    unfolding w1_def by (rule core_client) (rule cinv_core [OF inv], rule f(3))
  ultimately have core1: "core X ((curA w1)(c := Some r)) (curN w1) (curE w1) (curP w1) w1"
    by simp
  have E: "(curE w1)(r := Some c) = curE w1"
    using linked_idle [OF coreD(2) [OF core1], of c r] by (simp add: fun_eq_iff)
  have control1: "control K w1"
    unfolding w1_def
    by (rule control_client [OF cinv_control [OF inv] _ lt])
      (use ok frame ctx f in \<open>auto simp: client_ok_def\<close>)
  have "gave_up X K c r kept w w1"
    unfolding gave_up_def E using core1 control1 by (simp add: w1_def f)
  with run show ?thesis unfolding kept_def by blast
qed

lemma redirect_target_ok:
  assumes "u_scheme prev \<noteq> []" and "u_host prev \<noteq> []"
  shows "u_scheme (redirect_target X prev loc) \<noteq> []" "u_host (redirect_target X prev loc) \<noteq> []"
  using assms by (simp_all add: redirect_target_def Let_def)

lemma fun_if_same: "(\<lambda>d. if d = c then g (h c) else g (h d)) = (\<lambda>d. g (h d))"
  by (rule ext) simp

text \<open>A cancellation lets the parser forget the request before it ends.\<close>

lemma Client_cancel_starts:
  assumes inv: "cinv X K w" and Some: "cl_request (client w c) = Some r" and err: "err \<noteq> NoError"
  shows "\<exists>w1. Client_cancel X cb c err w = finish_request X cb c err w1 \<and> cinv X K w1 \<and>
    cl_request (client w1 c) = Some r \<and> cl_ctx (client w1 c) = None \<and>
    (fst K c = None \<or> cl_redirect_canceled (client w1 c)) \<and>
    creq w1 = creq w \<and> pool w1 = pool w \<and> cevents w1 = cevents w \<and>
    cl_response (client w1 c) = cl_response (client w c) \<and> cl_netloc (client w1 c) = cl_netloc (client w c) \<and>
    cl_pooled (client w1 c) = cl_pooled (client w c) \<and> cl_connected (client w1 c) = cl_connected (client w c)"
proof -
  define f :: "client \<Rightarrow> client" where "f = (\<lambda>k. let k = k\<lparr>cl_ctx := None\<rparr>
    in if cl_in_redirect k then k\<lparr>cl_redirect_canceled := True\<rparr> else k)"
  define w1 where "w1 = upd_client c f w"
  have f: "cl_request (f k) = cl_request k" "cl_netloc (f k) = cl_netloc k" "cl_pooled (f k) = cl_pooled k"
    "cl_ctx (f k) = None" "cl_form_field (f k) = cl_form_field k" "cl_in_redirect (f k) = cl_in_redirect k"
    "cl_redirect_canceled (f k) = (cl_redirect_canceled k \<or> cl_in_redirect k)"
    "cl_response (f k) = cl_response k" "cl_connected (f k) = cl_connected k" for k
    by (auto simp: f_def Let_def)
  have ok: "client_ok (fst K c) (client w c)" using cinv_client_ok [OF inv] .
  have "client_ok (fst K c) (f (client w c))"
    using ok unfolding client_ok_def f by auto
  then have inv1: "cinv X K w1"
    unfolding w1_def by (rule cinv_client [OF inv]) (use request_lt [OF inv] Some f in simp_all)
  have "fst K c = None \<or> cl_redirect_canceled (client w1 c)"
    using f(7) ok by (auto simp: w1_def client_ok_def)
  moreover have "upd_client c (\<lambda>k. if cl_in_redirect k then k\<lparr>cl_redirect_canceled := True\<rparr> else k)
      (upd_client c (\<lambda>k. k\<lparr>cl_ctx := None\<rparr>) w) = w1"
    by (simp add: w1_def f_def upd_client_def Let_def)
  then have "Client_cancel X cb c err w = finish_request X cb c err w1"
    using Some by (simp add: Client_cancel_def split: outcome.split)
  moreover have "cl_request (client w1 c) = Some r" "cl_ctx (client w1 c) = None" "creq w1 = creq w"
    "pool w1 = pool w" "cevents w1 = cevents w" "cl_response (client w1 c) = cl_response (client w c)"
    "cl_netloc (client w1 c) = cl_netloc (client w c)" "cl_pooled (client w1 c) = cl_pooled (client w c)"
    "cl_connected (client w1 c) = cl_connected (client w c)"
    using f Some by (simp_all add: w1_def)
  ultimately show ?thesis using inv1 by blast
qed

section \<open>Following a redirect\<close>

text \<open>
  Before a redirected request goes on, it is taken from the client; it goes on at the same client, or,
  when the client is one of the pool and the new location is another, through the pool.
\<close>

definition redirect_left :: "clid \<Rightarrow> crid \<Rightarrow> cresponse \<Rightarrow> cworld \<Rightarrow> cworld" where
  "redirect_left c r p w =
     upd_creq r (\<lambda>q. cleanup_after_redirect (see_other (rp_code p) q))
       (upd_client c (\<lambda>k. let k = k\<lparr>cl_request := None, cl_response := None\<rparr>
          in if rp_keep p then k else k\<lparr>cl_connected := False, cl_connecting := False\<rparr>) w)"

definition redirect_elsewhere :: "cext \<Rightarrow> clid \<Rightarrow> crid \<Rightarrow> cworld \<Rightarrow> bool" where
  "redirect_elsewhere X c r w \<longleftrightarrow> cl_pooled (client w c) \<and>
     (nl_host (Request_netloc X (creq w r)) \<noteq> nl_host (cl_netloc (client w c)) \<or>
      nl_port (Request_netloc X (creq w r)) \<noteq> nl_port (cl_netloc (client w c)))"

definition redirect_through_pool :: "cext \<Rightarrow> clid \<Rightarrow> crid \<Rightarrow> cworld call" where
  "redirect_through_pool X c r =
     run [pure_step (upd_client c (\<lambda>k. k\<lparr>cl_last_activity := cx_now X\<rparr>)),
          Pool_putback X c, pure_step (tcp_weak c True), Pool_request X r]"

lemma see_other_netloc: "Request_netloc X (see_other code q) = Request_netloc X q"
  by (auto simp: see_other_def Request_netloc_def split: option.split)

lemma follow_redirect_run:
  assumes r: "cl_request (client w c) = Some r" and p: "cl_response (client w c) = Some p"
  shows "follow_redirect X c w =
    (if redirect_elsewhere X c r w then redirect_through_pool X c r else Client_request X c r)
      (redirect_left c r p w)"
proof -
  have single: "run [f] v = f v" for f and v :: cworld by (cases "f v") simp_all
  have "upd_creq r cleanup_after_redirect (if rp_keep p then upd_client c
        (\<lambda>k. k\<lparr>cl_request := None, cl_response := None\<rparr>) (upd_creq r (see_other (rp_code p)) w)
      else tcp_reset c (upd_client c (\<lambda>k. k\<lparr>cl_request := None, cl_response := None\<rparr>)
        (upd_creq r (see_other (rp_code p)) w))) = redirect_left c r p w"
    by (simp add: redirect_left_def upd_client_def upd_creq_def tcp_reset_def)
  moreover have "redirect_elsewhere X c r (upd_creq r (see_other (rp_code p)) w) = redirect_elsewhere X c r w"
    by (simp add: redirect_elsewhere_def see_other_netloc)
  ultimately show ?thesis
    by (cases "rp_keep p"; cases "redirect_elsewhere X c r w")
      (simp_all only: follow_redirect_def r p option.case prod.case Let_def run.simps(2) [of "pure_step _"]
        pure_step_apply outcome.case upd_creq_simps upd_client_simps see_other_netloc if_True if_False
        simp_thms redirect_elsewhere_def [symmetric] redirect_through_pool_def single)
qed

lemma redirect_left_facts:
  assumes inv: "cinv X K w" and r: "cl_request (client w c) = Some r"
    and ctx: "cl_ctx (client w c) = None" and frame: "fst K c = None" and w1: "w1 = redirect_left c r p w"
  shows "core X ((curA w1)(c := Some r)) (curN w1) ((curE w1)(r := Some c)) (curP w1) w1"
    and "control K w1" and "cl_request (client w1 c) = None" and "cq_client (creq w1 r) = None"
    and "acceptable (creq w1 r)" and "nowhere w1 r" and "c < next_clid w1"
    and "Request_netloc X (creq w1 r) = Request_netloc X (creq w r)"
    and "cl_netloc (client w1 c) = cl_netloc (client w c)" and "cl_pooled (client w1 c) = cl_pooled (client w c)"
proof -
  have core: "core X (curA w) (curN w) (curE w) (curP w) w" by (rule cinv_core [OF inv])
  have lt: "c < next_clid w" using request_lt [OF inv] r by simp
  have E: "cq_client (creq w r) = Some c"
    using linked_idle [OF coreD(2) [OF core], of c r] r by simp
  define f :: "client \<Rightarrow> client" where "f = (\<lambda>k. let k = k\<lparr>cl_request := None, cl_response := None\<rparr>
    in if rp_keep p then k else k\<lparr>cl_connected := False, cl_connecting := False\<rparr>)"
  define g where "g = (\<lambda>q. cleanup_after_redirect (see_other (rp_code p) q))"
  note w1 = w1 [unfolded redirect_left_def, folded f_def g_def]
  have f: "cl_request (f k) = None" "cl_netloc (f k) = cl_netloc k" "cl_pooled (f k) = cl_pooled k"
    "cl_ctx (f k) = cl_ctx k" "cl_form_field (f k) = cl_form_field k"
    "cl_in_redirect (f k) = cl_in_redirect k" "cl_redirect_canceled (f k) = cl_redirect_canceled k" for k
    by (simp_all add: f_def Let_def)
  have g: "Request_netloc X (g q) = Request_netloc X q" "Request_check (g q) = Request_check q"
    "plain (g q) = plain q" "cq_pool (g q) = cq_pool q" "cq_client (g q) = None" for q
    by (auto simp: g_def see_other_def cleanup_after_redirect_def Request_netloc_def Request_check_def
        plain_def split: option.splits)
  have "core X (curA w) (curN w) (curE w) (curP w) w1"
    unfolding w1 by (rule core_cong [OF core]) (use f g in auto)
  moreover have "(curA w1)(c := Some r) = curA w" "curN w1 = curN w" "(curE w1)(r := Some c) = curE w"
    "curP w1 = curP w"
    using f g r E by (auto simp: w1 fun_eq_iff)
  ultimately show "core X ((curA w1)(c := Some r)) (curN w1) ((curE w1)(r := Some c)) (curP w1) w1"
    by (simp only:)
  have "client_ok (fst K c) (f (client w c))"
    using cinv_client_ok [OF inv, of c] frame ctx f by (simp add: client_ok_def)
  then show "control K w1"
    unfolding w1
    by (intro control_creq control_client) (use cinv_control [OF inv] lt g(4) in simp_all)
  show "cl_request (client w1 c) = None" "cq_client (creq w1 r) = None" "acceptable (creq w1 r)" "nowhere w1 r"
    "c < next_clid w1" "Request_netloc X (creq w1 r) = Request_netloc X (creq w r)"
    "cl_netloc (client w1 c) = cl_netloc (client w c)" "cl_pooled (client w1 c) = cl_pooled (client w c)"
    using coreD(5) [OF core] E active_away [OF inv r] lt
    by (simp_all add: w1 f g acceptable_def requests_ok_def nowhere_def)
qed

lemma redirect_here:
  assumes inv: "cinv X K w" and r: "cl_request (client w c) = Some r"
    and ctx: "cl_ctx (client w c) = None" and frame: "fst K c = None"
    and here: "\<not> redirect_elsewhere X c r w"
  shows "picked X K r c (redirect_left c r p w)"
proof -
  define w1 where "w1 = redirect_left c r p w"
  note left = redirect_left_facts [OF inv r ctx frame w1_def]
  let ?nl = "Request_netloc X (creq w r)"
  have "core X ((curA w1)(c := Some r)) ((curN w1)(c := ?nl)) ((curE w1)(r := Some c)) (curP w1) w1"
  proof (cases "cl_pooled (client w c)")
    case True
    then have "cl_netloc (client w1 c) = ?nl"
      using here coreD(7) [OF cinv_core [OF inv]] r left(9)
      by (auto simp: redirect_elsewhere_def kind_ok_def same_kind_def intro!: netloc.equality)
    then show ?thesis using left(1) fun_upd_triv [of "curN w1" c] by simp
  next
    case False
    show ?thesis
      by (rule core_rename_standalone [OF left(1), of c r], unfold left(8,10)) (use False in simp_all)
  qed
  then show ?thesis using left by (simp add: picked_def w1_def)
qed

lemma redirect_through_pool_inv:
  assumes verify: "cx_verify_paths X" and inv: "cinv X K w" and r: "cl_request (client w c) = Some r"
    and ctx: "cl_ctx (client w c) = None" and frame: "fst K c = None"
    and elsewhere: "redirect_elsewhere X c r w"
  shows "\<exists>w'. redirect_through_pool X c r (redirect_left c r p w) = Done w' \<and> cinv X K w'"
proof -
  define w1 where "w1 = redirect_left c r p w"
  note left = redirect_left_facts [OF inv r ctx frame w1_def]
  define w2 where "w2 = upd_client c (\<lambda>k. k\<lparr>cl_last_activity := cx_now X\<rparr>) w1"
  have touch: "control K (upd_client c h v)"
    if "control K v" "c < next_clid v" "\<And>k. client_ok (fst K c) k \<Longrightarrow> client_ok (fst K c) (h k)" for h v
    by (rule control_client) (use that in \<open>auto simp: control_def\<close>)
  have cur2: "curA w2 = curA w1" "curN w2 = curN w1" "curE w2 = curE w1" "curP w2 = curP w1"
    by (auto simp: w2_def fun_eq_iff)
  have "core X ((curA w2)(c := Some r)) (curN w2) ((curE w2)(r := Some c)) (curP w2) w2"
    unfolding cur2 unfolding w2_def by (rule core_client [OF left(1)]) simp
  moreover have "control K w2"
    unfolding w2_def by (rule touch [OF left(2,7)]) (simp add: client_ok_def)
  moreover have "cl_request (client w2 c) = None" "cl_pooled (client w2 c)"
    using left(3,10) elsewhere by (simp_all add: w2_def redirect_elsewhere_def)
  ultimately obtain w3 where w3: "Pool_putback X c w2 = Done w3" "control K w3" "creq w3 r = creq w2 r"
    "core X (curA w3) (curN w3) ((curE w3)(r := None)) ((curP w3)(r := False)) w3"
    "next_clid w3 = next_clid w2" "nowhere w3 r"
    using Pool_putback_inv [OF verify] by blast
  define w4 where "w4 = tcp_weak c True w3"
  have cur4: "curA w4 = curA w3" "curN w4 = curN w3" "curE w4 = curE w3" "curP w4 = curP w3"
    "pool w4 = pool w3" "creq w4 = creq w3"
    by (auto simp: w4_def fun_eq_iff)
  have none: "cq_client (creq w3 r) = None" using w3(3) left(4) by (simp add: w2_def)
  then have "(curE w3)(r := None) = curE w3" by (simp add: fun_eq_iff)
  with w3(4) have "core X (curA w4) (curN w4) (curE w4) ((curP w4)(r := False)) w4"
    unfolding cur4 unfolding w4_def tcp_weak_def by (intro core_client) simp_all
  moreover have "control K w4"
    unfolding w4_def tcp_weak_def
    by (rule touch [OF w3(2)]) (use left(7) w3(5) in \<open>simp_all add: client_ok_def w2_def\<close>)
  moreover have "cq_client (creq w4 r) = None" "acceptable (creq w4 r)" "nowhere w4 r"
    using none left(5) w3(3,6) cur4 by (simp_all add: w2_def nowhere_def)
  ultimately obtain w5 where "Pool_request X r w4 = Done w5" "cinv X K w5"
    using Pool_request_inv [OF verify] by blast
  then show ?thesis
    using w3(1) by (simp add: redirect_through_pool_def w2_def w4_def w1_def)
qed

section \<open>The interface\<close>

locale client_contract =
  fixes X :: cext and cb :: ccallbacks and D :: "fault set"
  assumes verify: "cx_verify_paths X"
    and iterators: "InvalidIterator \<in> D"
    and cb_inv: "cinv X K w \<Longrightarrow> outcome_all D (cinv X K) (cinv X K) (cb ev w)"
begin

lemma cfire_inv: "cinv X K w \<Longrightarrow> outcome_all D (cinv X K) (cinv X K) (cfire cb ev w)"
  by (simp add: cfire_def cb_inv)

lemma finished_inv:
  assumes core: "core X (curA w) (curN w) ((curE w)(r := None)) ((curP w)(r := False)) w"
    and control: "control K w"
  shows "cinv X K (upd_creq r finished_request w)"
proof -
  have "core X (curA w) (curN w) ((curE w)(r := None)) ((curP w)(r := False))
      (upd_creq r finished_request w)"
    by (rule core_cong [OF core])
      (auto simp: finished_request_def cleanup_after_redirect_def Request_netloc_def Request_check_def
        plain_def split: option.splits)
  moreover have "curE (upd_creq r finished_request w) = (curE w)(r := None)"
    "curP (upd_creq r finished_request w) = (curP w)(r := False)"
    by (auto simp: finished_request_def cleanup_after_redirect_def fun_eq_iff)
  moreover have "control K (upd_creq r finished_request w)"
    by (rule control_creq [OF control]) (simp add: finished_request_def)
  ultimately show ?thesis
    by (simp add: cinv_def)
qed

lemma notify_inv:
  assumes "core X (curA w) (curN w) ((curE w)(r := None)) ((curP w)(r := False)) w" and "control K w"
  shows "outcome_all D (cinv X K) (cinv X K) (finish_and_notify cb r res err w)"
  unfolding finish_and_notify_def Let_def
  by (intro post_run_pure post_run_Cons [OF cfire_inv] post_run_Nil) (rule finished_inv [OF assms])

text \<open>The end of a request: its client goes back to the pool, and the user is told.\<close>

lemma finish_request_ready:
  assumes "cinv X K w" and "cl_request (client w c) = Some r" and "cl_ctx (client w c) = None"
    and "fst K c = None \<or> cl_redirect_canceled (client w c)"
    and "err \<noteq> NoError \<or> cl_response (client w c) \<noteq> None"
  shows "\<exists>w1 w2 p e kept. finish_request X cb c err w = finish_and_notify cb r p e w2 \<and>
    gave_up X K c r kept w w1 \<and> (w2 = w1 \<or> Pool_putback X c w1 = Done w2) \<and> nowhere w2 r \<and>
    core X (curA w2) (curN w2) ((curE w2)(r := None)) ((curP w2)(r := False)) w2 \<and> control K w2"
proof -
  obtain w1 kept p e where run: "finish_request X cb c err w =
      run [when_step (\<lambda>w. cl_pooled (client w c)) (Pool_putback X c), finish_and_notify cb r p e] w1"
    and up: "gave_up X K c r kept w w1"
    using finish_request_gave_up [OF assms refl refl] by blast
  have core1: "core X ((curA w1)(c := Some r)) (curN w1) ((curE w1)(r := Some c)) (curP w1) w1"
    and control1: "control K w1" and none: "cl_request (client w1 c) = None"
    using up unfolding gave_up_def by blast+
  show ?thesis
  proof (cases "cl_pooled (client w1 c)")
    case True
    from Pool_putback_inv [OF verify core1 control1 none True] obtain w2 where
      w2: "Pool_putback X c w1 = Done w2" "control K w2" "nowhere w2 r"
      "core X (curA w2) (curN w2) ((curE w2)(r := None)) ((curP w2)(r := False)) w2"
      by blast
    then have "finish_request X cb c err w = finish_and_notify cb r p e w2"
      using True post_run_single by (simp add: run split: outcome.split)
    with w2 up show ?thesis by blast
  next
    case False
    have "core X ((curA w1)(c := Some r, c := None)) (curN w1) ((curE w1)(r := Some c, r := None))
        ((curP w1)(r := False)) w1"
      by (rule core_release_standalone [OF core1 False]) simp
    then have "core X (curA w1) (curN w1) ((curE w1)(r := None)) ((curP w1)(r := False)) w1"
      using none fun_upd_triv [of "curA w1" c] by simp
    moreover have "nowhere w1 r"
      using core_queue_unique [OF core1, of _ _ r] by (auto simp: nowhere_def)
    moreover have "finish_request X cb c err w = finish_and_notify cb r p e w1"
      using False by (simp add: run split: outcome.split)
    ultimately show ?thesis using up control1 by blast
  qed
qed

lemma finish_request_inv:
  assumes "cinv X K w" and "cl_request (client w c) = Some r" and "cl_ctx (client w c) = None"
    and "fst K c = None \<or> cl_redirect_canceled (client w c)"
    and "err \<noteq> NoError \<or> cl_response (client w c) \<noteq> None"
  shows "outcome_all D (cinv X K) (cinv X K) (finish_request X cb c err w)"
  using finish_request_ready [OF assms] by (elim exE conjE, simp only: notify_inv)

lemma Client_cancel_inv:
  assumes inv: "cinv X K w" and err: "err \<noteq> NoError"
  shows "outcome_all D (cinv X K) (cinv X K) (Client_cancel X cb c err w)"
proof (cases "cl_request (client w c)")
  case None
  then show ?thesis using inv by (simp add: Client_cancel_def)
next
  case (Some r)
  obtain w1 where "Client_cancel X cb c err w = finish_request X cb c err w1" "cinv X K w1"
    "cl_request (client w1 c) = Some r" "cl_ctx (client w1 c) = None"
    "fst K c = None \<or> cl_redirect_canceled (client w1 c)"
    using Client_cancel_starts [OF inv Some err] by blast
  then show ?thesis using finish_request_inv err by simp
qed

lemma Client_timed_out_inv:
  "cinv X K w \<Longrightarrow> outcome_all D (cinv X K) (cinv X K) (Client_timed_out X cb c w)"
  unfolding Client_timed_out_def
  by (rule Client_cancel_inv) (simp_all add: timed_out_error_def)

text \<open>A waiting request is canceled: it is told in a frame that watches the queue.\<close>

lemma Pool_cancel_frame:
  assumes inv: "cinv X K w" and r: "cq_client (creq w r) = None" "cq_pool (creq w r)"
  shows "\<exists>L. entry w (Request_netloc X (creq w r)) = Some L \<and> r \<in> set (nl_queue L) \<and>
    cinv X (fst K, insert (Request_netloc X (creq w r), nl_version L, r) (snd K))
      (upd_creq r finished_request w)"
proof -
  let ?nl = "Request_netloc X (creq w r)"
  obtain L where L: "entry w ?nl = Some L" "r \<in> set (nl_queue L)"
    using coreD(4) [OF cinv_core [OF inv]] r by (auto simp: waiting_ok_def)
  define v where "v = nl_version L"
  define K' where "K' = (fst K, insert (?nl, v, r) (snd K))"
  define w1 where "w1 = upd_creq r finished_request w"
  have E: "(curE w)(r := None) = curE w" using r(1) by (simp add: fun_eq_iff)
  have "core X (curA w) (curN w) (curE w) ((curP w)(r := False)) w"
    by (rule core_mono [OF cinv_core [OF inv]]) (auto split: if_splits)
  then have "core X (curA w) (curN w) (curE w) ((curP w)(r := False)) w1"
    unfolding w1_def
    by (rule core_cong)
      (auto simp: finished_request_def cleanup_after_redirect_def Request_netloc_def Request_check_def
        plain_def split: option.splits)
  moreover have "curA w1 = curA w" "curN w1 = curN w" "curE w1 = curE w"
    "curP w1 = (curP w)(r := False)" "pool w1 = pool w" "next_clid w1 = next_clid w"
    using r(1) by (auto simp: w1_def finished_request_def cleanup_after_redirect_def fun_eq_iff)
  moreover have "control K w1"
    unfolding w1_def
    by (rule control_creq [OF cinv_control [OF inv]]) (simp add: finished_request_def)
  moreover have "window w1 (?nl, v, r)"
    using L by (simp add: window_def v_def w1_def finished_request_def)
  ultimately have "cinv X K' w1"
    by (simp add: cinv_def control_def K'_def)
  then show ?thesis using L by (simp add: K'_def v_def w1_def)
qed

lemma Pool_cancel_inv:
  assumes inv: "cinv X K w" and r: "cq_client (creq w r) = None" "cq_pool (creq w r)"
  shows "outcome_all D (cinv X K) (cinv X K) (Pool_cancel_request X cb r err w)"
proof -
  let ?nl = "Request_netloc X (creq w r)"
  define w1 where "w1 = upd_creq r finished_request w"
  obtain L v K' where L: "entry w ?nl = Some L" "r \<in> set (nl_queue L)" and v_def: "v = nl_version L"
    and K'_def: "K' = (fst K, insert (?nl, v, r) (snd K))" and inv1: "cinv X K' w1"
    using Pool_cancel_frame [OF assms] unfolding w1_def by blast
  have erase: "outcome_all D (cinv X K) (cinv X K) (erase_queued ?nl v r w2)" if inv2: "cinv X K' w2" for w2
  proof -
    obtain L2 where L2: "entry w2 ?nl = Some L2" "nl_version L2 = v \<Longrightarrow> \<not> cq_pool (creq w2 r)"
      using inv2 by (auto simp: cinv_def control_def K'_def window_def)
    have inv2': "cinv X K w2"
      using inv2 by (simp add: cinv_def control_def K'_def)
    show ?thesis
    proof (cases "nl_version L2 = v")
      case True
      define L3 where "L3 = L2\<lparr>nl_queue := remove1 r (nl_queue L2), nl_version := Suc (nl_version L2)\<rparr>"
      have "core X (curA w2) (curN w2) (curE w2) (curP w2) (set_entry ?nl L3 w2)"
        by (rule core_erase [OF cinv_core [OF inv2'] _ L2(1)]) (use L2(2) True in \<open>simp_all add: L3_def\<close>)
      moreover have "control K (set_entry ?nl L3 w2)"
        by (rule control_set_entry [OF cinv_control [OF inv2']]) (use L2 in \<open>simp add: L3_def\<close>)
      ultimately have "cinv X K (set_entry ?nl L3 w2)" by (simp add: cinv_def)
      then show ?thesis using L2(1) True by (simp add: erase_queued_def L3_def)
    next
      case False
      then show ?thesis using L2(1) iterators by (simp add: erase_queued_def)
    qed
  qed
  have weaken: "outcome_all D (cinv X K') (cinv X K) out" if "outcome_all D (cinv X K') (cinv X K') out" for out
    by (rule post_mono [OF that]) (auto simp: cinv_def control_def K'_def)
  have "outcome_all D (cinv X K') (cinv X K') (finish_and_notify cb r None err w)"
    unfolding finish_and_notify_def Let_def
    by (intro post_run_pure post_run_Cons [OF cfire_inv] post_run_Nil) (use inv1 w1_def in simp_all)
  then have "outcome_all D (cinv X K) (cinv X K)
      (run [finish_and_notify cb r None err, erase_queued ?nl v r] w)"
    by (rule post_run_Cons [OF weaken]) (simp only: post_run_single erase)
  then show ?thesis
    using L by (simp add: Pool_cancel_request_def Let_def v_def)
qed

lemma Request_cancel_inv:
  "cinv X K w \<Longrightarrow> err \<noteq> NoError \<Longrightarrow> outcome_all D (cinv X K) (cinv X K) (Request_cancel X cb r err w)"
  by (auto simp: Request_cancel_def Client_cancel_inv Pool_cancel_inv split: option.split)

lemma Request_on_timer_inv:
  "cinv X K w \<Longrightarrow> outcome_all D (cinv X K) (cinv X K) (Request_on_timer X cb r w)"
  by (auto simp: Request_on_timer_def Client_timed_out_inv Pool_cancel_inv split: option.split)

text \<open>Following a redirect: the request goes to the same client or through the pool.\<close>

lemma follow_redirect_inv:
  assumes "cinv X K w" and "cl_request (client w c) = Some r" and "cl_response (client w c) = Some p"
    and "cl_ctx (client w c) = None" and "fst K c = None"
  shows "\<exists>w'. follow_redirect X c w = Done w' \<and> cinv X K w'"
  using redirect_through_pool_inv [OF verify assms(1,2,4,5), of p]
    picked_served [OF verify redirect_here [OF assms(1,2,4,5), of p]]
  by (auto simp: follow_redirect_run [OF assms(2,3)])

text \<open>
  A redirect. The event is called in a frame that keeps request and response; after it the request is
  followed, unless it was canceled meanwhile.
\<close>

lemma redirect_frame:
  assumes inv: "cinv X K w" and r: "cl_request (client w c) = Some r" and p: "cl_response (client w c) = Some p"
    and ctx: "cl_ctx (client w c) = None" and frame: "fst K c = None"
  shows "cinv X ((fst K)(c := Some (r, p)), snd K) (upd_client c (\<lambda>k. k\<lparr>cl_in_redirect := True\<rparr>) w)"
proof -
  define w1 where "w1 = upd_client c (\<lambda>k. k\<lparr>cl_in_redirect := True\<rparr>) w"
  have lt: "c < next_clid w" using request_lt [OF inv] r by simp
  have ok: "client_ok (fst K c) (client w c)" by (rule cinv_client_ok [OF inv])
  have "client_ok None (client w1 c)"
    using ok frame by (simp add: client_ok_def w1_def)
  then have "cinv X K w1"
    unfolding w1_def by (intro cinv_client [OF inv]) (use frame lt in \<open>simp_all add: client_ok_def\<close>)
  moreover have "client_ok (Some (r, p)) (client w1 c)"
    using ok frame r p ctx by (simp add: client_ok_def w1_def)
  ultimately show ?thesis
    unfolding w1_def [symmetric] by (auto simp: cinv_def control_def)
qed

lemma redirect_leave:
  assumes inv: "cinv X K w" and r: "cl_request (client w c) = Some r" and p: "cl_response (client w c) = Some p"
    and ctx: "cl_ctx (client w c) = None" and frame: "fst K c = None"
    and inv2': "cinv X ((fst K)(c := Some (r, p)), snd K) w2"
  shows "cinv X K (upd_client c (\<lambda>k. k\<lparr>cl_in_redirect := False, cl_redirect_canceled := False\<rparr>) w2)"
proof -
  define K' where "K' = ((fst K)(c := Some (r, p)), snd K)"
  have inv2: "cinv X K' w2" using inv2' by (simp add: K'_def)
  have ok2: "client_ok (Some (r, p)) (client w2 c)"
    using cinv_client_ok [OF inv2, of c] by (simp add: K'_def)
  then have lt2: "c < next_clid w2"
    by (intro client_lt [OF inv2]) (auto simp: client_ok_def new_client_def)
  have other: "client_ok (fst K d) (client w2 d)" if "d \<noteq> c" for d
    using cinv_client_ok [OF inv2, of d] that by (simp add: K'_def)
  have "core X (curA w2) (curN w2) (curE w2) (curP w2)
      (upd_client c (\<lambda>k. k\<lparr>cl_in_redirect := False, cl_redirect_canceled := False\<rparr>) w2)"
    by (rule core_client) (use cinv_core [OF inv2] in simp_all)
  moreover have "client_ok None ((client w2 c)\<lparr>cl_in_redirect := False, cl_redirect_canceled := False\<rparr>)"
    using ok2 by (simp add: client_ok_def)
  then have "control K (upd_client c (\<lambda>k. k\<lparr>cl_in_redirect := False, cl_redirect_canceled := False\<rparr>) w2)"
    using cinv_control [OF inv2] lt2 frame other by (auto simp: control_def K'_def window_def)
  ultimately show "cinv X K (upd_client c (\<lambda>k. k\<lparr>cl_in_redirect := False, cl_redirect_canceled := False\<rparr>) w2)"
    by (simp add: cinv_def if_distrib [of cl_request] if_distrib [of cl_netloc] fun_if_same
        cong: if_cong)
qed

lemma fire_redirect_inv:
  assumes inv: "cinv X K w" and r: "cl_request (client w c) = Some r" and p: "cl_response (client w c) = Some p"
    and ctx: "cl_ctx (client w c) = None" and frame: "fst K c = None"
  shows "outcome_all D (\<lambda>w'. cinv X K (upd_client c (\<lambda>k. k\<lparr>cl_redirect_canceled := False\<rparr>) w') \<and>
      (cl_redirect_canceled (client w' c) \<or> cinv X K w' \<and> cl_request (client w' c) = Some r \<and>
         cl_response (client w' c) = Some p \<and> cl_ctx (client w' c) = None))
    (cinv X K) (fire_redirect X cb c ev w)"
proof -
  define K' where "K' = ((fst K)(c := Some (r, p)), snd K)"
  define w1 where "w1 = upd_client c (\<lambda>k. k\<lparr>cl_in_redirect := True\<rparr>) w"
  have inv1: "cinv X K' w1"
    unfolding K'_def w1_def by (rule redirect_frame [OF assms])
  have leave: "cinv X K (upd_client c (\<lambda>k. k\<lparr>cl_in_redirect := False, cl_redirect_canceled := False\<rparr>) w2)"
    if "cinv X K' w2" for w2
    using redirect_leave [OF assms] that by (simp add: K'_def)
  have post: "outcome_all D (cinv X K') (cinv X K') (cfire cb ev w1)" by (rule cfire_inv [OF inv1])
  show ?thesis
  proof (cases "cfire cb ev w1")
    case (Done w2)
    then have inv2: "cinv X K' w2" using post by simp
    define w3 where "w3 = upd_client c (\<lambda>k. k\<lparr>cl_in_redirect := False\<rparr>) w2"
    have ok2: "client_ok (Some (r, p)) (client w2 c)"
      using cinv_client_ok [OF inv2, of c] by (simp add: K'_def)
    have reset: "upd_client c (\<lambda>k. k\<lparr>cl_redirect_canceled := False\<rparr>) w3 =
        upd_client c (\<lambda>k. k\<lparr>cl_in_redirect := False, cl_redirect_canceled := False\<rparr>) w2"
      by (simp add: w3_def upd_client_def)
    have fired: "fire_redirect X cb c ev w = Done w3"
      using Done by (simp add: fire_redirect_def w1_def w3_def)
    have first: "cinv X K (upd_client c (\<lambda>k. k\<lparr>cl_redirect_canceled := False\<rparr>) w3)"
      unfolding reset by (rule leave [OF inv2])
    show ?thesis
    proof (cases "cl_redirect_canceled (client w3 c)")
      case True
      then show ?thesis using fired first by simp
    next
      case nc: False
      have "(client w2 c)\<lparr>cl_in_redirect := False\<rparr> =
          (client w2 c)\<lparr>cl_in_redirect := False, cl_redirect_canceled := False\<rparr>"
        by (rule client.equality) (use nc in \<open>simp_all add: w3_def\<close>)
      then have "w3 = upd_client c (\<lambda>k. k\<lparr>cl_in_redirect := False, cl_redirect_canceled := False\<rparr>) w2"
        by (simp add: w3_def upd_client_def)
      then have "cinv X K w3" using leave [OF inv2] by simp
      moreover have "cl_request (client w3 c) = Some r" "cl_response (client w3 c) = Some p"
        "cl_ctx (client w3 c) = None"
        using ok2 nc by (simp_all add: client_ok_def w3_def)
      ultimately show ?thesis using fired first by simp
    qed
  next
    case (Throw e w2)
    then have "cinv X K' w2" using post by simp
    from Client_cancel_inv [OF leave [OF this], of "StdErrc operation_canceled" c]
    show ?thesis
      using Throw by (auto simp: fire_redirect_def w1_def [symmetric] split: outcome.split)
  next
    case (Crash f)
    then show ?thesis using post by (simp add: fire_redirect_def w1_def [symmetric])
  qed
qed

lemma redirected_inv:
  assumes inv: "cinv X K w" and r: "cl_request (client w c) = Some r"
    and u_def: "u = redirect_target X (the (cq_uri (creq w r))) loc"
  shows "cinv X K (upd_creq r (redirected u) w)"
proof -
  define w1 where "w1 = upd_creq r (redirected u) w"
  have core: "core X (curA w) (curN w) (curE w) (curP w) w" by (rule cinv_core [OF inv])
  have E: "cq_client (creq w r) = Some c"
    using linked_idle [OF coreD(2) [OF core], of c r] r by simp
  have q: "Request_check (creq w r) = None" "plain (creq w r)"
    using coreD(5) [OF core] E by (auto simp: requests_ok_def)
  have u: "u_scheme u \<noteq> []" "u_host u \<noteq> []"
    using q redirect_target_ok
    by (auto simp: u_def Request_check_def plain_def split: option.splits if_splits)
  have "core X (curA w) (curN w) (curE w) (curP w) w1"
    unfolding w1_def
  proof (rule core_change_request [OF core])
    show "entry w nl = Some L \<Longrightarrow> r \<notin> set (nl_queue L)" for nl L
      by (rule nowhereD [OF active_away [OF inv r]])
  qed (use u q in \<open>auto simp: redirected_def plain_def Request_check_def same_kind_def
      Request_netloc_def split: option.splits\<close>)
  moreover have "curE w1 = curE w" "curP w1 = curP w" "curA w1 = curA w" "curN w1 = curN w"
    by (auto simp: w1_def redirected_def fun_eq_iff)
  moreover have "control K w1"
    unfolding w1_def by (rule control_creq [OF cinv_control [OF inv]]) (simp add: redirected_def)
  ultimately show ?thesis by (simp add: cinv_def w1_def)
qed

lemma redirect_to_inv:
  assumes inv: "cinv X K w" and r: "cl_request (client w c) = Some r" and p: "cl_response (client w c) = Some p"
    and ctx: "cl_ctx (client w c) = None" and frame: "fst K c = None"
  shows "outcome_all D (cinv X K) (cinv X K) (redirect_to X cb c r p w)"
proof -
  define u where "u = redirect_target X (the (cq_uri (creq w r))) (rp_location p)"
  define w1 where "w1 = upd_creq r (redirected u) w"
  have inv1: "cinv X K w1" unfolding w1_def by (rule redirected_inv [OF inv r u_def])
  have c1: "cl_request (client w1 c) = Some r" "cl_response (client w1 c) = Some p"
    "cl_ctx (client w1 c) = None"
    using r p ctx by (simp_all add: w1_def)
  let ?step = "\<lambda>w. if cl_redirect_canceled (client w c)
      then Done (upd_client c (\<lambda>k. k\<lparr>cl_redirect_canceled := False\<rparr>) w) else follow_redirect X c w"
  have "outcome_all D (cinv X K) (cinv X K)
      (run [fire_redirect X cb c (RedirectEvent r p (redirect_ctx_of (creq w r))), ?step] w1)"
  proof (rule post_run_Cons, rule fire_redirect_inv [OF inv1 c1 frame])
    fix w'
    assume w': "cinv X K (upd_client c (\<lambda>k. k\<lparr>cl_redirect_canceled := False\<rparr>) w') \<and>
      (cl_redirect_canceled (client w' c) \<or> cinv X K w' \<and> cl_request (client w' c) = Some r \<and>
         cl_response (client w' c) = Some p \<and> cl_ctx (client w' c) = None)"
    show "outcome_all D (cinv X K) (cinv X K) (run [?step] w')"
      unfolding post_run_single using w' frame follow_redirect_inv [of K w' c r p] by fastforce
  qed
  then show ?thesis
    by (simp add: redirect_to_def Let_def redirect_ctx_of_def w1_def u_def)
qed

lemma counted_inv:
  assumes "cinv X K w"
  shows "cinv X K (upd_creq r (\<lambda>q. q\<lparr>cq_counter := cq_counter q + 1\<rparr>) w)"
  by (rule cinv_creq [OF assms])
    (auto simp: Request_netloc_def Request_check_def plain_def split: option.split)

lemma redirect_request_inv:
  assumes inv: "cinv X K w" and r: "cl_request (client w c) = Some r" and p: "cl_response (client w c) = Some p"
    and ctx: "cl_ctx (client w c) = None" and frame: "fst K c = None"
  shows "outcome_all D (cinv X K) (cinv X K) (redirect_request X cb c r p w)"
proof -
  define w1 where "w1 = upd_creq r (\<lambda>q. q\<lparr>cq_counter := cq_counter q + 1\<rparr>) w"
  have "cinv X K w1"
    unfolding w1_def by (rule counted_inv [OF inv])
  then have "outcome_all D (cinv X K) (cinv X K) (redirect_to X cb c r p w1)"
    "outcome_all D (cinv X K) (cinv X K) (Client_cancel X cb c (HttpErrc e) w1)" for e
    using r p ctx frame by (auto intro!: redirect_to_inv Client_cancel_inv simp: w1_def)
  then show ?thesis
    using Client_cancel_inv [OF inv] by (simp add: redirect_request_def Let_def w1_def)
qed

section \<open>Receiving\<close>

lemma forget_response_inv:
  assumes inv': "cinv X K w'" and frame: "fst K c = None"
  shows "cinv X K (upd_client c (\<lambda>k. k\<lparr>cl_response := None\<rparr>) w')"
proof (cases "c < next_clid w'")
  case True
  then show ?thesis
    using cinv_client_ok [OF inv', of c] frame
    by (intro cinv_client [OF inv']) (simp_all add: client_ok_def)
next
  case False
  then have "client w' c = new_client False" using inv' by (simp add: cinv_def control_def)
  then have "(client w' c)\<lparr>cl_response := None\<rparr> = client w' c" by (simp add: new_client_def)
  then have "upd_client c (\<lambda>k. k\<lparr>cl_response := None\<rparr>) w' = w'"
    by (simp add: upd_client_def fun_upd_idem)
  then show ?thesis using inv' by simp
qed

lemma analyze_request_inv:
  assumes inv: "cinv X K w" and r: "cl_request (client w c) = Some r" and p: "cl_response (client w c) = Some p"
    and ctx: "rp_code p \<noteq> 100 \<longrightarrow> cl_ctx (client w c) = None" and frame: "fst K c = None"
  shows "outcome_all D (cinv X K) (cinv X K) (analyze_request X cb c w)"
proof (cases "rp_code p = 100")
  case True
  have "outcome_all D (cinv X K) (cinv X K)
      (run [cfire cb (ContinueEvent r), pure_step (upd_client c (\<lambda>k. k\<lparr>cl_response := None\<rparr>))] w)"
    by (rule post_run_Cons, rule cfire_inv [OF inv]) (simp add: forget_response_inv frame)
  then show ?thesis using r p True by (simp add: analyze_request_def)
next
  case False
  then show ?thesis
    using r p ctx frame inv
    by (auto simp: analyze_request_def intro!: redirect_request_inv finish_request_inv)
qed

lemma drop_connection_inv:
  assumes inv: "cinv X K w" and lt: "c < next_clid w"
  shows "cinv X K (tcp_reset c w)"
  using cinv_client_ok [OF inv, of c] lt unfolding tcp_reset_def
  by (intro cinv_client [OF inv]) (simp_all add: client_ok_def)

lemma received_inv:
  assumes inv: "cinv X K w" and frame: "fst K c = None" and lt: "c < next_clid w"
    and r: "cl_request (client w c) = Some q"
  shows "cinv X K (upd_client c (\<lambda>k. k\<lparr>cl_response := Some p, cl_ctx := (if b then cl_ctx k else None)\<rparr>) w)"
  by (rule cinv_client [OF inv _ lt])
    (use cinv_client_ok [OF inv, of c] frame r in \<open>auto simp: client_ok_def\<close>)

text \<open>
  The loop keeps whatever its steps keep: the start of a round, a cancellation, the delivery of a part
  and the analysis of a complete response.
\<close>

lemma response_loop_post:
  assumes "I w" and frame: "fst K c = None" and "list_all context_law ps" and "c < next_clid w \<or> ps = []"
    and inv: "\<And>w. I w \<Longrightarrow> cinv X K w"
    and drop: "\<And>w. I w \<Longrightarrow> cinv X K (tcp_reset c w) \<Longrightarrow> I (tcp_reset c w)"
    and take: "\<And>w p. I w \<Longrightarrow> cinv X K (take_response c p w) \<Longrightarrow> I (take_response c p w)"
    and cancel: "\<And>w err. I w \<Longrightarrow> err \<noteq> NoError \<Longrightarrow> outcome_all C I Y (Client_cancel X cb c err w)"
    and part: "\<And>w q p. I w \<Longrightarrow> outcome_all C I Y (cfire cb (PartEvent q p NoError) w)"
    and analyze: "\<And>w q p. I w \<Longrightarrow> cl_request (client w c) = Some q \<Longrightarrow> cl_response (client w c) = Some p \<Longrightarrow>
      rp_code p \<noteq> 100 \<longrightarrow> cl_ctx (client w c) = None \<Longrightarrow> outcome_all C I Y (analyze_request X cb c w)"
  shows "outcome_all C I Y (response_loop X cb c ps w)"
  using assms(1,3,4)
proof (induction ps arbitrary: w)
  case Nil
  then show ?case by simp
next
  case (Cons p ps)
  have I: "I w" and inv0: "cinv X K w" using Cons.prems(1) inv by blast+
  have lt: "c < next_clid w" using Cons.prems(3) by simp
  show ?case
  proof (cases "cl_ctx (client w c)")
    case None
    then show ?thesis
      using drop [OF I] drop_connection_inv [OF inv0 lt] by (simp add: drop_connection_def)
  next
    case (Some q)
    then have r: "cl_request (client w c) = Some q"
      using cinv_client_ok [OF inv0, of c] by (simp add: client_ok_def)
    define w1 where "w1 = take_response c p w"
    have "cinv X K w1" unfolding w1_def take_response_def by (rule received_inv [OF inv0 frame lt r])
    then have I1: "I w1" using take [OF I] by (simp add: w1_def)
    obtain res where w1: "cl_request (client w1 c) = Some q" "cl_response (client w1 c) = Some res"
      "rp_code res = rp_code (rr_response p)" "\<not> rr_context p \<longrightarrow> cl_ctx (client w1 c) = None"
      by (simp add: w1_def take_response_def r)
    show ?thesis
    proof (cases "rr_error p \<noteq> NoError \<or> state_rank (rr_state p) \<le> state_rank StHeaders")
      case True
      then show ?thesis
        using Some I1 cancel [OF I1, of "rr_error p"] by (auto simp: w1_def Let_def)
    next
      case False
      have "outcome_all C I Y (deliver_part cb c w1)"
        using w1 I1 part [OF I1] by (simp add: deliver_part_def)
      then have step: "outcome_all C I Y
          ((if rr_state p \<noteq> StDone then deliver_part cb c else analyze_request X cb c) w1)"
        using w1 Cons.prems(2) analyze [OF I1 w1(1,2)] by (simp add: context_law_def)
      have rest: "outcome_all C I Y (response_loop X cb c ps w2)" if "I w2" for w2
      proof (cases "c < next_clid w2")
        case True
        then show ?thesis using Cons.IH [OF that] Cons.prems(2) by simp
      next
        case False
        then have "client w2 c = new_client False" using inv [OF that] by (simp add: cinv_def control_def)
        then have "cl_ctx (client w2 c) = None" "drop_connection c w2 = w2"
          by (simp_all add: new_client_def drop_connection_def tcp_reset_def upd_client_def fun_upd_idem)
        then show ?thesis using that by (cases ps) simp_all
      qed
      have "outcome_all C I Y
          (run [if rr_state p \<noteq> StDone then deliver_part cb c else analyze_request X cb c,
            response_loop X cb c ps] w1)"
        by (rule post_run_Cons, rule step) (simp only: post_run_single rest)
      then show ?thesis
        using Some False by (simp only: response_loop.simps w1_def Let_def) simp
    qed
  qed
qed

lemma response_loop_inv:
  assumes "cinv X K w" and "fst K c = None" and "list_all context_law ps" and "c < next_clid w \<or> ps = []"
  shows "outcome_all D (cinv X K) (cinv X K) (response_loop X cb c ps w)"
  by (rule response_loop_post [where I = "cinv X K", OF assms])
    (use assms(2) in \<open>simp_all add: Client_cancel_inv cfire_inv analyze_request_inv\<close>)

lemma Client_on_read_inv:
  "cinv X K w \<Longrightarrow> fst K c = None \<Longrightarrow> list_all context_law buf \<Longrightarrow> c < next_clid w \<Longrightarrow>
     outcome_all D (cinv X K) (cinv X K) (Client_on_read X cb c buf err w)"
  by (auto simp: Client_on_read_def Client_cancel_inv intro: response_loop_inv)

lemma Client_on_eof_inv:
  assumes inv: "cinv X K w" and frame: "fst K c = None" and lt: "c < next_clid w"
    and law: "rp_code (rr_response p) \<noteq> 100 \<longrightarrow> \<not> rr_context p"
  shows "outcome_all D (cinv X K) (cinv X K) (Client_on_eof X cb c p w)"
proof (cases "cl_request (client w c)")
  case None
  then show ?thesis using drop_connection_inv [OF inv lt] by (simp add: Client_on_eof_def)
next
  case (Some r)
  define w1 where "w1 = upd_client c (\<lambda>k. k\<lparr>cl_response := Some ((rr_response p)\<lparr>rp_done := True\<rparr>),
    cl_ctx := (if rr_context p then cl_ctx k else None)\<rparr>) w"
  have inv1: "cinv X K w1"
    unfolding w1_def by (rule received_inv [OF inv frame lt Some])
  have "outcome_all D (cinv X K) (cinv X K) (analyze_request X cb c w1)"
    by (rule analyze_request_inv [OF inv1]) (use Some law frame in \<open>auto simp: w1_def\<close>)
  then show ?thesis
    using Some Client_cancel_inv [OF inv1] by (simp add: Client_on_eof_def w1_def Let_def)
qed

lemma Client_on_connect_inv:
  "cinv X K w \<Longrightarrow> outcome_all D (cinv X K) (cinv X K) (Client_on_connect X cb c err w)"
  by (simp add: Client_on_connect_def Client_cancel_inv)

lemma Client_on_write_inv:
  "cinv X K w \<Longrightarrow> outcome_all D (cinv X K) (cinv X K) (Client_on_write X cb c err w)"
  by (simp add: Client_on_write_def Client_cancel_inv)

end

end
