(* ===== verification/ClientReach.thy ===== *)
theory ClientReach
  imports ClientHandlers
begin

text \<open>
  The invariant in all reachable states of the client side: the calls of the user keep it, so the
  interface \<open>client_contract\<close> holds for the user code of the model, and every event keeps it.
\<close>

section \<open>Calls of the user\<close>

lemma cinv_pool:
  assumes "cinv X K w" and "p_entries p = p_entries (pool w)"
  shows "cinv X K (w\<lparr>pool := p\<rparr>)"
proof -
  have "core X A N E P (w\<lparr>pool := p\<rparr>) = core X A N E P w" for A N E P
    by (simp add: core_def entries_ok_def entry_ok_def busy_ok_def waiting_ok_def requests_ok_def
        fresh_ok_def kind_ok_def assms(2))
  moreover have "window (w\<lparr>pool := p\<rparr>) x = window w x" for x
    by (simp add: window_def assms(2))
  ultimately show ?thesis
    using assms(1) by (simp add: cinv_def control_def)
qed

lemma Pool_idle_timeout_entries [simp]: "p_entries (Pool_idle_timeout t p) = p_entries p"
  by (simp add: Pool_idle_timeout_def)

lemma Pool_max_connections_entries [simp]: "p_entries (Pool_max_connections n p) = p_entries p"
  by (simp add: Pool_max_connections_def)

lemma make_standalone_inv:
  assumes inv: "cinv X K w"
  shows "cinv X K (make_standalone w)"
proof -
  have "client w (next_clid w) = new_client False"
    using inv by (simp add: cinv_def control_def)
  then have "client (make_standalone w) = client w"
    by (auto simp: make_standalone_def fun_eq_iff)
  moreover have "core X (curA w) (curN w) (curE w) (curP w) (make_standalone w)"
    unfolding make_standalone_def by (rule core_new_client [OF cinv_core [OF inv]])
  moreover have "control K (make_standalone w)"
    unfolding make_standalone_def by (rule control_new_client [OF cinv_control [OF inv]])
  moreover have "creq (make_standalone w) = creq w"
    by (simp add: make_standalone_def)
  ultimately show ?thesis by (simp add: cinv_def)
qed

lemma set_request_inv:
  assumes inv: "cinv X K w" and idle: "idle_request w r" and q: "plain q"
  shows "cinv X K (upd_creq r (set_public q) w)"
proof -
  have away: "entry w nl = Some L \<Longrightarrow> r \<notin> set (nl_queue L)" for nl L
    by (rule nowhereD [OF idle_away [OF inv idle]])
  have "core X (curA w) (curN w) (curE w) (curP w) (upd_creq r (set_public q) w)"
    by (rule core_change_request [OF cinv_core [OF inv] away])
      (use idle q in \<open>simp_all add: idle_request_def plain_def set_public_def\<close>)
  moreover have "curE (upd_creq r (set_public q) w) = curE w" "curP (upd_creq r (set_public q) w) = curP w"
    by (auto simp: set_public_def fun_eq_iff)
  moreover have "control K (upd_creq r (set_public q) w)"
    by (rule control_creq [OF cinv_control [OF inv]]) (simp add: set_public_def)
  ultimately show ?thesis by (simp add: cinv_def)
qed

context client_contract
begin

lemma submit_pool_inv:
  assumes inv: "cinv X K w" and idle: "idle_request w r"
  shows "outcome_all D (cinv X K) (cinv X K) (Pool_request X r w)"
proof (cases "Request_check (creq w r)")
  case None
  have "core X (curA w) (curN w) (curE w) ((curP w)(r := False)) w"
    by (rule core_mono [OF cinv_core [OF inv]]) (auto split: if_splits)
  then obtain w' where "Pool_request X r w = Done w'" "cinv X K w'"
    using Pool_request_inv [OF verify _ cinv_control [OF inv], of r] idle_away [OF inv idle] idle None
      core_plain [OF cinv_core [OF inv]]
    by (auto simp: idle_request_def acceptable_def)
  then show ?thesis by simp
qed (use inv in \<open>simp add: Pool_request_def\<close>)

lemma submit_client_done:
  assumes inv: "cinv X K w" and idle: "idle_request w r"
    and c: "c < next_clid w" "\<not> cl_pooled (client w c)"
  shows "(\<exists>e. Client_request X c r w = Throw e w) \<or> (\<exists>w'. Client_request X c r w = Done w' \<and> cinv X K w')"
proof (cases "cl_request (client w c) \<noteq> None \<or> Request_check (creq w r) \<noteq> None")
  case True
  then show ?thesis using Client_request_refused by blast
next
  case False
  have core: "core X (curA w) (curN w) (curE w) (curP w) w" by (rule cinv_core [OF inv])
  have "core X ((curA w)(c := Some r)) ((curN w)(c := Request_netloc X (creq w r)))
      ((curE w)(r := Some c)) (curP w) w"
    by (rule core_take_standalone [OF core])
      (use False idle c nowhereD [OF idle_away [OF inv idle]] in \<open>simp_all add: idle_request_def\<close>)
  then have "picked X K r c w"
    using False idle c core_plain [OF core] cinv_control [OF inv]
    by (simp add: picked_def idle_request_def acceptable_def)
  from picked_served [OF verify this] show ?thesis by auto
qed

lemma submit_client_inv:
  assumes inv: "cinv X K w" and idle: "idle_request w r"
    and c: "c < next_clid w" "\<not> cl_pooled (client w c)"
  shows "outcome_all D (cinv X K) (cinv X K) (Client_request X c r w)"
  using submit_client_done [OF assms] inv by auto

lemma submit_client_throws:
  assumes "cinv X K w" and "cpermitted w (SubmitClient c r)" and "Client_request X c r w = Throw e w'"
  shows "w' = w"
  using submit_client_done [OF assms(1), of r c] assms(2,3) by auto

lemma send_chunk_inv:
  assumes inv: "cinv X K w"
  shows "outcome_all D (cinv X K) (cinv X K) (Request_send_chunk r x w)"
    "outcome_all D (cinv X K) (cinv X K) (Request_send_final_chunk r x w)"
proof -
  have active: "cl_request (client w c) = Some r" if "cq_client (creq w r) = Some c" for c
    using core_linked [OF cinv_core [OF inv], of c r] that by simp
  have put: "cinv X K' (tcp_write c y w')" if "cinv X K' w'" "cl_request (client w' c) = Some r" for K' c y w'
    using cinv_client_ok [OF that(1), of c] request_lt [OF that(1), of c] that(2)
    unfolding tcp_write_def by (intro cinv_client [OF that(1)]) (simp_all add: client_ok_def)
  have sent: "cinv X K (upd_creq r (\<lambda>q. q\<lparr>cq_transferred := True\<rparr>) w)"
    by (rule cinv_creq [OF inv])
      (auto simp: Request_netloc_def Request_check_def plain_def split: option.split)
  show "outcome_all D (cinv X K) (cinv X K) (Request_send_chunk r x w)"
    using inv active put
    by (auto simp: Request_send_chunk_def Client_send_chunk_def split: option.split)
  show "outcome_all D (cinv X K) (cinv X K) (Request_send_final_chunk r x w)"
    using inv active put [OF sent]
    by (auto simp: Request_send_final_chunk_def Client_send_final_chunk_def split: option.split)
qed

lemma exec_ccmd_inv:
  assumes inv: "cinv X K w" and a: "cpermitted w a"
  shows "outcome_all D (cinv X K) (cinv X K) (exec_ccmd X cb a w)"
proof (cases a)
  case (SetHeaders r hs)
  then show ?thesis
    by (auto intro!: cinv_creq [OF inv] simp: Request_netloc_def Request_check_def plain_def
        split: option.split)
next
  case (SetCookies r cs)
  then show ?thesis
    by (auto intro!: cinv_creq [OF inv] simp: Request_netloc_def Request_check_def plain_def
        split: option.split)
qed (use inv a in \<open>simp_all add: submit_pool_inv submit_client_inv make_standalone_inv set_request_inv
    Request_cancel_inv Client_cancel_inv send_chunk_inv cinv_pool\<close>)

lemma exec_cif_inv: "cinv X K w \<Longrightarrow> outcome_all D (cinv X K) (cinv X K) (exec_cif X cb f w)"
  by (auto simp: exec_cif_def exec_ccmd_inv split: option.split)

end

section \<open>The interface holds for the user code of the model\<close>

lemma cuser_cb_inv:
  assumes "cx_verify_paths X"
  shows "cinv X K w \<Longrightarrow>
    outcome_all {InvalidIterator, LoopBound} (cinv X K) (cinv X K) (cuser_cb X u n ev w)"
proof (induction n arbitrary: K w ev)
  case 0
  then show ?case by simp
next
  case (Suc n)
  have contract: "client_contract X (cuser_cb X u n) {InvalidIterator, LoopBound}"
    by unfold_locales (use assms Suc.IH in auto)
  show ?case
    unfolding cuser_cb.simps
    by (rule post_run_inv [where I = "cinv X K"])
      (auto intro: client_contract.exec_cif_inv [OF contract] Suc.prems)
qed

interpretation client_user:
  client_contract "at_time X now" "cuser_cb (at_time X now) u n" "{InvalidIterator, LoopBound}"
  by unfold_locales (auto simp: at_time_def intro: cuser_cb_inv)

section \<open>Events\<close>

lemma netloc_at_time: "Request_netloc (at_time X now) q = Request_netloc X q"
  by (auto simp: at_time_def Request_netloc_def split: option.split)

lemma cinv_at_time: "cinv (at_time X now) K w = cinv X K w"
proof -
  have "core (at_time X now) A N E P w = core X A N E P w" for A N E P
    by (simp add: core_def entries_ok_def entry_ok_def waiting_ok_def kind_ok_def netloc_at_time)
  then show ?thesis by (simp add: cinv_def)
qed

abbreviation top :: frame where
  "top \<equiv> (\<lambda>_. None, {})"

lemma cinv_purge:
  assumes "cinv X top w"
  shows "cinv X top (upd_entries (purge keep) w)"
  using core_purge [OF cinv_core [OF assms]] cinv_control [OF assms]
  by (simp add: cinv_def control_def)

lemma connect_done_inv:
  assumes inv: "cinv X K w" and "cl_connecting (client w c)"
  shows "cinv X K (connect_done c err w)"
proof -
  have "c < next_clid w" using assms(2) by (intro client_lt [OF inv]) (auto simp: new_client_def)
  then show ?thesis
    using cinv_client_ok [OF inv, of c] unfolding connect_done_def
    by (intro cinv_client [OF inv]) (simp_all add: client_ok_def)
qed

lemma timer_fired_inv: "cinv X K w \<Longrightarrow> cinv X K (upd_creq r timer_fired w)"
  by (erule cinv_creq)
    (auto simp: timer_fired_def Request_netloc_def Request_check_def plain_def split: option.split)

text \<open>A request without files has no streamer.\<close>

lemma no_file: "cinv X K w \<Longrightarrow> \<not> runs (streamer_of (creq w r) k)"
  using plain_streamer [OF core_plain [OF cinv_core]] by (simp add: runs_def)

context client_contract
begin

lemma chandle_inv:
  assumes inv: "cinv X top w" and en: "cenabled w inp"
  shows "outcome_all D (cinv X top) (cinv X top) (chandle X cb inp w)"
proof (cases inp)
  case (ClientConnected c err)
  then show ?thesis using en connect_done_inv [OF inv] by (simp add: Client_on_connect_inv)
next
  case (ClientRead c buf err)
  then have "c < next_clid w" using en by (intro client_lt [OF inv]) (auto simp: new_client_def)
  then show ?thesis using ClientRead en inv by (simp add: Client_on_read_inv)
next
  case (ClientEof c p)
  then have "c < next_clid w" using en by (intro client_lt [OF inv]) (auto simp: new_client_def)
  then show ?thesis using ClientEof en inv by (simp add: Client_on_eof_inv)
next
  case (RequestTimer r)
  then show ?thesis using timer_fired_inv [OF inv] by (simp add: Request_on_timer_inv)
next
  case (FileData r k data)
  then show ?thesis using en no_file [OF inv] by simp
next
  case (FileDone r k err)
  then show ?thesis using en no_file [OF inv] by simp
qed (use inv en in \<open>simp_all add: Client_on_write_inv Pool_check_inactivity_def cinv_purge exec_ccmd_inv\<close>)

end

lemma cinv_start: "cinv X top (new_cworld m t j)"
proof -
  have "p_entries (pool (new_cworld m t j)) = []"
    by (simp add: new_cworld_def new_pool_def)
  then show ?thesis
    by (simp add: cinv_def control_def core_def entries_ok_def linked_def busy_ok_def waiting_ok_def
        requests_ok_def fresh_ok_def kind_ok_def client_ok_def)
      (simp add: new_cworld_def new_client_def default_request_def plain_def)
qed

lemma creachable_inv: "creachable X u w \<Longrightarrow> cinv X top w"
proof (induction rule: creachable.induct)
  case (start m t j)
  then show ?case by (rule cinv_start)
next
  case (returns w inp now n w')
  then show ?case
    using client_user.chandle_inv [of X now w inp u n] by (simp add: cinv_at_time)
next
  case (throws w inp now n e w')
  then show ?case
    using client_user.chandle_inv [of X now w inp u n] by (simp add: cinv_at_time)
qed

end
