(* ===== verification/ClientDemo.thy ===== *)
theory ClientDemo
  imports ClientReach
begin

text \<open>
  Concrete runs of the client side, on which the theorems on reachable states are instantiated: a
  pool with one connection for each location, requests to two hosts, one of which waits, an answer,
  a redirect, a timeout.
\<close>

section \<open>Runs\<close>

fun run_cinputs :: "cext \<Rightarrow> cuser \<Rightarrow> nat \<Rightarrow> cinput list \<Rightarrow> cworld \<Rightarrow> cworld option" where
  "run_cinputs X u n [] w = Some w"
| "run_cinputs X u n (inp # inps) w =
     (if cenabled w inp then
        (case chandle X (cuser_cb X u n) inp w of
           Done w' \<Rightarrow> run_cinputs X u n inps w'
         | Throw e w' \<Rightarrow> run_cinputs X u n inps w'
         | Crash f \<Rightarrow> None)
      else None)"

lemma run_cinputs_reachable:
  "creachable X u w \<Longrightarrow> run_cinputs (at_time X now) u n inps w = Some w' \<Longrightarrow> creachable X u w'"
proof (induction "at_time X now" u n inps w rule: run_cinputs.induct)
  case (1 u n w)
  then show ?case by simp
next
  case (2 u n inp inps w)
  then show ?case
    by (auto split: if_splits outcome.splits intro: creachable.intros)
qed

section \<open>The environment\<close>

definition demo_uri :: "string \<Rightarrow> uri" where
  "demo_uri host = \<lparr>u_scheme = ''http'', u_host = host, u_port = 0, u_rest = ''/''\<rparr>"

definition demo_cext :: cext where
  "demo_cext = \<lparr>cx_now = 5000, cx_port = (\<lambda>u. if u_port u = 0 then 80 else u_port u),
     cx_secure = (\<lambda>u. u_scheme u = ''https''), cx_parse_uri = demo_uri, cx_verify_paths = True,
     cx_default_ssl = (\<lambda>verify. 0), cx_has_header = (\<lambda>hs name. False), cx_identity = 1,
     cx_allow_gzip = (\<lambda>c. 3), cx_addr = (\<lambda>c. c)\<rparr>"

definition demo_request :: "string \<Rightarrow> crequest" where
  "demo_request host = (default_request ''GET'' True 3)\<lparr>cq_uri := Some (demo_uri host)\<rparr>"

definition answer :: "int \<Rightarrow> string \<Rightarrow> response_result" where
  "answer code loc = \<lparr>rr_state = StDone, rr_error = NoError,
     rr_response = \<lparr>rp_code = code, rp_keep = True, rp_location = loc, rp_done = False\<rparr>,
     rr_context = False\<rparr>"

definition quiet_user :: cuser where
  "quiet_user ev w = []"

text \<open>
  One connection for each location. The request 0 goes to the host \<open>a\<close>, 1 waits for its connection,
  2 goes to the host \<open>b\<close>.
\<close>

definition demo_cinputs :: "cinput list" where
  "demo_cinputs =
     [ClientCall (SetRequest 0 (demo_request ''a'')), ClientCall (SetRequest 1 (demo_request ''a'')),
      ClientCall (SetRequest 2 (demo_request ''b'')),
      ClientCall (SubmitPool 0), ClientCall (SubmitPool 1), ClientCall (SubmitPool 2),
      ClientConnected 0 NoError, ClientConnected 1 NoError,
      ClientRead 0 [answer 200 ''''] NoError,
      ClientRead 0 [answer 302 ''b''] NoError,
      ClientRead 1 [answer 200 ''''] NoError]"

definition demo_cworld :: "nat \<Rightarrow> cworld" where
  "demo_cworld k =
     the (run_cinputs demo_cext quiet_user 1 (take k demo_cinputs) (new_cworld 1 60000 ''''))"

section \<open>Evaluation\<close>

lemma demo_at_time: "at_time demo_cext 5000 = demo_cext"
  by (simp add: at_time_def demo_cext_def)

lemmas cdemo_defs = demo_cext_def demo_request_def demo_uri_def answer_def quiet_user_def
  new_cworld_def new_pool_def Pool_idle_timeout_def new_client_def no_netloc_def
  default_request_def DEFAULT_TIMEOUT_def DEFAULT_REDIRECTION_LIMIT_def

lemmas cstate_defs = upd_client_def upd_creq_def upd_entries_def set_entry_def tcp_reset_def
  tcp_connect_def tcp_write_def tcp_weak_def when_step_def Let_def cfire_def make_client_def
  make_standalone_def connect_done_def timer_fired_def set_public_def

lemmas crequest_defs = Request_netloc_def Request_check_def ensure_timer_active_def
  cleanup_after_redirect_def finished_request_def finish_and_notify_def send_form_def form_end_def
  needs_connect_def netloc_eq_def drop_connection_def clear_filters_def
  get_default_ssl_context_def use_ssl_def use_proxy_def connect_timeout_of_def start_connect_def
  open_connection_def claim_request_def allow_compression_def sent_at_once_def request_head_def
  write_request_def send_body_def Client_request_def Pool_pick_def Pool_request_def
  Pool_putback_def idle_request_def queued_def plain_def

lemmas canswer_defs = final_error_def settle_connection_def stop_form_def finish_request_def
  Client_cancel_def analyze_request_def is_redirect_def redirect_request_def redirect_to_def
  redirect_ctx_of_def redirect_target_def redirected_def sensitive_def fire_redirect_def
  see_other_def follow_redirect_def take_response_def deliver_part_def Client_on_read_def
  Client_on_connect_def Client_on_write_def context_law_def empty_response_def

lemma run_cinputs_append:
  "run_cinputs X u n (xs @ ys) w =
     (case run_cinputs X u n xs w of None \<Rightarrow> None | Some w' \<Rightarrow> run_cinputs X u n ys w')"
  by (induction X u n xs w rule: run_cinputs.induct) (auto split: outcome.split)

lemma run_cinputs_take:
  "run_cinputs X u n inps w \<noteq> None \<Longrightarrow> run_cinputs X u n (take k inps) w \<noteq> None"
  using run_cinputs_append [of X u n "take k inps" "drop k inps" w] by (auto split: option.splits)

text \<open>
  The answer to 0 comes, 1 is sent on the same connection and is redirected to \<open>b\<close>; there it waits for
  the answer to 2.
\<close>

lemma cdemo_final:
  "map_option (\<lambda>w. (cl_out (client w 0), cl_out (client w 1), Pool_size (pool w), Pool_nbusy (pool w)))
     (run_cinputs demo_cext quiet_user 1 demo_cinputs (new_cworld 1 60000 '''')) =
   Some ([ReqHead 0 (demo_uri ''a'') [] [] '''' True, ReqHead 1 (demo_uri ''a'') [] [] '''' True],
         [ReqHead 2 (demo_uri ''b'') [] [] '''' True, ReqHead 1 (demo_uri ''b'') [] [] '''' True], 2, 1)"
  by (simp add: demo_cinputs_def cdemo_defs cstate_defs crequest_defs canswer_defs Pool_size_def
      Pool_nbusy_def)

lemma cdemo_reachable: "creachable demo_cext quiet_user (demo_cworld k)"
proof -
  let ?w = "new_cworld 1 60000 ''''"
  have "run_cinputs demo_cext quiet_user 1 demo_cinputs ?w \<noteq> None"
  proof
    assume "run_cinputs demo_cext quiet_user 1 demo_cinputs ?w = None"
    from cdemo_final [unfolded this] show False by (simp only: option.map option.distinct)
  qed
  then have "run_cinputs demo_cext quiet_user 1 (take k demo_cinputs) ?w \<noteq> None"
    by (rule run_cinputs_take)
  then obtain w where w: "run_cinputs (at_time demo_cext 5000) quiet_user 1 (take k demo_cinputs) ?w = Some w"
    unfolding demo_at_time by blast
  then have "demo_cworld k = w"
    unfolding demo_cworld_def by (simp only: demo_at_time option.sel)
  then show ?thesis
    using run_cinputs_reachable [OF creachable.start w] by (simp only:)
qed

text \<open>What holds of a state of the run can be computed.\<close>

lemmas cdemo_eval = demo_cworld_def demo_cinputs_def cdemo_defs cstate_defs crequest_defs
  canswer_defs

end
