(* ===== verification/ClientDefects.thy ===== *)
theory ClientDefects
  imports ClientDemo
begin

text \<open>
  Behaviours of the client side that are not what it means to do, as concrete runs.
\<close>

section \<open>Runs\<close>

text \<open>
  A run in which the user may do what the interface allows, also what the rules for the theorems on
  reachable states exclude; events of streams and timers come when they can.
\<close>

fun possible :: "cworld \<Rightarrow> cinput \<Rightarrow> bool" where
  "possible w (ClientCall a) = True"
| "possible w inp = cenabled w inp"

fun free_run :: "cext \<Rightarrow> ccallbacks \<Rightarrow> cinput list \<Rightarrow> cworld \<Rightarrow> cworld outcome option" where
  "free_run X cb [] w = Some (Done w)"
| "free_run X cb (inp # inps) w =
     (if possible w inp then
        (case chandle X cb inp w of
           Done w' \<Rightarrow> free_run X cb inps w'
         | Throw e w' \<Rightarrow> (if inps = [] then Some (Throw e w') else free_run X cb inps w')
         | Crash f \<Rightarrow> Some (Crash f))
      else None)"

definition watching :: ccallbacks where
  "watching ev w = Done w"

text \<open>The parsed URI of a location is looked up in a table; the default ports are 80 and 443.\<close>

definition web :: "(string \<times> uri) list \<Rightarrow> cext" where
  "web table = demo_cext
     \<lparr>cx_port := \<lambda>u. if u_port u \<noteq> 0 then u_port u else if u_scheme u = ''https'' then 443 else 80,
      cx_parse_uri := \<lambda>s. the (map_of table s)\<rparr>"

definition uri_of :: "string \<Rightarrow> string \<Rightarrow> 16 word \<Rightarrow> uri" where
  "uri_of scheme host port = \<lparr>u_scheme = scheme, u_host = host, u_port = port, u_rest = ''/''\<rparr>"

definition get_request :: "uri \<Rightarrow> crequest" where
  "get_request u = (default_request ''GET'' True 3)\<lparr>cq_uri := Some u\<rparr>"

lemmas free_defs = watching_def web_def uri_of_def get_request_def

section \<open>A redirect on a connection with a TLS context of its own\<close>


section \<open>A secure request on a plain connection\<close>


section \<open>Answers that nobody has asked for\<close>


section \<open>A redirect before the request is complete\<close>

text \<open>
  A redirect that comes while the chunks of a request are being sent does not end the connection:
  the request goes out again on it in the middle of the chunks, where the server does not expect a
  new message.
\<close>

lemma redirect_inside_chunks:
  "\<exists>w. free_run (web [(''/x'', uri_of '''' '''' 0)]) watching
     [ClientCall (SetRequest 0 ((get_request (uri_of ''http'' ''a'' 0))\<lparr>cq_chunked := True\<rparr>)),
      ClientCall (SubmitPool 0), ClientConnected 0 NoError, ClientCall (ChunkRequest 0 ''body''),
      ClientRead 0 [answer 307 ''/x''] NoError]
     (new_cworld 1 60000 '''') = Some (Done w) \<and>
   cl_connected (client w 0) \<and>
   cl_out (client w 0) = [ReqHead 0 (uri_of ''http'' ''a'' 0) [] [] '''' False, ReqChunk 0 ''body'',
     ReqHead 0 (uri_of ''http'' ''a'' 0) [] [] '''' False]"
  by (simp add: free_defs cdemo_defs cstate_defs crequest_defs canswer_defs Request_send_chunk_def
      Client_send_chunk_def)

section \<open>Other findings\<close>

text \<open>
  A user who tries again when a waiting request has been canceled or is timed out changes the queue
  while the pool iterates over it.
\<close>

definition retrying :: ccallbacks where
  "retrying ev w =
     (case ev of ResponseEvent r p err \<Rightarrow> if r = 1 then Pool_request (web []) 1 w else Done w | _ \<Rightarrow> Done w)"

lemma retry_invalidates_iterator:
  "free_run (web []) retrying
     [ClientCall (SetRequest 0 (get_request (uri_of ''http'' ''a'' 0))),
      ClientCall (SetRequest 1 (get_request (uri_of ''http'' ''a'' 0))),
      ClientCall (SubmitPool 0), ClientCall (SubmitPool 1),
      RequestTimer 1] (new_cworld 1 60000 '''') = Some (Crash InvalidIterator)"
  by (simp add: free_defs cdemo_defs cstate_defs crequest_defs canswer_defs retrying_def
      Request_on_timer_def Pool_cancel_request_def erase_queued_def)

text \<open>
  An exception from the callback of a waiting request that is canceled or timed out leaves the request in
  the queue: the user has been told that it is over, and it is sent later.
\<close>

definition complaining :: ccallbacks where
  "complaining ev w =
     (case ev of ResponseEvent r p err \<Rightarrow> if err = NoError then Done w else Throw UserException w
      | _ \<Rightarrow> Done w)"

lemma timed_out_request_sent:
  "\<exists>w. free_run (web []) complaining
     [ClientCall (SetRequest 0 (get_request (uri_of ''http'' ''a'' 0))),
      ClientCall (SetRequest 1 (get_request (uri_of ''http'' ''a'' 0))),
      ClientCall (SubmitPool 0), ClientCall (SubmitPool 1), ClientConnected 0 NoError,
      RequestTimer 1, ClientRead 0 [answer 200 ''''] NoError]
     (new_cworld 1 60000 '''') = Some (Done w) \<and>
   ResponseEvent 1 empty_response (StdErrc timed_out) \<in> set (cevents w) \<and> cl_request (client w 0) = Some 1"
  by (simp add: free_defs cdemo_defs cstate_defs crequest_defs canswer_defs complaining_def
      Request_on_timer_def Pool_cancel_request_def erase_queued_def)

text \<open>
  The client of a redirected request takes over the next waiting request and is made weak after that:
  the loop may end while that request is in progress.
\<close>

lemma working_client_weak:
  "\<exists>w. free_run (web [(''b'', uri_of ''http'' ''b'' 0)]) watching
     [ClientCall (SetRequest 0 (get_request (uri_of ''http'' ''a'' 0))),
      ClientCall (SetRequest 1 (get_request (uri_of ''http'' ''a'' 0))),
      ClientCall (SubmitPool 0), ClientCall (SubmitPool 1), ClientConnected 0 NoError,
      ClientRead 0 [answer 302 ''b''] NoError]
     (new_cworld 1 60000 '''') = Some (Done w) \<and>
   cl_request (client w 0) = Some 1 \<and> cl_weak (client w 0)"
  by (simp add: free_defs cdemo_defs cstate_defs crequest_defs canswer_defs)

text \<open>The names of sensitive headers are compared with regard to case, which HTTP does not.\<close>

lemma lower_case_header_sent_on:
  "\<exists>w. free_run (web [(''evil'', uri_of ''http'' ''evil'' 0)]) watching
     [ClientCall (SetRequest 0 ((get_request (uri_of ''http'' ''a'' 0))
        \<lparr>cq_headers := [(''authorization'', ''secret'')]\<rparr>)),
      ClientCall (SubmitPool 0), ClientConnected 0 NoError, ClientRead 0 [answer 302 ''evil''] NoError]
     (new_cworld 1 60000 '''') = Some (Done w) \<and>
   cl_out (client w 1) =
     [ReqHead 0 (uri_of ''http'' ''evil'' 0) [(''authorization'', ''secret'')] [] '''' True]"
  by (simp add: free_defs cdemo_defs cstate_defs crequest_defs canswer_defs)

text \<open>
  A proxy of a kind that is not supported is refused when the request has already been bound to the
  client: the request stays bound and the client stays busy, and cancelling the request has no effect.
\<close>

lemma refused_proxy_sticks:
  "\<exists>w. free_run (web []) watching
     [ClientCall (SetRequest 0 ((get_request (uri_of ''http'' ''a'' 0))
        \<lparr>cq_proxy := Some (1, uri_of ''ftp'' ''p'' 1)\<rparr>)),
      ClientCall (SubmitPool 0), ClientCall (CancelRequest 0 (StdErrc operation_canceled))]
     (new_cworld 1 60000 '''') = Some (Done w) \<and>
   cq_client (creq w 0) = Some 0 \<and> cl_request (client w 0) = None \<and> Pool_nbusy (pool w) = 1 \<and>
   cevents w = []"
  by (simp add: free_defs cdemo_defs cstate_defs crequest_defs canswer_defs Request_cancel_def
      Pool_nbusy_def)

text \<open>
  A redirect that comes while a file of the form is being sent leaves the place of the file behind at
  the client; when the client has gone back to the pool and works for another request, the end of that
  request looks for a file to stop at that place of its own form.
\<close>

definition upload :: "crequest" where
  "upload = (get_request (uri_of ''http'' ''a'' 0))
     \<lparr>cq_form := [FormFile ''f'' (Some 5) ''text/plain'' ''x'' None], cq_streaming := True\<rparr>"

lemma form_field_left_behind:
  "free_run (web [(''b'', uri_of ''http'' ''b'' 0)]) watching
     [ClientCall (SetRequest 0 upload), ClientCall (SetRequest 1 (get_request (uri_of ''http'' ''a'' 0))),
      ClientCall (SubmitPool 0), ClientConnected 0 NoError, FileData 0 0 ''half'',
      ClientRead 0 [answer 307 ''b''] NoError, ClientCall (SubmitPool 1), ClientRead 0 [answer 200 ''''] NoError]
     (new_cworld 1 60000 '''') = Some (Crash OutOfRange)"
  by (simp add: free_defs cdemo_defs cstate_defs crequest_defs canswer_defs upload_def
      ClientOutput_write_def streamer_of_def runs_def set_item_def)

text \<open>The input of a file has been moved away when a redirected request starts it again.\<close>

lemma redirected_file_without_input:
  "\<exists>w. free_run (web [(''b'', uri_of ''http'' ''b'' 0)]) watching
     [ClientCall (SetRequest 0 upload), ClientCall (SubmitPool 0), ClientConnected 0 NoError,
      ClientRead 0 [answer 307 ''b''] NoError]
     (new_cworld 1 60000 '''') = Some (Done w) \<and>
   streamer_of (creq w 0) 0 = Some (None, 1, True)"
  by (simp add: free_defs cdemo_defs cstate_defs crequest_defs canswer_defs upload_def streamer_of_def set_item_def)

text \<open>
  The pool looks a request up before the client gives its URI the default scheme; the default port
  depends on the scheme, so the client is used for another location than the pool has it for.
\<close>

lemma no_scheme_asserts:
  "free_run ((web [])\<lparr>cx_port := \<lambda>u. if u_scheme u = '''' then 0 else 80\<rparr>) watching
     [ClientCall (SetRequest 0 (get_request (uri_of '''' ''a'' 0))), ClientCall (SubmitPool 0),
      ClientConnected 0 NoError, ClientRead 0 [answer 200 ''''] NoError]
     (new_cworld 1 60000 '''') = Some (Crash AssertFailed)"
  by (simp add: free_defs cdemo_defs cstate_defs crequest_defs canswer_defs)

end
