(* ===== verification/PoolSpec.thy ===== *)
theory PoolSpec
  imports ClientReach
begin

text \<open>
  The abstract specification of the pool: for each location a number of idle and of busy connections
  and the requests that wait, in order. \<^verbatim>\<open>Pool::request\<close>, \<^verbatim>\<open>Pool::putback\<close> and \<^verbatim>\<open>Pool::cancel_request\<close>
  refine its operations.
\<close>

section \<open>The specification\<close>

record slot =
  sl_idle :: nat
  sl_busy :: nat
  sl_waiting :: "crid list"

text \<open>A request is served by an idle or a new connection, or it waits.\<close>

definition submit :: "nat \<Rightarrow> crid \<Rightarrow> slot \<Rightarrow> bool \<times> slot" where
  "submit limit r s =
     (if 0 < sl_idle s then (True, s\<lparr>sl_idle := sl_idle s - 1, sl_busy := sl_busy s + 1\<rparr>)
      else if sl_busy s < limit \<or> sl_busy s = 0 then (True, s\<lparr>sl_busy := sl_busy s + 1\<rparr>)
      else (False, s\<lparr>sl_waiting := sl_waiting s @ [r]\<rparr>))"

text \<open>A connection that is done serves the request that has waited longest, or becomes idle.\<close>

definition release :: "slot \<Rightarrow> crid option \<times> slot" where
  "release s =
     (case sl_waiting s of
        r # rs \<Rightarrow> (Some r, s\<lparr>sl_waiting := rs\<rparr>)
      | [] \<Rightarrow> (None, s\<lparr>sl_idle := sl_idle s + 1, sl_busy := sl_busy s - 1\<rparr>))"

definition withdraw :: "crid \<Rightarrow> slot \<Rightarrow> slot" where
  "withdraw r s = s\<lparr>sl_waiting := remove1 r (sl_waiting s)\<rparr>"

text \<open>No request waits while a connection is idle, and the connections are limited.\<close>

definition slot_ok :: "nat \<Rightarrow> slot \<Rightarrow> bool" where
  "slot_ok limit s \<longleftrightarrow>
     (sl_waiting s \<noteq> [] \<longrightarrow> sl_idle s = 0 \<and> 0 < sl_busy s) \<and> sl_idle s + sl_busy s \<le> max 1 limit"

lemma slot_ok_submit: "slot_ok limit s \<Longrightarrow> slot_ok limit (snd (submit limit r s))"
  by (auto simp: slot_ok_def submit_def)

lemma slot_ok_release: "slot_ok limit s \<Longrightarrow> 0 < sl_busy s \<Longrightarrow> slot_ok limit (snd (release s))"
  by (auto simp: slot_ok_def release_def split: list.split)

lemma slot_ok_withdraw: "slot_ok limit s \<Longrightarrow> slot_ok limit (withdraw r s)"
  by (auto simp: slot_ok_def withdraw_def)

section \<open>The abstraction\<close>

definition slot_of :: "netloc_list option \<Rightarrow> slot" where
  "slot_of e =
     (case e of
        None \<Rightarrow> \<lparr>sl_idle = 0, sl_busy = 0, sl_waiting = []\<rparr>
      | Some L \<Rightarrow> \<lparr>sl_idle = length (nl_free L), sl_busy = length (nl_busy L), sl_waiting = nl_queue L\<rparr>)"

definition slots :: "cworld \<Rightarrow> netloc \<Rightarrow> slot" where
  "slots w nl = slot_of (entry w nl)"

lemma slots_cong: "pool w' = pool w \<Longrightarrow> slots w' = slots w"
  by (simp add: slots_def fun_eq_iff)

lemma slots_set_entry: "slots (set_entry nl L w) = (slots w)(nl := slot_of (Some L))"
  by (simp add: slots_def fun_eq_iff)

section \<open>Requests to the pool\<close>

lemma make_client_simps [simp]:
  "pool (snd (make_client w)) = pool w" "creq (snd (make_client w)) = creq w"
  "cevents (snd (make_client w)) = cevents w" "fst (make_client w) = next_clid w"
  by (simp_all add: make_client_def)

lemma Pool_pick_slots:
  assumes core: "core X A N E P w"
    and fresh: "\<And>nl L. entry w nl = Some L \<Longrightarrow> next_clid w \<notin> set (nl_busy L)"
  shows "slots (snd (Pool_pick X r w)) =
      (slots w)(Request_netloc X (creq w r) := snd (submit (unat (p_max_connections (pool w))) r
        (slots w (Request_netloc X (creq w r)))))" (is "_ = (slots w)(?nl := ?s)")
    and "fst (Pool_pick X r w) \<noteq> None \<longleftrightarrow> fst (submit (unat (p_max_connections (pool w))) r
        (slots w (Request_netloc X (creq w r))))"
    and "cevents (snd (Pool_pick X r w)) = cevents w"
proof -
  have "slots (snd (Pool_pick X r w)) = (slots w)(?nl := ?s) \<and>
    (fst (Pool_pick X r w) \<noteq> None \<longleftrightarrow> fst (submit (unat (p_max_connections (pool w))) r (slots w ?nl))) \<and>
    cevents (snd (Pool_pick X r w)) = cevents w"
  proof (cases "entry w ?nl")
    case None
    then show ?thesis
      by (simp add: Pool_pick_def Let_def split_beta slots_set_entry slots_cong [of "snd (make_client w)" w]
          submit_def slots_def [of w ?nl] slot_of_def)
  next
    case (Some L)
    then have L: "entry_ok X A N E w ?nl L" by (rule core_entry [OF core])
    have s: "slots w ?nl = slot_of (Some L)" using Some by (simp add: slots_def)
    show ?thesis
    proof (cases "nl_free L")
      case (Cons f fs)
      define d where "d = first_client X f fs"
      have d: "d \<in> set (nl_free L)"
        using first_client_mem [of X f fs] Cons by (simp add: d_def)
      then have "d \<notin> set (nl_busy L)" using L by (auto simp: entry_ok_def)
      moreover have "length (remove1 d (f # fs)) = length fs"
        using d Cons by (simp only: length_remove1) simp
      ultimately show ?thesis
        using Some Cons
        by (simp add: Pool_pick_def Let_def slots_set_entry s submit_def slot_of_def d_def [symmetric]
            del: remove1.simps)
    next
      case Nil
      have "nl_busy L \<noteq> []" using L Nil by (simp add: entry_ok_def)
      then show ?thesis
        using Some Nil fresh [OF Some]
        by (auto simp: Pool_pick_def Let_def split_beta slots_set_entry s submit_def slot_of_def
            slots_cong [of "snd (make_client w)" w] slots_cong [of "upd_creq _ _ _"])
    qed
  qed
  then show "slots (snd (Pool_pick X r w)) = (slots w)(?nl := ?s)"
    "fst (Pool_pick X r w) \<noteq> None \<longleftrightarrow> fst (submit (unat (p_max_connections (pool w))) r (slots w ?nl))"
    "cevents (snd (Pool_pick X r w)) = cevents w" by simp_all
qed

lemma cinv_waits_not: "cinv X K w \<Longrightarrow> idle_request w r \<Longrightarrow>
    core X (curA w) (curN w) (curE w) ((curP w)(r := False)) w"
  by (rule core_mono [OF cinv_core]) (auto split: if_splits)

lemma idle_acceptable: "cinv X K w \<Longrightarrow> Request_check (creq w r) = None \<Longrightarrow> acceptable (creq w r)"
  using core_plain [OF cinv_core] by (simp add: acceptable_def)

lemma fresh_not_busy:
  assumes "core X A N E P w" and "entry w nl = Some L"
  shows "next_clid w \<notin> set (nl_busy L)"
  using coreD(6) [OF assms(1)] core_entry [OF assms] by (auto simp: fresh_ok_def entry_ok_def)

lemma Pool_request_slots:
  assumes X: "cx_verify_paths X" and inv: "cinv X K w" and idle: "idle_request w r"
    and check: "Request_check (creq w r) = None"
  shows "\<exists>w'. Pool_request X r w = Done w' \<and> cinv X K w' \<and> cevents w' = cevents w \<and>
    slots w' = (slots w)(Request_netloc X (creq w r) := snd (submit (unat (p_max_connections (pool w))) r
      (slots w (Request_netloc X (creq w r))))) \<and>
    (cq_client (creq w' r) \<noteq> None \<longleftrightarrow> fst (submit (unat (p_max_connections (pool w))) r
      (slots w (Request_netloc X (creq w r)))))"
proof -
  let ?w = "upd_creq r (\<lambda>q. q\<lparr>cq_pool := True\<rparr>) w"
  obtain cc w2 where p: "Pool_pick X r ?w = (cc, w2)"
    by fastforce
  have r: "cq_client (creq w r) = None" using idle by (simp add: idle_request_def)
  have core: "core X (curA w) (curN w) (curE w) ((curP w)(r := False)) w"
    by (rule cinv_waits_not [OF inv idle])
  note pick = Pool_pick_idle [OF core cinv_control [OF inv] r idle_acceptable [OF inv check]
      idle_away [OF inv idle], unfolded p]
  have nl: "Request_netloc X (creq ?w r) = Request_netloc X (creq w r)"
    by (auto simp: Request_netloc_def split: option.split)
  have core': "core X (curA w) (curN w) (curE w) ((curP w)(r := False)) ?w"
    by (rule core_cong [OF core])
      (auto simp: Request_netloc_def Request_check_def plain_def split: option.split)
  have "\<And>nl L. entry ?w nl = Some L \<Longrightarrow> next_clid ?w \<notin> set (nl_busy L)"
    by (rule fresh_not_busy [OF core'])
  note s = Pool_pick_slots [OF core' this, where r = r, unfolded nl p slots_cong [of ?w w, OF upd_creq_simps(3)]]
  show ?thesis
  proof (cases cc)
    case None
    then have "Pool_request X r w = Done w2" using p check by (simp add: Pool_request_def)
    moreover have "cq_client (creq w2 r) = None"
      using p None r by (auto simp: Pool_pick_def Let_def split_beta ensure_timer_active_def
          split: option.splits list.splits if_splits)
    ultimately show ?thesis using None pick s by simp
  next
    case (Some c)
    then have "picked X K r c w2" using pick by simp
    from picked_served [OF X this] obtain w' where w': "Client_request X c r w2 = Done w'"
      "cinv X K w'" "cevents w' = cevents w2" "cq_client (creq w' r) = Some c" "served X c r w2 w'"
      by blast
    have "Pool_request X r w = Done w'"
      using p check Some w'(1) by (simp add: Pool_request_def)
    then show ?thesis
      using w' s Some slots_cong [of w' w2] servedD(1) [OF w'(5)] by simp
  qed
qed

section \<open>Connections that are done\<close>

text \<open>What the client does next: nothing, or the request that has waited longest.\<close>

definition goes_on_with :: "clid \<Rightarrow> crid option \<Rightarrow> cworld \<Rightarrow> bool" where
  "goes_on_with c next_one w \<longleftrightarrow> cl_request (client w c) = next_one \<and>
     (\<forall>q. next_one = Some q \<longrightarrow> cq_client (creq w q) = Some c)"

lemma Pool_putback_slots:
  assumes X: "cx_verify_paths X"
    and core: "core X ((curA w)(c := Some r)) (curN w) ((curE w)(r := Some c)) (curP w) w"
    and control: "control K w" and c: "cl_request (client w c) = None" "cl_pooled (client w c)"
    and run: "Pool_putback X c w = Done w'"
  shows "slots w' = (slots w)(cl_netloc (client w c) := snd (release (slots w (cl_netloc (client w c)))))"
    and "goes_on_with c (fst (release (slots w (cl_netloc (client w c))))) w'"
    and "fst (release (slots w (cl_netloc (client w c)))) = None \<longrightarrow> client w' c = client w c"
proof -
  let ?nl = "cl_netloc (client w c)"
  obtain L where L: "entry w ?nl = Some L" "c \<in> set (nl_busy L)"
    using coreD(3) [OF core, unfolded busy_ok_def, rule_format, of c r] c(2) by auto
  have ok: "entry_ok X ((curA w)(c := Some r)) (curN w) ((curE w)(r := Some c)) w ?nl L"
    by (rule core_entry [OF core L(1)])
  have s: "slots w ?nl = slot_of (Some L)" using L by (simp add: slots_def)
  have "slots w' = (slots w)(?nl := snd (release (slots w ?nl))) \<and>
      goes_on_with c (fst (release (slots w ?nl))) w' \<and>
      (fst (release (slots w ?nl)) = None \<longrightarrow> client w' c = client w c)"
  proof (cases "nl_queue L")
    case Nil
    have "\<forall>d\<in>set (nl_free L). ((curA w)(c := Some r)) d = None"
      using ok unfolding entry_ok_def by blast
    then have "c \<notin> set (nl_free L)" by force
    then show ?thesis
      using run L Nil c
      by (auto simp: Pool_putback_def slots_set_entry s release_def slot_of_def goes_on_with_def
          length_remove1)
  next
    case (Cons q qs)
    define w1 where "w1 = set_entry ?nl (L\<lparr>nl_queue := qs, nl_version := Suc (nl_version L)\<rparr>) w"
    have "q \<noteq> r" using core_queue_unique [OF core L(1), of q] Cons by auto
    then have q: "cq_client (creq w q) = None" "Request_check (creq w q) = None"
      using core_queue_unique [OF core L(1), of q] Cons by simp_all
    have "\<exists>w'. Client_request X c q w1 = Done w' \<and> served X c q w1 w'"
      by (rule Client_request_served [OF X])
        (use c q control core_plain [OF core] in
          \<open>simp_all add: w1_def acceptable_def control_def client_ok_def\<close>)
    moreover have "Client_request X c q w1 = Done w'"
      using run L(1) Cons by (simp add: Pool_putback_def Let_def w1_def)
    ultimately have served: "served X c q w1 w'" by simp
    then have "cl_request (client w' c) = Some q"
      unfolding served_def by (elim conjE)
    note w' = this servedD(1,8) [OF served]
    have "slots w1 = (slots w)(?nl := snd (release (slots w ?nl)))"
      using Cons by (simp add: w1_def slots_set_entry s release_def slot_of_def)
    then show ?thesis
      using Cons slots_cong [OF w'(2)] w'(1,3) by (simp add: s release_def slot_of_def goes_on_with_def)
  qed
  then show "slots w' = (slots w)(?nl := snd (release (slots w ?nl)))"
    "goes_on_with c (fst (release (slots w ?nl))) w'"
    "fst (release (slots w ?nl)) = None \<longrightarrow> client w' c = client w c"
    by simp_all
qed

end
