(* ===== verification/RequestEnds.thy ===== *)
theory RequestEnds
  imports PoolSpec ClientDemo
begin

text \<open>
  The end of a request in full: what happens to the connection, the pool and the request before the
  user is told, and the two callbacks that tell the user.
\<close>

section \<open>Before the callbacks\<close>

text \<open>
  The state in which the user is told of the end: the request is idle again, with its timer stopped
  and its count of redirects reset; and its connection is back in the pool, or works for the next
  request already.
\<close>

definition request_over :: "cext \<Rightarrow> clid \<Rightarrow> crid \<Rightarrow> bool \<Rightarrow> cworld \<Rightarrow> cworld \<Rightarrow> bool" where
  "request_over X c r kept w w' \<longleftrightarrow>
     cevents w' = cevents w \<and> idle_request w' r \<and> creq w' r = finished_request (creq w r) \<and>
     (let nl = cl_netloc (client w c);
          (next_one, s) = release (slots w nl)
      in if cl_pooled (client w c) then
           slots w' = (slots w)(nl := s) \<and> goes_on_with c next_one w' \<and>
           (next_one = None \<longrightarrow> cl_connected (client w' c) = (cl_connected (client w c) \<and> kept) \<and>
              cl_last_activity (client w' c) = cx_now X)
         else slots w' = slots w \<and> goes_on_with c None w' \<and>
           cl_connected (client w' c) = (cl_connected (client w c) \<and> kept))"

lemma finished_request_idle [simp]:
  "cq_client (finished_request q) = None" "\<not> cq_pool (finished_request q)"
  "cq_counter (finished_request q) = 0" "\<not> cq_transferred (finished_request q)"
  "\<not> timer_active (finished_request q)"
  by (auto simp: finished_request_def cleanup_after_redirect_def timer_active_def split: option.split)

lemma queued_cong: "pool w' = pool w \<Longrightarrow> queued w' r = queued w r"
  by (simp add: queued_def)

lemma nowhere_queued: "distinct (map fst (p_entries (pool w))) \<Longrightarrow> nowhere w r \<Longrightarrow> \<not> queued w r"
  by (auto simp: queued_iff nowhere_def)

lemma nowhere_release:
  assumes "nowhere w r" and "release (slots w nl) = (Some q, s)"
  shows "q \<noteq> r"
proof (cases "entry w nl")
  case (Some L)
  then have "r \<notin> set (nl_queue L)" by (rule nowhereD [OF assms(1)])
  then show ?thesis
    using assms(2) Some by (auto simp: slots_def slot_of_def release_def split: list.splits)
qed (use assms(2) in \<open>simp add: slots_def slot_of_def release_def\<close>)

lemma finish_request_over:
  assumes X: "cx_verify_paths X" and inv: "cinv X K w" and r: "cl_request (client w c) = Some r"
    and ctx: "cl_ctx (client w c) = None" and frame: "fst K c = None \<or> cl_redirect_canceled (client w c)"
    and res: "err \<noteq> NoError \<or> cl_response (client w c) \<noteq> None"
    and e: "e = final_error err (creq w r)" and p: "p = cl_response (client w c)"
  shows "\<exists>w'. finish_request X cb c err w =
      run [cfire cb (PartEvent r (case p of None \<Rightarrow> empty_response | Some p \<Rightarrow> p) e),
           cfire cb (ResponseEvent r (case p of None \<Rightarrow> empty_response | Some p \<Rightarrow> p) e)] w' \<and>
    request_over X c r (keeps_connection e p (creq w r)) w w'"
proof -
  define kept where "kept = keeps_connection e p (creq w r)"
  obtain w1 where run: "finish_request X cb c err w =
      run [when_step (\<lambda>w. cl_pooled (client w c)) (Pool_putback X c), finish_and_notify cb r p e] w1"
    and up: "gave_up X K c r kept w w1"
    using finish_request_gave_up [OF inv r ctx frame res e p] kept_def by blast
  note up = up [unfolded gave_up_def]
  have core1: "core X ((curA w1)(c := Some r)) (curN w1) ((curE w1)(r := Some c)) (curP w1) w1"
    and control1: "control K w1" and none: "cl_request (client w1 c) = None"
    using up by blast+
  have w1: "creq w1 = creq w" "slots w1 = slots w" "cevents w1 = cevents w"
    "cl_pooled (client w1 c) = cl_pooled (client w c)" "cl_netloc (client w1 c) = cl_netloc (client w c)"
    "cl_last_activity (client w1 c) = cx_now X"
    "cl_connected (client w1 c) = (cl_connected (client w c) \<and> kept)"
    using up slots_cong [of w1 w] by blast+
  obtain n t where rel: "release (slots w (curN w c)) = (n, t)" by fastforce
  have n: "n \<noteq> Some r" using nowhere_release [OF active_away [OF inv r]] rel by blast
  show ?thesis
  proof (cases "cl_pooled (client w1 c)")
    case True
    from Pool_putback_inv [OF X core1 control1 none True] obtain w2 where
      w2: "Pool_putback X c w1 = Done w2" "creq w2 r = creq w1 r" "cevents w2 = cevents w1" "nowhere w2 r"
        "core X (curA w2) (curN w2) ((curE w2)(r := None)) ((curP w2)(r := False)) w2"
      by blast
    note s = Pool_putback_slots [OF X core1 control1 none True w2(1), unfolded w1(2,5) rel fst_conv snd_conv]
    define w3 where "w3 = upd_creq r finished_request w2"
    have "idle_request w3 r"
      using nowhere_queued [OF core_distinct [OF w2(5)] w2(4)] queued_cong [of w3 w2]
      by (simp add: w3_def idle_request_def)
    moreover have "goes_on_with c n w3"
      using s(2) n by (auto simp: w3_def goes_on_with_def)
    moreover have "slots w3 = (slots w)(curN w c := t)"
      using s(1) slots_cong [of w3 w2] by (simp add: w3_def)
    moreover have "cevents w3 = cevents w" "creq w3 r = finished_request (creq w r)"
      using w2(2,3) w1 by (simp_all add: w3_def)
    moreover have "n = None \<longrightarrow> client w3 c = client w1 c"
      using s(3) by (simp add: w3_def)
    ultimately have "request_over X c r kept w w3"
      using True w1 by (simp add: request_over_def rel)
    moreover have "finish_request X cb c err w = run [cfire cb (PartEvent r (case p of None \<Rightarrow>
        empty_response | Some p \<Rightarrow> p) e), cfire cb (ResponseEvent r (case p of None \<Rightarrow>
        empty_response | Some p \<Rightarrow> p) e)] w3"
      using True w2(1) by (auto simp: run finish_and_notify_def w3_def split: outcome.split)
    ultimately show ?thesis unfolding kept_def by blast
  next
    case False
    define w3 where "w3 = upd_creq r finished_request w1"
    have pool: "pool w3 = pool w" using up by (simp add: w3_def)
    have "idle_request w3 r"
      using nowhere_queued [OF core_distinct [OF cinv_core [OF inv]] active_away [OF inv r]]
        queued_cong [OF pool] by (simp add: idle_request_def w3_def)
    then have "request_over X c r kept w w3"
      using False none w1 slots_cong [OF pool]
      by (simp add: request_over_def rel goes_on_with_def w3_def)
    moreover have "finish_request X cb c err w = run [cfire cb (PartEvent r (case p of None \<Rightarrow>
        empty_response | Some p \<Rightarrow> p) e), cfire cb (ResponseEvent r (case p of None \<Rightarrow>
        empty_response | Some p \<Rightarrow> p) e)] w3"
      using False by (auto simp: run finish_and_notify_def w3_def split: outcome.split)
    ultimately show ?thesis unfolding kept_def by blast
  qed
qed

section \<open>Cancellation and timeout\<close>

lemma request_over_cong:
  assumes "request_over X c r kept w1 w'"
    and "pool w1 = pool w" "creq w1 = creq w" "cevents w1 = cevents w"
    and "cl_netloc (client w1 c) = cl_netloc (client w c)"
      "cl_pooled (client w1 c) = cl_pooled (client w c)"
      "cl_connected (client w1 c) = cl_connected (client w c)"
  shows "request_over X c r kept w w'"
  using assms(1) unfolding request_over_def assms(3-7) slots_cong [OF assms(2)] .

lemma Client_cancel_over:
  assumes X: "cx_verify_paths X" and inv: "cinv X top w" and r: "cl_request (client w c) = Some r"
    and err: "err \<noteq> NoError"
    and p: "p = (case cl_response (client w c) of None \<Rightarrow> empty_response | Some p \<Rightarrow> p)"
  shows "\<exists>w'. Client_cancel X cb c err w =
      run [cfire cb (PartEvent r p err), cfire cb (ResponseEvent r p err)] w' \<and>
    request_over X c r False w w'"
proof -
  obtain w1 where w1: "Client_cancel X cb c err w = finish_request X cb c err w1" "cinv X top w1"
    "cl_request (client w1 c) = Some r" "cl_ctx (client w1 c) = None" "creq w1 = creq w" "pool w1 = pool w"
    "cevents w1 = cevents w" "cl_response (client w1 c) = cl_response (client w c)"
    "cl_netloc (client w1 c) = cl_netloc (client w c)" "cl_pooled (client w1 c) = cl_pooled (client w c)"
    "cl_connected (client w1 c) = cl_connected (client w c)"
    using Client_cancel_starts [OF inv r err] by blast
  have e: "err = final_error err (creq w1 r)" using err by (simp add: final_error_def)
  have kept: "keeps_connection err q z = False" for q z
    using err by (simp add: keeps_connection_def)
  have "\<exists>w'. finish_request X cb c err w1 =
      run [cfire cb (PartEvent r p err), cfire cb (ResponseEvent r p err)] w' \<and>
      request_over X c r False w1 w'"
    unfolding p using finish_request_over [OF X w1(2-4) _ _ e refl, of cb] err
    by (simp add: w1(8) kept)
  then obtain w' where w': "finish_request X cb c err w1 =
      run [cfire cb (PartEvent r p err), cfire cb (ResponseEvent r p err)] w'"
    "request_over X c r False w1 w'"
    by blast
  have "request_over X c r False w w'"
    by (rule request_over_cong [OF w'(2)]) (simp_all add: w1)
  then show ?thesis using w'(1) w1(1) by auto
qed

text \<open>
  C24: Whenever a request that a client works on is canceled, by the user or by its timer, it ends at
  once: its connection is closed, the request is idle again with its timer stopped, the client is
  back in the pool or works for the request that has waited longest; and only after all that the user
  is told, by the partial event and then the response event, with the error and never more than once.
\<close>

theorem cancel_ends_request:
  assumes "creachable X u w" and "cl_request (client w c) = Some r" and "err \<noteq> NoError"
  shows "\<exists>w1 p. Client_cancel (at_time X now) cb c err w =
      run [cfire cb (PartEvent r p err), cfire cb (ResponseEvent r p err)] w1 \<and>
    request_over (at_time X now) c r False w w1"
proof -
  have "cinv (at_time X now) top w" using creachable_inv [OF assms(1)] by (simp add: cinv_at_time)
  then show ?thesis
    using Client_cancel_over [of "at_time X now" w c r err _ cb] assms(2,3) by (auto simp: at_time_def)
qed

theorem cancel_ends_request_witness:
  "\<exists>w1 p. Client_cancel (at_time demo_cext 0) (\<lambda>ev. Done) 0 (StdErrc timed_out) (demo_cworld 6) =
      run [cfire (\<lambda>ev. Done) (PartEvent 0 p (StdErrc timed_out)),
           cfire (\<lambda>ev. Done) (ResponseEvent 0 p (StdErrc timed_out))] w1 \<and>
    request_over (at_time demo_cext 0) 0 0 False (demo_cworld 6) w1"
  by (rule cancel_ends_request [OF cdemo_reachable]) (simp_all add: cdemo_eval)

section \<open>The final response\<close>

text \<open>A response that ends the request: complete, without error, and not a redirect to be followed.\<close>

definition final_response :: "crequest \<Rightarrow> response_result \<Rightarrow> bool" where
  "final_response q p \<longleftrightarrow>
     rr_state p = StDone \<and> rr_error p = NoError \<and> \<not> rr_context p \<and> rp_code (rr_response p) \<noteq> 100 \<and>
     \<not> (cq_follow q \<and> is_redirect (rp_code (rr_response p)))"

lemma Client_read_over:
  assumes X: "cx_verify_paths X" and inv: "cinv X top w" and r: "cl_ctx (client w c) = Some r"
    and p: "final_response (creq w r) p"
    and e: "e = final_error NoError (creq w r)" and q: "q = (rr_response p)\<lparr>rp_done := True\<rparr>"
  shows "\<exists>w'. Client_on_read X cb c [p] NoError w =
      run [cfire cb (PartEvent r q e), cfire cb (ResponseEvent r q e)] w' \<and>
    request_over X c r (keeps_connection e (Some q) (creq w r)) w w'"
proof -
  define w1 where "w1 = take_response c p w"
  have req: "cl_request (client w c) = Some r"
    using cinv_client_ok [OF inv, of c] r by (simp add: client_ok_def)
  have w1: "client w1 c = (client w c)\<lparr>cl_response := Some q, cl_ctx := None\<rparr>"
    "creq w1 = creq w" "pool w1 = pool w" "cevents w1 = cevents w"
    using p by (simp_all add: w1_def take_response_def final_response_def q)
  have inv1: "cinv X top w1"
    unfolding w1_def take_response_def
    by (rule cinv_client [OF inv])
      (use cinv_client_ok [OF inv, of c] request_lt [OF inv, of c] req p in
        \<open>simp_all add: client_ok_def final_response_def\<close>)
  have w1': "cl_request (client w1 c) = Some r" "cl_ctx (client w1 c) = None"
    "cl_response (client w1 c) = Some q"
    using req by (simp_all add: w1)
  have run: "Client_on_read X cb c [p] NoError w = finish_request X cb c NoError w1"
  proof -
    have "analyze_request X cb c w1 = finish_request X cb c NoError w1"
      using w1' p by (auto simp: analyze_request_def final_response_def q w1)
    then show ?thesis
      using p r by (simp add: Client_on_read_def final_response_def w1_def split: outcome.split)
  qed
  have e1: "e = final_error NoError (creq w1 r)" by (simp add: e w1)
  obtain w' where "finish_request X cb c NoError w1 =
      run [cfire cb (PartEvent r q e), cfire cb (ResponseEvent r q e)] w'"
    "request_over X c r (keeps_connection e (Some q) (creq w r)) w1 w'"
    using finish_request_over [OF X inv1 w1'(1,2) _ _ e1 refl, of cb] w1'(3) by (auto simp: w1(2))
  moreover from this(2) have "request_over X c r (keeps_connection e (Some q) (creq w r)) w w'"
    by (rule request_over_cong) (simp_all add: w1)
  ultimately show ?thesis using run by auto
qed

text \<open>
  C23: When the final response of a request has arrived, the request ends: with no error if it has been
  sent in full, else with \<open>transfer_aborted\<close>. The connection stays open exactly if there is no error and
  both the response and the request keep it alive; the client goes back to the pool or works for the
  request that has waited longest; then the user is told, by the partial event and the response event.
\<close>

theorem response_ends_request:
  assumes "creachable X u w" and "cl_ctx (client w c) = Some r" and "final_response (creq w r) p"
  shows "\<exists>w1 e. Client_on_read (at_time X now) cb c [p] NoError w =
      run [cfire cb (PartEvent r ((rr_response p)\<lparr>rp_done := True\<rparr>) e),
           cfire cb (ResponseEvent r ((rr_response p)\<lparr>rp_done := True\<rparr>) e)] w1 \<and>
    e = (if cq_transferred (creq w r) then NoError else HttpErrc transfer_aborted) \<and>
    request_over (at_time X now) c r
      (e = NoError \<and> rp_keep (rr_response p) \<and> cq_keep (creq w r)) w w1"
proof -
  have inv: "cinv (at_time X now) top w"
    using creachable_inv [OF assms(1)] by (simp add: cinv_at_time)
  have "cx_verify_paths (at_time X now)" by (simp add: at_time_def)
  from Client_read_over [OF this inv assms(2,3) refl refl, of cb] obtain w1 where
    w1: "Client_on_read (at_time X now) cb c [p] NoError w =
      run [cfire cb (PartEvent r ((rr_response p)\<lparr>rp_done := True\<rparr>) (final_error NoError (creq w r))),
           cfire cb (ResponseEvent r ((rr_response p)\<lparr>rp_done := True\<rparr>) (final_error NoError (creq w r)))] w1"
    "request_over (at_time X now) c r (keeps_connection (final_error NoError (creq w r))
      (Some ((rr_response p)\<lparr>rp_done := True\<rparr>)) (creq w r)) w w1"
    by blast
  show ?thesis
    by (intro exI conjI, rule w1(1), simp add: final_error_def)
      (use w1(2) in \<open>simp add: keeps_connection_def\<close>)
qed

theorem response_ends_request_witness:
  "\<exists>w1 e. Client_on_read (at_time demo_cext 0) (\<lambda>ev. Done) 0 [answer 200 ''''] NoError (demo_cworld 8) =
      run [cfire (\<lambda>ev. Done) (PartEvent 0 ((rr_response (answer 200 ''''))\<lparr>rp_done := True\<rparr>) e),
           cfire (\<lambda>ev. Done) (ResponseEvent 0 ((rr_response (answer 200 ''''))\<lparr>rp_done := True\<rparr>) e)] w1 \<and>
    e = (if cq_transferred (creq (demo_cworld 8) 0) then NoError else HttpErrc transfer_aborted) \<and>
    request_over (at_time demo_cext 0) 0 0
      (e = NoError \<and> rp_keep (rr_response (answer 200 '''')) \<and> cq_keep (creq (demo_cworld 8) 0))
      (demo_cworld 8) w1"
  by (rule response_ends_request [OF cdemo_reachable]) (simp_all add: cdemo_eval final_response_def)

end
