(* ===== verification/ClientSends.thy ===== *)
theory ClientSends
  imports ClientDemo
begin

text \<open>
  What a client does with its connection when it is given a request, and exactly what it writes to
  it: the head, the parts of a form.
\<close>

text \<open>
  A request that can be sent: its URI has a host and a scheme, its proxy is supported, its form has no
  files. Unlike for \<open>plain\<close> requests, it may have an SSL context of its own.
\<close>

definition clean :: "crequest \<Rightarrow> bool" where
  "clean q \<longleftrightarrow>
     (\<forall>u. cq_uri q = Some u \<longrightarrow> u_scheme u \<noteq> '''') \<and>
     (\<forall>pid pu. cq_proxy q = Some (pid, pu) \<longrightarrow> u_scheme pu = ''http'' \<or> u_scheme pu = ''socks5'') \<and>
     list_all (\<lambda>x. \<not> is_file x) (cq_form q)"

definition sendable :: "crequest \<Rightarrow> bool" where
  "sendable q \<longleftrightarrow> Request_check q = None \<and> clean q"

lemma plain_clean: "plain q \<Longrightarrow> clean q"
  by (simp add: plain_def clean_def)

lemma acceptable_sendable: "acceptable q \<Longrightarrow> sendable q"
  by (simp add: acceptable_def sendable_def plain_clean)

section \<open>The connection\<close>

text \<open>The TLS context and the proxy filter a request needs.\<close>

definition tls_for :: "cext \<Rightarrow> crequest \<Rightarrow> nat option" where
  "tls_for X q =
     (if cx_secure X (the (cq_uri q))
      then Some (case cq_ssl_ctx q of Some ctx \<Rightarrow> ctx | None \<Rightarrow> cx_default_ssl X (cq_check_cert q))
      else None)"

definition socks_for :: "crequest \<Rightarrow> (uri \<times> bool) option" where
  "socks_for q =
     (case cq_proxy q of
        Some (pid, pu) \<Rightarrow> if u_scheme pu = ''socks5'' then Some (pu, cq_proxy_resolve q) else None
      | None \<Rightarrow> None)"

definition opened :: "cext \<Rightarrow> crequest \<Rightarrow> client \<Rightarrow> client" where
  "opened X q k =
     k\<lparr>cl_connected := False, cl_connecting := True, cl_netloc := Request_netloc X q,
       cl_connect_timeout := connect_timeout_of q, cl_nodelay := cl_nodelay k \<or> cq_nodelay q,
       cl_tls := tls_for X q, cl_socks := socks_for q, cl_out := []\<rparr>"

lemma use_ssl_eq:
  assumes "cx_verify_paths X" and "cl_tls (client w c) = None"
  shows "use_ssl X c r w = Done (upd_client c (\<lambda>k. k\<lparr>cl_tls := tls_for X (creq w r)\<rparr>) w)"
  using assms
  by (auto simp: use_ssl_def tls_for_def get_default_ssl_context_def upd_client_def fun_upd_idem
      split: option.split)

lemma use_proxy_eq:
  assumes "clean (creq w r)" and "cl_socks (client w c) = None"
  shows "use_proxy c r w = Done (upd_client c (\<lambda>k. k\<lparr>cl_socks := socks_for (creq w r)\<rparr>) w)"
  using assms
  by (auto simp: use_proxy_def socks_for_def upd_client_def fun_upd_idem clean_def split: option.split)

lemma open_connection_eq:
  assumes "cx_verify_paths X" and "clean (creq w r)"
  shows "open_connection X c r w = Done (upd_client c (opened X (creq w r)) w)"
proof -
  define w1 where "w1 = clear_filters c (if cl_connected (client w c) then drop_connection c w else w)"
  have w1: "creq w1 = creq w" "cl_tls (client w1 c) = None" "cl_socks (client w1 c) = None"
    by (simp_all add: w1_def clear_filters_def drop_connection_def)
  define w2 where "w2 = upd_client c (\<lambda>k. k\<lparr>cl_tls := tls_for X (creq w1 r)\<rparr>) w1"
  define w3 where "w3 = upd_client c (\<lambda>k. k\<lparr>cl_socks := socks_for (creq w1 r)\<rparr>) w2"
  have "use_ssl X c r w1 = Done w2"
    unfolding w2_def by (rule use_ssl_eq) (use assms w1 in simp_all)
  moreover have "use_proxy c r w2 = Done w3"
    using use_proxy_eq [of w2 r c] assms(2) w1 by (simp add: w2_def w3_def)
  ultimately have "open_connection X c r w = Done (start_connect X c r w3)"
    by (simp add: open_connection_def w1_def [symmetric] cong: if_cong)
  moreover have "start_connect X c r w3 = upd_client c (opened X (creq w r)) w"
    by (cases "client w c") (simp add: start_connect_def w3_def w2_def w1_def clear_filters_def
        drop_connection_def tcp_connect_def tcp_reset_def upd_client_def opened_def Let_def)
  ultimately show ?thesis by simp
qed

section \<open>The parts of a form\<close>

fun item_parts :: "crid \<Rightarrow> form_item \<Rightarrow> cwire list" where
  "item_parts r (FormField name content) = [PartField r name content]"
| "item_parts r (FormEmbeddedFile name content mime filename) =
     [PartFile r name filename mime, PartData r content]"
| "item_parts r (FormFile name inp mime filename streamer) = [PartFile r name filename mime]"

lemma start_item_eq:
  "\<not> is_file x \<Longrightarrow> start_item c r k x w =
     (True, upd_client c (\<lambda>k. k\<lparr>cl_out := cl_out k @ item_parts r x\<rparr>) w)"
  by (cases x) (simp_all add: tcp_write_def upd_client_def)

lemma form_loop_eq:
  assumes "list_all (\<lambda>x. \<not> is_file x) (cq_form (creq w r))"
    and "cl_form_field (client w c) = int k" and "k + n = length (cq_form (creq w r))"
  shows "form_loop c r n w = Done (upd_client c (\<lambda>j. j\<lparr>cl_form_field := int (k + n),
      cl_out := cl_out j @ concat (map (item_parts r) (drop k (cq_form (creq w r))))\<rparr>) w)"
  using assms
proof (induction n arbitrary: w k)
  case 0
  then have "upd_client c (\<lambda>j. j\<lparr>cl_form_field := int k\<rparr>) w = w"
    by (simp add: upd_client_def fun_upd_idem)
  with 0 show ?case by simp
next
  case (Suc n)
  let ?x = "cq_form (creq w r) ! k"
  define w1 where "w1 = upd_client c (\<lambda>j. j\<lparr>cl_form_field := cl_form_field j + 1\<rparr>)
      (upd_client c (\<lambda>k. k\<lparr>cl_out := cl_out k @ item_parts r ?x\<rparr>) w)"
  have k: "k < length (cq_form (creq w r))" using Suc.prems(3) by simp
  then have "\<not> is_file ?x" using Suc.prems(1) by (simp add: list_all_length)
  from start_item_eq [OF this] have "form_loop c r (Suc n) w = form_loop c r n w1"
    using k Suc.prems(2) by (simp add: Let_def w1_def)
  moreover have "drop k (cq_form (creq w r)) = ?x # drop (Suc k) (cq_form (creq w r))"
    by (rule Cons_nth_drop_Suc [symmetric]) (rule k)
  moreover have "form_loop c r n w1 = Done (upd_client c (\<lambda>j. j\<lparr>cl_form_field := int (Suc k + n),
      cl_out := cl_out j @ concat (map (item_parts r) (drop (Suc k) (cq_form (creq w1 r))))\<rparr>) w1)"
    by (rule Suc.IH) (use Suc.prems in \<open>simp_all add: w1_def\<close>)
  ultimately show ?case
    by (simp add: w1_def upd_client_def)
qed

definition form_parts :: "crid \<Rightarrow> crequest \<Rightarrow> cwire list" where
  "form_parts r q =
     (if cq_streaming q then concat (map (item_parts r) (cq_form q)) @ [FormEnd r] else [])"

lemma send_form_eq:
  assumes "cl_request (client w c) = Some r" and "list_all (\<lambda>x. \<not> is_file x) (cq_form (creq w r))"
    and "cl_form_field (client w c) = 0"
  shows "send_form c w = Done (upd_creq r (\<lambda>q. q\<lparr>cq_transferred := True\<rparr>)
    (upd_client c (\<lambda>j. j\<lparr>cl_form_field := - 1,
       cl_out := cl_out j @ concat (map (item_parts r) (cq_form (creq w r))) @ [FormEnd r]\<rparr>) w))"
  using form_loop_eq [OF assms(2), of c 0 "length (cq_form (creq w r))"] assms(1,3)
  by (simp add: send_form_def form_end_def tcp_write_def upd_client_def)

section \<open>A request is sent\<close>

lemma send_body_eq:
  assumes "cl_request (client w c) = Some r" and "clean (creq w r)"
    and "cl_form_field (client w c) = - 1"
  shows "send_body c r w =
    Done (upd_creq r (\<lambda>q. if cq_streaming q \<or> sent_at_once q then q\<lparr>cq_transferred := True\<rparr> else q)
      (upd_client c (\<lambda>k. k\<lparr>cl_out := cl_out k @ form_parts r (creq w r)\<rparr>) w))"
proof (cases "cq_streaming (creq w r)")
  case True
  let ?w = "upd_client c (\<lambda>k. k\<lparr>cl_form_field := 0\<rparr>) w"
  have "send_form c ?w = Done (upd_creq r (\<lambda>q. q\<lparr>cq_transferred := True\<rparr>)
    (upd_client c (\<lambda>j. j\<lparr>cl_form_field := - 1,
       cl_out := cl_out j @ concat (map (item_parts r) (cq_form (creq ?w r))) @ [FormEnd r]\<rparr>) ?w))"
    by (rule send_form_eq) (use assms in \<open>simp_all add: clean_def\<close>)
  then show ?thesis
    using True assms(3)
    by (cases "client w c") (simp add: send_body_def form_parts_def upd_client_def upd_creq_def)
next
  case False
  then show ?thesis
    by (cases "client w c")
      (simp add: send_body_def form_parts_def upd_client_def upd_creq_def fun_upd_idem)
qed

text \<open>The request as the client leaves it, and the connection it leaves it with.\<close>

definition submitted :: "cext \<Rightarrow> clid \<Rightarrow> crequest \<Rightarrow> crequest" where
  "submitted X c q =
     (let q = allow_compression X (ensure_timer_active (q\<lparr>cq_client := Some c\<rparr>))
      in if cq_streaming q \<or> sent_at_once q then q\<lparr>cq_transferred := True\<rparr> else q)"

definition working :: "cext \<Rightarrow> crid \<Rightarrow> crequest \<Rightarrow> client \<Rightarrow> client" where
  "working X r q k =
     (let k = (if \<not> cl_connected k \<or> cl_netloc k \<noteq> Request_netloc X q \<or> \<not> cq_keep q
               then opened X q k else k)
      in k\<lparr>cl_weak := False, cl_request := Some r, cl_ctx := Some r,
           cl_out := cl_out k @ request_head r q # form_parts r q\<rparr>)"

lemma claim_request_plain:
  assumes "sendable q"
  shows "claim_request c q = q\<lparr>cq_client := Some c\<rparr>"
  using assms
  by (cases q) (auto simp: sendable_def clean_def claim_request_def Request_check_def split: option.splits)

lemma adjusted_facts:
  "request_head r (allow_compression X (ensure_timer_active q)) = request_head r q"
  "form_parts r (allow_compression X (ensure_timer_active q)) = form_parts r q"
  "clean (allow_compression X (ensure_timer_active q)) = clean q"
  "allow_compression X (q\<lparr>cq_transferred := b\<rparr>) = (allow_compression X q)\<lparr>cq_transferred := b\<rparr>"
  by (simp_all add: request_head_def form_parts_def sent_at_once_def allow_compression_def
      ensure_timer_active_def clean_def)

lemma claimed_request_facts:
  "request_head r (q\<lparr>cq_client := x\<rparr>) = request_head r q" "form_parts r (q\<lparr>cq_client := x\<rparr>) = form_parts r q"
  "clean (q\<lparr>cq_client := x\<rparr>) = clean q"
  "connect_timeout_of (q\<lparr>cq_client := x\<rparr>) = connect_timeout_of q"
  by (simp_all add: request_head_def form_parts_def sent_at_once_def clean_def
      connect_timeout_of_def)

lemma claimed_request_netloc: "Request_netloc X (q\<lparr>cq_client := x\<rparr>) = Request_netloc X q"
  by (auto simp: Request_netloc_def split: option.split)

lemma claimed_request_filters:
  "socks_for (q\<lparr>cq_client := x\<rparr>) = socks_for q" "tls_for X (q\<lparr>cq_client := x\<rparr>) = tls_for X q"
  by (auto simp: socks_for_def tls_for_def split: option.split)

lemma claimed_request_opened: "opened X (q\<lparr>cq_client := x\<rparr>) = opened X q"
  by (simp add: opened_def fun_eq_iff claimed_request_facts claimed_request_netloc claimed_request_filters)

lemma Client_request_eq:
  assumes X: "cx_verify_paths X" and idle: "cl_request (client w c) = None" "cq_client (creq w r) = None"
    and q: "sendable (creq w r)" and field: "cl_form_field (client w c) = - 1"
  shows "Client_request X c r w =
    Done (upd_creq r (submitted X c) (upd_client c (working X r (creq w r)) w))"
proof -
  let ?q = "creq w r"
  define q1 where "q1 = ?q\<lparr>cq_client := Some c\<rparr>"
  define w1 where "w1 = upd_creq r (\<lambda>_. q1) w"
  define b where "b = (\<not> cl_connected (client w c) \<or> cl_netloc (client w c) \<noteq> Request_netloc X ?q \<or> \<not> cq_keep ?q)"
  define w2 where "w2 = upd_client c (\<lambda>k. if b then opened X ?q k else k) w1"
  have claim: "upd_creq r (claim_request c) w = w1"
    using claim_request_plain [OF q] by (simp add: w1_def q1_def upd_creq_def)
  have q1: "clean q1" "request_head r q1 = request_head r ?q" "form_parts r q1 = form_parts r ?q"
    using q unfolding q1_def claimed_request_facts by (simp_all add: sendable_def)
  have "needs_connect X c r w1 = b"
    by (simp add: needs_connect_def w1_def b_def q1_def claimed_request_netloc)
  moreover have "open_connection X c r w1 = Done (upd_client c (opened X ?q) w1)"
    using open_connection_eq [OF X, of w1 r c] q1(1) by (simp add: w1_def q1_def claimed_request_opened)
  moreover have "w1 = w2" if "\<not> b"
    using that by (simp add: w2_def upd_client_def fun_upd_idem)
  moreover have "upd_client c (opened X ?q) w1 = w2" if b
    using that by (simp add: w2_def)
  ultimately have open1: "when_step (needs_connect X c r) (open_connection X c r) w1 = Done w2"
    by (simp add: when_step_def)
  define w3 where "w3 = write_request c r (upd_creq r (allow_compression X)
      (upd_client c (\<lambda>k. k\<lparr>cl_request := Some r\<rparr>) (tcp_weak c False (upd_creq r ensure_timer_active w2))))"
  have w3: "creq w3 r = allow_compression X (ensure_timer_active q1)" "cl_request (client w3 c) = Some r"
    by (simp_all add: w3_def w2_def w1_def write_request_def)
  have "cl_form_field (client w3 c) = - 1"
    using field by (simp add: w3_def w2_def w1_def write_request_def opened_def)
  from send_body_eq [OF w3(2) _ this] have body: "send_body c r w3 =
    Done (upd_creq r (\<lambda>q. if cq_streaming q \<or> sent_at_once q then q\<lparr>cq_transferred := True\<rparr> else q)
      (upd_client c (\<lambda>k. k\<lparr>cl_out := cl_out k @ form_parts r ?q\<rparr>) w3))"
    using q1 by (simp add: w3(1) adjusted_facts)
  have "Client_request X c r w = send_body c r w3"
    using idle q open1 claim unfolding w3_def
    by (simp add: Client_request_def sendable_def split: outcome.split)
  also have "\<dots> = Done (upd_creq r (submitted X c) (upd_client c (working X r ?q) w))"
    unfolding body
    by (cases "client w c") (simp add: w3_def w2_def w1_def write_request_def tcp_write_def
        tcp_weak_def upd_client_def upd_creq_def submitted_def working_def Let_def b_def
        adjusted_facts q1(2) q1_def [symmetric])
  finally show ?thesis .
qed

text \<open>
  C27: A request that is given to an idle client is sent at once, exactly as the functions
  \<open>working\<close> and \<open>submitted\<close> say: the open connection is used if it goes to the same location and the
  request keeps connections alive, otherwise it is closed and a new one is opened with the timeout,
  the TLS context and the proxy of the request; then the head and the body or the parts of the form
  are written, the timer runs, and the request is sent in full unless its chunks are still to come.
  Nothing else changes and nobody is called back.
\<close>

theorem request_is_sent:
  assumes "creachable X u w" and "cl_request (client w c) = None" and "cq_client (creq w r) = None"
    and "Request_check (creq w r) = None"
  shows "Client_request (at_time X now) c r w =
    Done (upd_creq r (submitted (at_time X now) c) (upd_client c (working (at_time X now) r (creq w r)) w))"
proof -
  have inv: "cinv X top w" by (rule creachable_inv [OF assms(1)])
  have "sendable (creq w r)"
    using core_plain [OF cinv_core [OF inv]] assms(4) by (simp add: sendable_def plain_clean)
  moreover have "cl_form_field (client w c) = - 1"
    using cinv_client_ok [OF inv, of c] by (simp add: client_ok_def)
  ultimately show ?thesis
    using Client_request_eq [of "at_time X now" w c r] assms(2,3) by (simp add: at_time_def)
qed

theorem request_is_sent_witness:
  "Client_request (at_time demo_cext 0) 2 0 (demo_cworld 3) =
    Done (upd_creq 0 (submitted (at_time demo_cext 0) 2)
      (upd_client 2 (working (at_time demo_cext 0) 0 (creq (demo_cworld 3) 0)) (demo_cworld 3)))"
  by (rule request_is_sent [OF cdemo_reachable]) (simp_all add: cdemo_eval)

end
