(* ===== verification/Redirects.thy ===== *)
theory Redirects
  imports RequestEnds ClientSends
begin

text \<open>
  Redirects: which of them are refused, and what is sent to the new location.
\<close>

section \<open>The response of a redirect\<close>

definition redirect_response :: "crequest \<Rightarrow> response_result \<Rightarrow> bool" where
  "redirect_response q p \<longleftrightarrow>
     rr_state p = StDone \<and> rr_error p = NoError \<and> \<not> rr_context p \<and> cq_follow q \<and>
     is_redirect (rp_code (rr_response p))"

lemma redirect_code: "is_redirect code \<Longrightarrow> code \<noteq> 100"
  by (auto simp: is_redirect_def)

lemma read_redirect:
  assumes inv: "cinv X top w" and r: "cl_ctx (client w c) = Some r"
    and p: "redirect_response (creq w r) p" and q: "q = (rr_response p)\<lparr>rp_done := True\<rparr>"
  shows "Client_on_read X cb c [p] NoError w = redirect_request X cb c r q (take_response c p w) \<and>
    cinv X top (take_response c p w) \<and>
    client (take_response c p w) c = (client w c)\<lparr>cl_response := Some q, cl_ctx := None\<rparr> \<and>
    cl_request (client w c) = Some r"
proof -
  have req: "cl_request (client w c) = Some r"
    using cinv_client_ok [OF inv, of c] r by (simp add: client_ok_def)
  have w1: "client (take_response c p w) c = (client w c)\<lparr>cl_response := Some q, cl_ctx := None\<rparr>"
    using p by (simp add: take_response_def redirect_response_def q)
  have inv1: "cinv X top (take_response c p w)"
    unfolding take_response_def
    by (rule cinv_client [OF inv])
      (use cinv_client_ok [OF inv, of c] request_lt [OF inv, of c] req p in
        \<open>simp_all add: client_ok_def redirect_response_def\<close>)
  have "analyze_request X cb c (take_response c p w) = redirect_request X cb c r q (take_response c p w)"
    using req p redirect_code [of "rp_code (rr_response p)"]
    by (simp add: analyze_request_def redirect_response_def q w1) (simp add: take_response_def)
  then show ?thesis
    using p r req w1 inv1
    by (simp add: Client_on_read_def redirect_response_def split: outcome.split)
qed

section \<open>Redirects that are refused\<close>

definition redirect_error :: "crequest \<Rightarrow> cresponse \<Rightarrow> error_code" where
  "redirect_error q p =
     (if cq_limit q = 0 then HttpErrc unexpected_redirect
      else if cq_limit q < cq_counter q + 1 then HttpErrc redirection_limit
      else if rp_location p = '''' then HttpErrc no_redirect_uri
      else NoError)"

lemma finished_request_counter: "finished_request (q\<lparr>cq_counter := n\<rparr>) = finished_request q"
  by (simp add: finished_request_def cleanup_after_redirect_def)

lemma request_over_counter:
  assumes "request_over X c r kept (upd_creq r (\<lambda>q. q\<lparr>cq_counter := n q\<rparr>) w) w'"
  shows "request_over X c r kept w w'"
  using assms slots_cong [of "upd_creq r (\<lambda>q. q\<lparr>cq_counter := n q\<rparr>) w" w]
  by (simp add: request_over_def finished_request_counter Let_def split_beta)

lemma cinv_counter:
  assumes "cinv X K w"
  shows "cinv X K (upd_creq r (\<lambda>q. q\<lparr>cq_counter := n q\<rparr>) w)"
  by (rule cinv_creq [OF assms])
    (auto simp: Request_netloc_def Request_check_def plain_def split: option.split)

text \<open>
  C29: A redirect ends the request with an error if the request allows none, or if the limit has been
  reached, or if there is no location: the errors are \<open>unexpected_redirect\<close>, \<open>redirection_limit\<close> and
  \<open>no_redirect_uri\<close>, the connection is closed and the user is told as for every end of a request. (The
  counter is 16 bits wide: a limit of 65535 is never exceeded.)
\<close>

theorem redirect_refused:
  assumes "creachable X u w" and "cl_ctx (client w c) = Some r" and "redirect_response (creq w r) p"
    and "redirect_error (creq w r) (rr_response p) \<noteq> NoError"
  shows "\<exists>w1. Client_on_read (at_time X now) cb c [p] NoError w =
      run [cfire cb (PartEvent r ((rr_response p)\<lparr>rp_done := True\<rparr>) (redirect_error (creq w r) (rr_response p))),
           cfire cb (ResponseEvent r ((rr_response p)\<lparr>rp_done := True\<rparr>)
             (redirect_error (creq w r) (rr_response p)))] w1 \<and>
    request_over (at_time X now) c r False w w1"
proof -
  let ?X = "at_time X now"
  define q where "q = (rr_response p)\<lparr>rp_done := True\<rparr>"
  define e where "e = redirect_error (creq w r) (rr_response p)"
  define w1 where "w1 = take_response c p w"
  define inc where "inc = (\<lambda>w. upd_creq r (\<lambda>q. q\<lparr>cq_counter := cq_counter q + 1\<rparr>) w)"
  have inv: "cinv ?X top w" using creachable_inv [OF assms(1)] by (simp add: cinv_at_time)
  have X: "cx_verify_paths ?X" by (simp add: at_time_def)
  note read = read_redirect [OF inv assms(2,3) q_def, of cb, folded w1_def]
  have w1: "creq w1 = creq w" "pool w1 = pool w" "cevents w1 = cevents w"
    by (simp_all add: w1_def take_response_def)
  obtain w2 where w2: "Client_on_read ?X cb c [p] NoError w = Client_cancel ?X cb c e w2"
    "w2 = w1 \<or> w2 = inc w1"
    using read assms(4) w1
    by (auto simp: redirect_request_def redirect_error_def e_def q_def inc_def Let_def split: if_splits)
  have inv2: "cinv ?X top w2"
    using w2(2) read cinv_counter [of ?X top w1] by (auto simp: inc_def)
  have c2: "client w2 = client w1" using w2(2) by (auto simp: inc_def)
  have "cl_request (client w2 c) = Some r" "q = (case cl_response (client w2 c) of
      None \<Rightarrow> empty_response | Some p \<Rightarrow> p)"
    using read by (simp_all add: c2)
  from Client_cancel_over [OF X inv2 this(1) _ this(2), of e cb] assms(4) obtain w3 where
    w3: "Client_cancel ?X cb c e w2 =
      run [cfire cb (PartEvent r q e), cfire cb (ResponseEvent r q e)] w3"
    "request_over ?X c r False w2 w3"
    unfolding e_def by blast
  have "request_over ?X c r False w1 w3"
    using w2(2) w3(2) request_over_counter by (auto simp: inc_def)
  then have "request_over ?X c r False w w3"
    by (rule request_over_cong) (use read in \<open>simp_all add: w1\<close>)
  then show ?thesis
    using w2(1) w3(1) unfolding q_def e_def by auto
qed

theorem redirect_refused_witness:
  "\<exists>w1. Client_on_read (at_time demo_cext 0) (\<lambda>ev. Done) 0 [answer 302 ''''] NoError (demo_cworld 9) =
      run [cfire (\<lambda>ev. Done) (PartEvent 1 ((rr_response (answer 302 ''''))\<lparr>rp_done := True\<rparr>)
             (redirect_error (creq (demo_cworld 9) 1) (rr_response (answer 302 '''')))),
           cfire (\<lambda>ev. Done) (ResponseEvent 1 ((rr_response (answer 302 ''''))\<lparr>rp_done := True\<rparr>)
             (redirect_error (creq (demo_cworld 9) 1) (rr_response (answer 302 ''''))))] w1 \<and>
    request_over (at_time demo_cext 0) 0 1 False (demo_cworld 9) w1"
  by (rule redirect_refused [OF cdemo_reachable])
    (simp_all add: cdemo_eval redirect_response_def redirect_error_def)

section \<open>Redirects that are followed\<close>















end
