(* ===== verification/UserAgent.thy ===== *)
theory UserAgent
  imports Redirects
begin

text \<open>
  \<^verbatim>\<open>UserAgent\<close> (\<^verbatim>\<open>UserAgent.h\<close>, \<^verbatim>\<open>UserAgent.cc\<close>): a cookie jar and defaults for requests that go through
  the pool. The jar itself is outside the repository: a text in the world, with two operations.
\<close>

section \<open>State\<close>

record agent =
  ua_identity :: "string option"
  ua_ssl_ctx :: "nat option"
  ua_proxy :: "proxy option"



text \<open>The setters; the jar belongs to the world.\<close>

definition set_identity :: "string option \<Rightarrow> agent \<Rightarrow> agent" where
  "set_identity value ua = ua\<lparr>ua_identity := value\<rparr>"

definition set_proxy :: "proxy option \<Rightarrow> agent \<Rightarrow> agent" where
  "set_proxy value ua = ua\<lparr>ua_proxy := value\<rparr>"

definition set_ssl_ctx :: "nat option \<Rightarrow> agent \<Rightarrow> agent" where
  "set_ssl_ctx value ua = ua\<lparr>ua_ssl_ctx := value\<rparr>"

definition set_cookie_jar :: "string \<Rightarrow> cworld \<Rightarrow> cworld" where
  "set_cookie_jar value w = w\<lparr>jar := value\<rparr>"

text \<open>
  The operations of the jar: taking the cookies of a response for a URI, and the cookies a request has
  when the jar has been asked for them, for the URI of its context and whether it is at the top level.
\<close>

record jar_ext =
  jx_collect :: "string \<Rightarrow> cresponse \<Rightarrow> uri \<Rightarrow> u64 \<Rightarrow> string"
  jx_populate :: "string \<Rightarrow> crequest \<Rightarrow> uri \<Rightarrow> bool \<Rightarrow> u64 \<Rightarrow> (string \<times> string) list"
  jx_print :: "string \<Rightarrow> bool \<Rightarrow> u64 \<Rightarrow> string"

section \<open>Operations\<close>

text \<open>\<^verbatim>\<open>inject\<close>: cookies, identity, SSL context and proxy, where the request has none of its own.\<close>

definition add_identity :: "cext \<Rightarrow> agent \<Rightarrow> crequest \<Rightarrow> crequest" where
  "add_identity X ua q =
     (case ua_identity ua of
        None \<Rightarrow> q
      | Some name \<Rightarrow>
          if cx_has_header X (cq_headers q) ''User-Agent'' then q
          else q\<lparr>cq_headers := cq_headers q @ [(''User-Agent'', name)]\<rparr>)"

definition add_ssl_ctx :: "agent \<Rightarrow> crequest \<Rightarrow> crequest" where
  "add_ssl_ctx ua q =
     (if ua_ssl_ctx ua \<noteq> None \<and> cq_ssl_ctx q = None then q\<lparr>cq_ssl_ctx := ua_ssl_ctx ua\<rparr> else q)"

definition add_proxy :: "agent \<Rightarrow> crequest \<Rightarrow> crequest" where
  "add_proxy ua q =
     (if ua_proxy ua \<noteq> None \<and> cq_proxy q = None then q\<lparr>cq_proxy := ua_proxy ua\<rparr> else q)"

definition injected ::
  "cext \<Rightarrow> jar_ext \<Rightarrow> agent \<Rightarrow> uri \<Rightarrow> bool \<Rightarrow> string \<Rightarrow> crequest \<Rightarrow> crequest" where
  "injected X J ua origin top_level cookies q =
     add_proxy ua (add_ssl_ctx ua (add_identity X ua
       (q\<lparr>cq_cookies := jx_populate J cookies q origin top_level (cx_now X)\<rparr>)))"

definition inject :: "cext \<Rightarrow> jar_ext \<Rightarrow> agent \<Rightarrow> uri \<Rightarrow> bool \<Rightarrow> crid \<Rightarrow> cworld \<Rightarrow> cworld" where
  "inject X J ua origin top_level r w =
     upd_creq r (injected X J ua origin top_level (jar w)) w"




text \<open>
  The callbacks of a request are called in the order they were added: those of the user that the
  request had already, those of the agent, for each time the request was given to it, and those that
  the user adds later.
\<close>

type_synonym bindings = "crid \<Rightarrow> (uri \<times> bool) list"


definition UserAgent_request ::
  "cext \<Rightarrow> jar_ext \<Rightarrow> agent \<Rightarrow> crid \<Rightarrow> uri \<Rightarrow> bool \<Rightarrow> bindings \<times> cworld \<Rightarrow>
   bindings \<times> cworld outcome" where
  "UserAgent_request X J ua r origin top_level s =
     (let (B, w) = s
      in (B(r := B r @ [(origin, top_level)]),
          run [pure_step (inject X J ua origin top_level r), Pool_request X r] w))"

definition UserAgent_to_string :: "cext \<Rightarrow> jar_ext \<Rightarrow> bool \<Rightarrow> cworld \<Rightarrow> string" where
  "UserAgent_to_string X J include_session w = jx_print J (jar w) include_session (cx_now X)"

section \<open>What is injected\<close>












end
