(* ===== verification/PoolTheorems.thy ===== *)
theory PoolTheorems
  imports RequestEnds
begin

text \<open>
  The pool in every reachable state: its books are right, nothing the code asserts fails, and its
  operations are those of the abstract pool.
\<close>

section \<open>The books of the pool\<close>

text \<open>
  C19: In every reachable state, the entries of the pool are right: a free client has no request, a busy
  one works on a request that knows it, and both were last used for the location of the entry; the
  requests that wait are given to no client and go to that location; nobody waits while a client is
  free, and an entry has at least one client.
\<close>

theorem pool_consistent:
  assumes "creachable X u w" and "entry w nl = Some L"
  shows "distinct (nl_free L @ nl_busy L) \<and> distinct (nl_queue L) \<and>
    (\<forall>c. c \<in> set (nl_free L) \<longrightarrow> cl_request (client w c) = None \<and> cl_netloc (client w c) = nl) \<and>
    (\<forall>c. c \<in> set (nl_busy L) \<longrightarrow> (\<exists>r. cl_request (client w c) = Some r \<and>
       cq_client (creq w r) = Some c) \<and> cl_netloc (client w c) = nl) \<and>
    (\<forall>r. r \<in> set (nl_queue L) \<longrightarrow> cq_client (creq w r) = None \<and> Request_netloc X (creq w r) = nl) \<and>
    nl_free L @ nl_busy L \<noteq> [] \<and> (nl_queue L \<noteq> [] \<longrightarrow> nl_free L = [])"
proof -
  have core: "core X (curA w) (curN w) (curE w) (curP w) w"
    by (rule cinv_core [OF creachable_inv [OF assms(1)]])
  have "entry_ok X (curA w) (curN w) (curE w) w nl L" by (rule core_entry [OF core assms(2)])
  moreover have "cq_client (creq w r) = Some c" if "cl_request (client w c) = Some r" for c r
    using core_linked [OF core, of c r] that by simp
  ultimately show ?thesis
    unfolding entry_ok_def by (intro conjI) (fastforce+)
qed

theorem pool_consistent_witness:
  "\<exists>L. entry (demo_cworld 6) (Request_netloc demo_cext (demo_request ''a'')) = Some L \<and>
    nl_free L = [] \<and> nl_busy L = [0] \<and> nl_queue L = [1] \<and>
    (\<exists>r. cl_request (client (demo_cworld 6) 0) = Some r \<and> cq_client (creq (demo_cworld 6) r) = Some 0) \<and>
    cq_client (creq (demo_cworld 6) 1) = None"
proof -
  have "entry (demo_cworld 6) (Request_netloc demo_cext (demo_request ''a'')) =
      Some \<lparr>nl_free = [], nl_busy = [0], nl_queue = [1], nl_version = 1\<rparr>"
    by (simp add: cdemo_eval)
  from pool_consistent [OF cdemo_reachable this] this show ?thesis by simp
qed

text \<open>
  C20: Requests and clients agree: a client works on a request exactly if that request is given to it,
  so no request is with two clients; a client of the pool that works is in the busy set of its
  location; and a request that was given to the pool and is with no client waits in the queue of its
  location.
\<close>

theorem nothing_is_lost:
  assumes "creachable X u w"
  shows "(cl_request (client w c) = Some r) = (cq_client (creq w r) = Some c) \<and>
    (cl_pooled (client w c) \<and> cl_request (client w c) \<noteq> None \<longrightarrow>
       (\<exists>L. entry w (cl_netloc (client w c)) = Some L \<and> c \<in> set (nl_busy L))) \<and>
    (cq_pool (creq w r) \<and> cq_client (creq w r) = None \<longrightarrow>
       (\<exists>L. entry w (Request_netloc X (creq w r)) = Some L \<and> r \<in> set (nl_queue L)))"
proof -
  have core: "core X (curA w) (curN w) (curE w) (curP w) w"
    by (rule cinv_core [OF creachable_inv [OF assms(1)]])
  show ?thesis
    using core_linked [OF core, of c r] coreD(3,4) [OF core]
    unfolding busy_ok_def waiting_ok_def by auto
qed

theorem nothing_is_lost_witness:
  "cq_client (creq (demo_cworld 6) 0) = Some 0 \<and>
    (\<exists>L. entry (demo_cworld 6) (cl_netloc (client (demo_cworld 6) 0)) = Some L \<and> 0 \<in> set (nl_busy L))"
proof -
  have "cl_request (client (demo_cworld 6) 0) = Some 0" "cl_pooled (client (demo_cworld 6) 0)"
    by (simp_all add: cdemo_eval)
  then show ?thesis
    using nothing_is_lost [OF cdemo_reachable, of 6 0 0] by blast
qed

section \<open>No undefined behaviour\<close>

text \<open>
  C22: Whatever the network and the user do, by the rules, no assertion of the client side fails, no
  null pointer is followed, no item is taken from an empty queue or out of range: the only fault the
  user code can provoke is an iterator that a callback has made invalid. (\<open>LoopBound\<close> stands for
  callbacks nested more deeply than \<open>n\<close>.)
\<close>

theorem client_never_crashes:
  assumes "creachable X u w" and "cenabled w inp"
  shows "chandle (at_time X now) (cuser_cb (at_time X now) u n) inp w \<notin>
    {Crash AssertFailed, Crash NullDeref, Crash FrontOfEmpty, Crash OutOfRange}"
proof -
  have "outcome_all {InvalidIterator, LoopBound} (cinv (at_time X now) top) (cinv (at_time X now) top)
      (chandle (at_time X now) (cuser_cb (at_time X now) u n) inp w)"
    using client_user.chandle_inv [of X now w inp u n] creachable_inv [OF assms(1)] assms(2)
    by (simp add: cinv_at_time)
  then show ?thesis by (auto simp: outcome_all_def)
qed

theorem client_never_crashes_witness:
  "chandle (at_time demo_cext 0) (cuser_cb (at_time demo_cext 0) quiet_user 1)
     (ClientRead 0 [answer 200 ''''] NoError) (demo_cworld 8) \<notin>
    {Crash AssertFailed, Crash NullDeref, Crash FrontOfEmpty, Crash OutOfRange}"
  by (rule client_never_crashes [OF cdemo_reachable]) (simp add: cdemo_eval)

section \<open>The pool refines its specification\<close>

text \<open>
  C26: A request that is given to the pool in a reachable state does to the pool what the specification
  says: an idle connection takes it, or a new one if the limit allows it, or it waits behind those that
  wait already; and it is with a client afterwards exactly if the specification serves it.
\<close>

theorem pool_request_refines:
  assumes "creachable X u w" and "idle_request w r" and "Request_check (creq w r) = None"
  shows "\<exists>w'. Pool_request (at_time X now) r w = Done w' \<and> cevents w' = cevents w \<and>
    (let nl = Request_netloc X (creq w r);
         (now_served, s) = submit (unat (p_max_connections (pool w))) r (slots w nl)
     in slots w' = (slots w)(nl := s) \<and> (cq_client (creq w' r) \<noteq> None) = now_served)"
proof -
  have "cx_verify_paths (at_time X now)" by (simp add: at_time_def)
  moreover have "cinv (at_time X now) top w"
    using creachable_inv [OF assms(1)] by (simp add: cinv_at_time)
  ultimately show ?thesis
    using Pool_request_slots [of "at_time X now" top w r] assms(2,3)
    by (fastforce simp: netloc_at_time split_beta Let_def)
qed

theorem pool_request_refines_witness:
  "\<exists>w'. Pool_request (at_time demo_cext 0) 1 (demo_cworld 4) = Done w' \<and>
    cevents w' = cevents (demo_cworld 4) \<and>
    (let nl = Request_netloc demo_cext (creq (demo_cworld 4) 1);
         (now_served, s) = submit (unat (p_max_connections (pool (demo_cworld 4)))) 1 (slots (demo_cworld 4) nl)
     in slots w' = (slots (demo_cworld 4))(nl := s) \<and> (cq_client (creq w' 1) \<noteq> None) = now_served)"
  by (rule pool_request_refines [OF cdemo_reachable]) (simp_all add: cdemo_eval)

text \<open>With callbacks that do nothing else, the whole of a cancellation in the queue is known.\<close>

lemma Pool_cancel_quiet:
  assumes "cinv X K w" and "cq_client (creq w r) = None" and "cq_pool (creq w r)"
  shows "\<exists>w'. Pool_cancel_request X (\<lambda>ev. Done) r err w = Done w' \<and>
    slots w' = (slots w)(Request_netloc X (creq w r) := withdraw r (slots w (Request_netloc X (creq w r)))) \<and>
    cevents w' = cevents w @ [PartEvent r empty_response err, ResponseEvent r empty_response err] \<and>
    creq w' r = finished_request (creq w r) \<and> client w' = client w"
proof -
  let ?nl = "Request_netloc X (creq w r)"
  have core: "core X (curA w) (curN w) (curE w) (curP w) w" by (rule cinv_core [OF assms(1)])
  obtain L where L: "entry w ?nl = Some L" "r \<in> set (nl_queue L)"
    using coreD(4) [OF core, unfolded waiting_ok_def, rule_format, of r] assms(2,3) by auto
  define w1 where "w1 = (upd_creq r finished_request w)
    \<lparr>cevents := (cevents w @ [PartEvent r empty_response err]) @ [ResponseEvent r empty_response err]\<rparr>"
  have notify: "finish_and_notify (\<lambda>ev. Done) r None err w = Done w1"
    by (simp add: finish_and_notify_def cfire_def w1_def)
  define w2 where "w2 = set_entry ?nl (L\<lparr>nl_queue := remove1 r (nl_queue L), nl_version := Suc (nl_version L)\<rparr>) w1"
  have "entry w1 ?nl = Some L" using L by (simp add: w1_def)
  then have "Pool_cancel_request X (\<lambda>ev. Done) r err w = Done w2"
    using assms(2,3) L notify
    by (simp add: Pool_cancel_request_def Let_def erase_queued_def w2_def)
  moreover have "slots w2 = (slots w)(?nl := withdraw r (slots w ?nl))"
    using L slots_cong [of w1 w]
    by (simp add: w2_def slots_set_entry w1_def slots_def [of w ?nl] slot_of_def withdraw_def)
  ultimately show ?thesis
    by (intro exI [where x = w2]) (simp add: w2_def w1_def)
qed

text \<open>
  A request that waits is taken out of its queue when it is canceled or its time is over, and
  nothing else changes in the pool: the user is told by the two events, and the request is idle. (Here
  the callbacks leave the pool and the request alone.)
\<close>

lemma pool_cancel_refines:
  assumes "creachable X u w" and "cq_client (creq w r) = None" and "cq_pool (creq w r)"
  shows "\<exists>w'. Request_cancel (at_time X now) (\<lambda>ev. Done) r err w = Done w' \<and>
    slots w' = (slots w)(Request_netloc X (creq w r) := withdraw r (slots w (Request_netloc X (creq w r)))) \<and>
    cevents w' = cevents w @ [PartEvent r empty_response err, ResponseEvent r empty_response err] \<and>
    creq w' r = finished_request (creq w r) \<and> client w' = client w"
proof -
  have "cinv (at_time X now) top w" using creachable_inv [OF assms(1)] by (simp add: cinv_at_time)
  from Pool_cancel_quiet [OF this assms(2,3)] show ?thesis
    using assms(2,3) by (simp add: Request_cancel_def netloc_at_time)
qed

lemma pool_cancel_refines_witness:
  "\<exists>w'. Request_cancel (at_time demo_cext 0) (\<lambda>ev. Done) 1 (StdErrc timed_out) (demo_cworld 6) = Done w' \<and>
    slots w' = (slots (demo_cworld 6))(Request_netloc demo_cext (creq (demo_cworld 6) 1) :=
      withdraw 1 (slots (demo_cworld 6) (Request_netloc demo_cext (creq (demo_cworld 6) 1)))) \<and>
    cevents w' = cevents (demo_cworld 6) @
      [PartEvent 1 empty_response (StdErrc timed_out), ResponseEvent 1 empty_response (StdErrc timed_out)] \<and>
    creq w' 1 = finished_request (creq (demo_cworld 6) 1) \<and> client w' = client (demo_cworld 6)"
  by (rule pool_cancel_refines [OF cdemo_reachable]) (simp_all add: cdemo_eval)

section \<open>Inactive connections\<close>

text \<open>
  C33: The idle timer of the pool closes exactly the free connections whose last activity is longer ago
  than the timeout, in numbers and not in wrapping words, as long as the clock has passed the timeout;
  it leaves the busy connections and the queues alone and forgets the locations that nothing is left of.
  The connections it may close have no request, as the destructor of a client asserts.
\<close>

theorem inactive_closed:
  assumes "creachable X u w" and "unat (p_idle_timeout (pool w)) \<le> unat now"
  shows "entry (Pool_check_inactivity (at_time X now) w) nl =
    (case entry w nl of
       None \<Rightarrow> None
     | Some L \<Rightarrow>
         (let fs = filter (\<lambda>c. unat now \<le> unat (cl_last_activity (client w c)) + unat (p_idle_timeout (pool w)))
                     (nl_free L)
          in if fs = [] \<and> nl_busy L = [] then None else Some (L\<lparr>nl_free := fs\<rparr>))) \<and>
    (\<forall>L c. entry w nl = Some L \<and> c \<in> set (nl_free L) \<longrightarrow> Client_destructible (client w c))"
proof -
  have free: "Client_destructible (client w c)" if "entry w nl = Some L" "c \<in> set (nl_free L)" for L c
    using core_entry [OF cinv_core [OF creachable_inv [OF assms(1)]] that(1)] that(2)
    by (simp add: entry_ok_def Client_destructible_def)
  have distinct: "distinct (map fst (p_entries (pool w)))"
    by (rule core_distinct [OF cinv_core [OF creachable_inv [OF assms(1)]]])
  let ?t = "ucast (p_idle_timeout (pool w)) :: u64"
  have t: "unat ?t = unat (p_idle_timeout (pool w))"
    using unsigned_less [of "p_idle_timeout (pool w)", where 'a = nat]
    by (simp add: unsigned_ucast_eq take_bit_nat_eq_self_iff)
  have "unat (now - ?t) = unat now - unat (p_idle_timeout (pool w))"
    using unat_sub [of ?t now] assms(2) by (simp add: t word_le_nat_alt)
  then have "keep_active (at_time X now) w =
      (\<lambda>c. unat now \<le> unat (cl_last_activity (client w c)) + unat (p_idle_timeout (pool w)))"
    by (auto simp: keep_active_def at_time_def word_less_nat_alt fun_eq_iff)
  then show ?thesis
    using free by (simp add: Pool_check_inactivity_def map_of_purge [OF distinct] Let_def cong: option.case_cong)
qed

theorem inactive_closed_witness:
  "entry (Pool_check_inactivity (at_time demo_cext 80000) (demo_cworld 11))
     (Request_netloc demo_cext (demo_request ''a'')) =
    (case entry (demo_cworld 11) (Request_netloc demo_cext (demo_request ''a'')) of
       None \<Rightarrow> None
     | Some L \<Rightarrow>
         (let fs = filter (\<lambda>c. unat (80000 :: u64) \<le> unat (cl_last_activity (client (demo_cworld 11) c)) +
                     unat (p_idle_timeout (pool (demo_cworld 11)))) (nl_free L)
          in if fs = [] \<and> nl_busy L = [] then None else Some (L\<lparr>nl_free := fs\<rparr>)))"
  by (rule inactive_closed [OF cdemo_reachable, THEN conjunct1]) (simp add: cdemo_eval)

end
