(* ===== verification/PoolBounds.thy ===== *)
theory PoolBounds
  imports PoolTheorems
begin

text \<open>
  Properties of the pool that every change of its entries keeps, whatever happens elsewhere: the
  interface \<open>pool_kept\<close>, and with it the limit on connections.
\<close>

section \<open>Operations that leave the pool alone\<close>

abbreviation same_pool :: "cworld \<Rightarrow> cworld outcome \<Rightarrow> bool" where
  "same_pool w out \<equiv> outcome_all UNIV (\<lambda>w'. pool w' = pool w) (\<lambda>w'. pool w' = pool w) out"

lemma same_pool_run:
  assumes "\<And>f w. f \<in> set fs \<Longrightarrow> same_pool w (f w)"
  shows "same_pool w (run fs w)"
  by (rule post_run_inv) (use assms in \<open>force elim: post_mono\<close>, simp)

lemma same_pool_when: "(\<And>w. same_pool w (f w)) \<Longrightarrow> same_pool w (when_step b f w)"
  by (simp add: when_step_def)

lemma start_item_pool: "pool (snd (start_item c r k x w)) = pool w"
  by (cases x) simp_all

lemma form_loop_pool: "same_pool w (form_loop c r n w)"
proof (induction n arbitrary: w)
  case (Suc n)
  have "same_pool w (form_loop c r n (upd_client c f (snd (start_item c r k x w))))" for f k x
    using Suc [of "upd_client c f (snd (start_item c r k x w))"] by (simp add: start_item_pool)
  then show ?case by (simp add: Let_def split_beta start_item_pool)
qed simp

lemma send_form_pool: "same_pool w (send_form c w)"
proof -
  have "same_pool w (run [form_loop c r n, pure_step (form_end c r)] w)" for r n
    by (rule same_pool_run) (auto simp: form_loop_pool form_end_def)
  then show ?thesis by (simp add: send_form_def split: option.split)
qed

lemma open_connection_pool: "same_pool w (open_connection X c r w)"
  unfolding open_connection_def
  by (rule same_pool_run)
    (auto simp: use_ssl_def use_proxy_def clear_filters_def drop_connection_def start_connect_def
      Let_def split: option.split sum.split)

lemma Client_request_pool: "same_pool w (Client_request X c r w)"
proof -
  have "same_pool w (send_body c r w)" for w
    using send_form_pool [of "upd_client c (\<lambda>k. k\<lparr>cl_form_field := 0\<rparr>) w" c]
    by (simp add: send_body_def)
  then have "same_pool w (run [pure_step (upd_creq r (claim_request c)),
      when_step (needs_connect X c r) (open_connection X c r), pure_step (upd_creq r ensure_timer_active),
      pure_step (tcp_weak c False), pure_step (upd_client c (\<lambda>k. k\<lparr>cl_request := Some r\<rparr>)),
      pure_step (upd_creq r (allow_compression X)), pure_step (write_request c r), send_body c r] w)"
    by (intro same_pool_run)
      (auto intro: same_pool_when open_connection_pool simp: write_request_def)
  then show ?thesis by (simp add: Client_request_def del: run.simps split: option.split)
qed

lemma settle_connection_pool: "same_pool w (settle_connection c err res q w)"
  by (simp add: settle_connection_def drop_connection_def split: option.split)

lemma stop_item_pool: "same_pool w (stop_item r k x w)"
  by (cases "(r, k, x, w)" rule: stop_item.cases) simp_all

lemma stop_form_pool: "same_pool w (stop_form c r w)"
proof -
  have "same_pool w (run [stop_item r k x, pure_step (upd_client c (\<lambda>k. k\<lparr>cl_form_field := - 1\<rparr>))] w)" for k x
    by (rule same_pool_run) (auto simp: stop_item_pool)
  then show ?thesis by (simp add: stop_form_def Let_def del: run.simps)
qed

lemma chunk_pool:
  "same_pool w (Request_send_chunk r x w)" "same_pool w (Request_send_final_chunk r x w)"
  by (simp_all add: Request_send_chunk_def Request_send_final_chunk_def Client_send_chunk_def
      Client_send_final_chunk_def split: option.split)

text \<open>Commands that change the configuration of the pool.\<close>

fun configures :: "ccmd \<Rightarrow> bool" where
  "configures (PoolIdleTimeout t) = True"
| "configures (PoolMaxConnections n) = True"
| "configures a = False"

section \<open>The interface\<close>

text \<open>
  A property of the pool that holds whatever the pool picks, after every change of a queue, when a busy
  client is marked free, after the purge of inactive clients, and after every callback.
\<close>

locale pool_kept =
  fixes X :: cext and cb :: ccallbacks and I :: "pool \<Rightarrow> bool"
  assumes pick: "I (pool w) \<Longrightarrow> I (pool (snd (Pool_pick X r w)))"
    and requeue: "I (pool w) \<Longrightarrow> entry w nl = Some L \<Longrightarrow>
      I (pool (set_entry nl (L\<lparr>nl_queue := q, nl_version := v\<rparr>) w))"
    and free: "I (pool w) \<Longrightarrow> entry w nl = Some L \<Longrightarrow> c \<in> set (nl_busy L) \<Longrightarrow>
      I (pool (set_entry nl (L\<lparr>nl_busy := remove1 c (nl_busy L), nl_free := List.insert c (nl_free L)\<rparr>) w))"
    and purged: "I (pool w) \<Longrightarrow> I (pool (upd_entries (purge keep) w))"
    and calls: "I (pool w) \<Longrightarrow> outcome_all UNIV (\<lambda>w. I (pool w)) (\<lambda>w. I (pool w)) (cb ev w)"
begin

abbreviation kept :: "cworld outcome \<Rightarrow> bool" where
  "kept out \<equiv> outcome_all UNIV (\<lambda>w. I (pool w)) (\<lambda>w. I (pool w)) out"

lemma kept_same: "same_pool w out \<Longrightarrow> I (pool w) \<Longrightarrow> kept out"
  by (erule post_mono) simp_all

lemma kept_run: "(\<And>f w. f \<in> set fs \<Longrightarrow> I (pool w) \<Longrightarrow> kept (f w)) \<Longrightarrow> I (pool w) \<Longrightarrow> kept (run fs w)"
  by (rule post_run_inv)

lemma kept_when: "(\<And>w. I (pool w) \<Longrightarrow> kept (f w)) \<Longrightarrow> I (pool w) \<Longrightarrow> kept (when_step b f w)"
  by (simp add: when_step_def)

lemma fire_kept: "I (pool w) \<Longrightarrow> kept (cfire cb ev w)"
  by (simp add: cfire_def calls)

lemma notify_kept: "I (pool w) \<Longrightarrow> kept (finish_and_notify cb r res err w)"
  unfolding finish_and_notify_def Let_def by (rule kept_run) (auto simp: fire_kept)

lemma Client_request_kept: "I (pool w) \<Longrightarrow> kept (Client_request X c r w)"
  by (rule kept_same [OF Client_request_pool])

lemma Pool_request_kept:
  assumes "I (pool w)"
  shows "kept (Pool_request X r w)"
proof -
  obtain cc w1 where p: "Pool_pick X r (upd_creq r (\<lambda>q. q\<lparr>cq_pool := True\<rparr>) w) = (cc, w1)"
    by fastforce
  have "I (pool w1)"
    using pick [of "upd_creq r (\<lambda>q. q\<lparr>cq_pool := True\<rparr>) w" r] assms p by simp
  then show ?thesis
    using assms p by (simp add: Pool_request_def Client_request_kept split: option.split)
qed

lemma Pool_putback_kept:
  assumes "I (pool w)"
  shows "kept (Pool_putback X c w)"
  using assms requeue free
  by (auto simp: Pool_putback_def Let_def intro!: Client_request_kept split: option.split list.split)

lemma Pool_cancel_kept:
  assumes "I (pool w)"
  shows "kept (Pool_cancel_request X cb r err w)"
proof -
  have "kept (erase_queued nl v r w)" if "I (pool w)" for nl v w
    using that requeue by (auto simp: erase_queued_def split: option.split)
  then have "kept (run [finish_and_notify cb r None err, erase_queued nl v r] w)" for nl v
    by (intro kept_run) (auto simp: notify_kept assms)
  then show ?thesis
    by (simp add: Pool_cancel_request_def Let_def del: run.simps split: option.split)
qed

lemma finish_request_kept:
  assumes "I (pool w)"
  shows "kept (finish_request X cb c err w)"
proof -
  have "kept (run [pure_step (upd_client c (\<lambda>k. k\<lparr>cl_request := None, cl_response := None\<rparr>)),
      settle_connection c e res q, stop_form c r,
      pure_step (upd_client c (\<lambda>k. k\<lparr>cl_last_activity := cx_now X\<rparr>)),
      when_step (\<lambda>w. cl_pooled (client w c)) (Pool_putback X c), finish_and_notify cb r res e] w)" for e res q r
    by (rule kept_run [OF _ assms])
      (auto intro: kept_when Pool_putback_kept notify_kept kept_same [OF settle_connection_pool]
        kept_same [OF stop_form_pool])
  then show ?thesis by (simp add: finish_request_def Let_def del: run.simps split: option.split)
qed

lemma Client_cancel_kept: "I (pool w) \<Longrightarrow> kept (Client_cancel X cb c err w)"
  unfolding Client_cancel_def by (auto intro!: kept_run simp: finish_request_kept simp del: run.simps)

lemma Request_cancel_kept: "I (pool w) \<Longrightarrow> kept (Request_cancel X cb r err w)"
  by (simp add: Request_cancel_def Client_cancel_kept Pool_cancel_kept split: option.split)

lemma Request_on_timer_kept: "I (pool w) \<Longrightarrow> kept (Request_on_timer X cb r w)"
  by (simp add: Request_on_timer_def Client_timed_out_def Client_cancel_kept Pool_cancel_kept
      split: option.split)

lemma follow_redirect_kept:
  assumes "I (pool w)"
  shows "kept (follow_redirect X c w)"
proof -
  have again: "kept (run [pure_step (upd_client c (\<lambda>k. k\<lparr>cl_last_activity := cx_now X\<rparr>)),
      Pool_putback X c, pure_step (tcp_weak c True), Pool_request X r] w)" if "I (pool w)" for r w
    by (rule kept_run [OF _ that]) (auto simp: Pool_putback_kept Pool_request_kept)
  have step: "kept (run [pure_step (upd_client c (\<lambda>k. k\<lparr>cl_request := None, cl_response := None\<rparr>)),
      pure_step (\<lambda>w. if rp_keep p then w else tcp_reset c w), pure_step (upd_creq r cleanup_after_redirect),
      g] (upd_creq r h w))" if "\<And>w. I (pool w) \<Longrightarrow> kept (g w)" for p r g h
    by (rule kept_run) (use assms that in \<open>auto simp del: run.simps\<close>)
  have "kept (run [pure_step (upd_client c (\<lambda>k. k\<lparr>cl_request := None, cl_response := None\<rparr>)),
      pure_step (\<lambda>w. if rp_keep p then w else tcp_reset c w), pure_step (upd_creq r cleanup_after_redirect),
      run [pure_step (upd_client c (\<lambda>k. k\<lparr>cl_last_activity := cx_now X\<rparr>)),
        Pool_putback X c, pure_step (tcp_weak c True), Pool_request X r]] (upd_creq r h w))" for p r h
    by (rule step) (rule again)
  moreover have "kept (run [pure_step (upd_client c (\<lambda>k. k\<lparr>cl_request := None, cl_response := None\<rparr>)),
      pure_step (\<lambda>w. if rp_keep p then w else tcp_reset c w), pure_step (upd_creq r cleanup_after_redirect),
      Client_request X c r] (upd_creq r h w))" for p r h
    by (rule step) (rule Client_request_kept)
  ultimately show ?thesis
    using assms
    by (auto simp: follow_redirect_def Let_def simp del: run.simps split: option.split)
qed

lemma fire_redirect_kept:
  assumes "I (pool w)"
  shows "kept (fire_redirect X cb c ev w)"
proof -
  have "kept (cfire cb ev (upd_client c (\<lambda>k. k\<lparr>cl_in_redirect := True\<rparr>) w))" (is "kept ?out")
    by (rule fire_kept) (simp add: assms)
  moreover have "kept (case Client_cancel X cb c err w of Done w \<Rightarrow> Throw e w | Throw e' w \<Rightarrow> Throw e' w
      | Crash f \<Rightarrow> Crash f)" if "I (pool w)" for e err w
    using Client_cancel_kept [OF that, of c err] by (cases "Client_cancel X cb c err w") simp_all
  ultimately show ?thesis
    unfolding fire_redirect_def by (cases ?out) simp_all
qed

lemma redirect_request_kept:
  assumes "I (pool w)"
  shows "kept (redirect_request X cb c r p w)"
proof -
  have "kept (redirect_to X cb c r p w)" if "I (pool w)" for w
    unfolding redirect_to_def Let_def
    by (rule kept_run) (auto simp: that fire_redirect_kept follow_redirect_kept)
  then show ?thesis
    using assms by (simp add: redirect_request_def Let_def Client_cancel_kept)
qed

lemma analyze_request_kept:
  assumes "I (pool w)"
  shows "kept (analyze_request X cb c w)"
proof -
  have "kept (run [cfire cb ev, pure_step (upd_client c (\<lambda>k. k\<lparr>cl_response := None\<rparr>))] w)" for ev
    by (rule kept_run) (auto simp: assms fire_kept)
  then show ?thesis
    using assms by (simp add: analyze_request_def redirect_request_kept finish_request_kept
        del: run.simps split: option.split)
qed

lemma deliver_part_kept: "I (pool w) \<Longrightarrow> kept (deliver_part cb c w)"
  by (simp add: deliver_part_def fire_kept split: option.split)

lemma response_loop_kept: "I (pool w) \<Longrightarrow> kept (response_loop X cb c ps w)"
proof (induction ps arbitrary: w)
  case (Cons p ps)
  have take: "I (pool (take_response c p w))" using Cons.prems by (simp add: take_response_def)
  have "kept (run [if rr_state p \<noteq> StDone then deliver_part cb c else analyze_request X cb c,
      response_loop X cb c ps] (take_response c p w))"
    by (rule kept_run [OF _ take])
      (auto simp: deliver_part_kept analyze_request_kept Cons.IH split: if_splits)
  then show ?case
    using Cons.prems take by (simp add: Let_def drop_connection_def Client_cancel_kept del: run.simps)
qed simp

lemma form_file_complete_kept: "I (pool w) \<Longrightarrow> kept (form_file_complete X cb c err w)"
  by (auto simp: form_file_complete_def finish_request_kept intro: kept_same [OF send_form_pool])

lemma exec_ccmd_kept: "\<not> configures a \<Longrightarrow> I (pool w) \<Longrightarrow> kept (exec_ccmd X cb a w)"
  by (cases a) (auto simp: make_standalone_def Pool_request_kept Client_request_kept
      Request_cancel_kept Client_cancel_kept intro: kept_same [OF chunk_pool(1)] kept_same [OF chunk_pool(2)])

lemma chandle_kept:
  assumes "I (pool w)" and "\<And>a. inp \<noteq> ClientCall a"
  shows "kept (chandle X cb inp w)"
proof (cases inp)
  case (ClientCall a)
  then show ?thesis using assms(2) by blast
qed (use assms(1) in \<open>auto simp: Client_on_connect_def connect_done_def Client_cancel_kept Client_on_write_def
    Client_on_read_def response_loop_kept Client_on_eof_def Let_def analyze_request_kept Request_on_timer_kept
    Pool_check_inactivity_def form_file_complete_kept ClientOutput_write_def intro: purged split: option.split\<close>)

end

section \<open>The limit on connections\<close>

definition bounded :: "u32 \<Rightarrow> pool \<Rightarrow> bool" where
  "bounded m p \<longleftrightarrow>
     p_max_connections p \<le> m \<and>
     (\<forall>L\<in>snd ` set (p_entries p). length (nl_free L) + length (nl_busy L) \<le> max 1 (unat m))"

lemma bounded_entry:
  "bounded m (pool w) \<Longrightarrow> entry w nl = Some L \<Longrightarrow> length (nl_free L) + length (nl_busy L) \<le> max 1 (unat m)"
  by (force simp: bounded_def dest: map_of_SomeD)

lemma update_entries: "snd ` set (AList.update k v es) \<subseteq> insert v (snd ` set es)"
  by (induction es) auto

lemma bounded_set_entry:
  assumes "bounded m (pool w)"
    and "length (nl_free L) + length (nl_busy L) \<le> max 1 (unat m)"
  shows "bounded m (pool (set_entry nl L w))"
proof -
  have "\<forall>K\<in>insert L (snd ` set (p_entries (pool w))). length (nl_free K) + length (nl_busy K) \<le> max 1 (unat m)"
    using assms unfolding bounded_def by blast
  then have "\<forall>K\<in>snd ` set (AList.update nl L (p_entries (pool w))).
      length (nl_free K) + length (nl_busy K) \<le> max 1 (unat m)"
    using update_entries [of nl L "p_entries (pool w)"] by blast
  then show ?thesis
    using assms(1) unfolding bounded_def set_entry_def upd_entries_simps by blast
qed

lemma bounded_requeue:
  assumes "bounded m (pool w)" and "entry w nl = Some L"
  shows "bounded m (pool (set_entry nl (L\<lparr>nl_queue := q, nl_version := v\<rparr>) w))"
  by (rule bounded_set_entry [OF assms(1)]) (use bounded_entry [OF assms] in simp)

lemma length_insert_le: "length (List.insert c xs) \<le> Suc (length xs)"
  by (simp add: List.insert_def)

lemma bounded_pick:
  assumes "bounded m (pool w)"
  shows "bounded m (pool (snd (Pool_pick X r w)))"
proof -
  let ?nl = "Request_netloc X (creq w r)"
  have new: "bounded m (pool (snd (make_client w)))"
    using assms by (simp add: make_client_def)
  show ?thesis
  proof (cases "entry w ?nl")
    case None
    then show ?thesis
      using bounded_set_entry [OF new] by (simp add: Pool_pick_def Let_def split_beta)
  next
    case (Some L)
    then have L: "length (nl_free L) + length (nl_busy L) \<le> max 1 (unat m)"
      by (rule bounded_entry [OF assms])
    show ?thesis
    proof (cases "nl_free L")
      case (Cons f fs)
      define c where "c = first_client X f fs"
      have "c \<in> set (f # fs)" unfolding c_def by (rule first_client_mem)
      then have "length (remove1 c (f # fs)) = length fs" by (simp only: length_remove1) simp
      then have "length (remove1 c (f # fs)) + length (List.insert c (nl_busy L)) \<le> max 1 (unat m)"
        using L Cons length_insert_le [of c "nl_busy L"] by simp
      then show ?thesis
        using Some Cons bounded_set_entry [OF assms]
        by (simp add: Pool_pick_def Let_def c_def [symmetric] del: remove1.simps)
    next
      case Nil
      have "length (List.insert (next_clid w) (nl_busy L)) \<le> max 1 (unat m)"
        if "length (nl_busy L) < unat (p_max_connections (pool w))"
        using that assms length_insert_le [of "next_clid w" "nl_busy L"]
        by (auto simp: bounded_def word_le_nat_alt)
      then show ?thesis
        using Some Nil L bounded_set_entry [OF new] bounded_set_entry [OF assms]
        by (simp add: Pool_pick_def Let_def split_beta)
    qed
  qed
qed

lemma bounded_free:
  assumes "bounded m (pool w)" and "entry w nl = Some L" and "c \<in> set (nl_busy L)"
  shows "bounded m (pool (set_entry nl (L\<lparr>nl_busy := remove1 c (nl_busy L),
    nl_free := List.insert c (nl_free L)\<rparr>) w))"
proof -
  have "length (nl_free L) + length (nl_busy L) \<le> max 1 (unat m)"
    by (rule bounded_entry [OF assms(1,2)])
  moreover have "length (remove1 c (nl_busy L)) + 1 = length (nl_busy L)"
    using assms(3) length_pos_if_in_set [OF assms(3)] by (simp add: length_remove1)
  ultimately have "length (List.insert c (nl_free L)) + length (remove1 c (nl_busy L)) \<le> max 1 (unat m)"
    using length_insert_le [of c "nl_free L"] by linarith
  then show ?thesis by (intro bounded_set_entry [OF assms(1)]) simp
qed

lemma purge_entry:
  "L \<in> snd ` set (purge keep es) \<Longrightarrow>
    \<exists>K\<in>snd ` set es. nl_busy L = nl_busy K \<and> length (nl_free L) \<le> length (nl_free K)"
proof (induction keep es rule: purge.induct)
  case (2 keep nl K es)
  then show ?case
    by (auto simp: Let_def split: if_splits)
qed simp

lemma bounded_purge: "bounded m (pool w) \<Longrightarrow> bounded m (pool (upd_entries (purge keep) w))"
  using purge_entry [of _ keep "p_entries (pool w)"] by (fastforce simp: bounded_def)

text \<open>Users who never make some calls, and those who never raise the limit above \<open>m\<close>.\<close>

definition without :: "(ccmd \<Rightarrow> bool) \<Rightarrow> cuser \<Rightarrow> cuser" where
  "without b u ev w =
     map (\<lambda>f v. case f v of None \<Rightarrow> None | Some a \<Rightarrow> if b a then None else Some a) (u ev w)"

lemma withoutD: "f \<in> set (without b u ev w) \<Longrightarrow> f v = Some a \<Longrightarrow> \<not> b a"
  by (auto simp: without_def split: option.splits if_splits)

definition raises :: "u32 \<Rightarrow> ccmd \<Rightarrow> bool" where
  "raises m a \<longleftrightarrow> (case a of PoolMaxConnections n \<Rightarrow> m < n | _ \<Rightarrow> False)"

definition limited :: "u32 \<Rightarrow> cuser \<Rightarrow> cuser" where
  "limited m = without (raises m)"

lemma pool_kept_bounded:
  assumes "\<And>w ev. bounded m (pool w) \<Longrightarrow>
    outcome_all UNIV (\<lambda>w. bounded m (pool w)) (\<lambda>w. bounded m (pool w)) (cb ev w)"
  shows "pool_kept X cb (bounded m)"
  by unfold_locales
    (use assms in \<open>auto intro: bounded_pick bounded_free bounded_purge bounded_requeue\<close>)

lemma exec_ccmd_bounded:
  assumes "pool_kept X cb (bounded m)" and "bounded m (pool w)" and "\<not> raises m a"
  shows "outcome_all UNIV (\<lambda>w. bounded m (pool w)) (\<lambda>w. bounded m (pool w)) (exec_ccmd X cb a w)"
proof (cases "configures a")
  case True
  then show ?thesis
    using assms(2,3) by (cases a)
      (auto simp: raises_def bounded_def Pool_idle_timeout_def Pool_max_connections_def)
next
  case False
  then show ?thesis using pool_kept.exec_ccmd_kept [OF assms(1), of a w] assms(2) by simp
qed

lemma limited_bounded:
  "bounded m (pool w) \<Longrightarrow> outcome_all UNIV (\<lambda>w. bounded m (pool w)) (\<lambda>w. bounded m (pool w))
     (cuser_cb X (limited m u) n ev w)"
proof (induction n arbitrary: w ev)
  case 0
  then show ?case by simp
next
  case (Suc n)
  have kept: "pool_kept X (cuser_cb X (limited m u) n) (bounded m)"
    by (rule pool_kept_bounded) (rule Suc.IH)
  have "outcome_all UNIV (\<lambda>w. bounded m (pool w)) (\<lambda>w. bounded m (pool w))
      (exec_cif X (cuser_cb X (limited m u) n) f w)" if "f \<in> set (limited m u ev v)" "bounded m (pool w)" for f w v
  proof (cases "f w")
    case (Some a)
    then have "\<not> raises m a"
      using that(1) withoutD [of f "raises m" u ev v w a] Some by (simp add: limited_def)
    then show ?thesis
      using Some exec_ccmd_bounded [OF kept that(2)] that(2) by (simp add: exec_cif_def)
  qed (use that(2) in \<open>simp add: exec_cif_def\<close>)
  then show ?case
    unfolding cuser_cb.simps by (intro post_run_inv) (use Suc.prems in auto)
qed

interpretation bounded_pool: pool_kept X "cuser_cb X (limited m u) n" "bounded m"
  by (rule pool_kept_bounded) (rule limited_bounded)

section \<open>Runs over time\<close>

text \<open>A run of events, each at its time; an exception goes back to the event loop.\<close>

fun timed_run :: "cext \<Rightarrow> cuser \<Rightarrow> nat \<Rightarrow> (u64 \<times> cinput) list \<Rightarrow> cworld \<Rightarrow> cworld option" where
  "timed_run X u n [] w = Some w"
| "timed_run X u n ((now, inp) # inps) w =
     (if cenabled w inp then
        (case chandle (at_time X now) (cuser_cb (at_time X now) u n) inp w of
           Done w' \<Rightarrow> timed_run X u n inps w'
         | Throw e w' \<Rightarrow> timed_run X u n inps w'
         | Crash f \<Rightarrow> None)
      else None)"

lemma timed_run_bounded:
  assumes "timed_run X (limited m u) n inps w = Some w'" and "bounded m (pool w)"
    and "list_all (\<lambda>(now, inp). \<forall>a. inp = ClientCall a \<longrightarrow> \<not> raises m a) inps"
  shows "bounded m (pool w')"
  using assms
proof (induction X "limited m u" n inps w rule: timed_run.induct)
  case (2 X n now inp inps w)
  have "outcome_all UNIV (\<lambda>w. bounded m (pool w)) (\<lambda>w. bounded m (pool w))
      (chandle (at_time X now) (cuser_cb (at_time X now) (limited m u) n) inp w)"
  proof (cases "\<exists>a. inp = ClientCall a")
    case True
    then show ?thesis
      using 2(4,5) exec_ccmd_bounded [OF bounded_pool.pool_kept_axioms] by auto
  next
    case False
    then show ?thesis using 2(4) by (intro bounded_pool.chandle_kept) auto
  qed
  then show ?case
    using 2 by (auto split: if_splits outcome.splits)
qed simp

text \<open>
  C32: As long as nobody raises the limit on connections above \<open>m\<close>, from the creation of the pool and
  through all events and all callbacks, the pool never has more than \<open>m\<close> connections to one location
  (but always at least one: a limit of 0 works as a limit of 1).
\<close>

theorem connections_bounded:
  assumes "timed_run X (limited m u) n inps (new_cworld m t j) = Some w"
    and "list_all (\<lambda>(now, inp). \<forall>a. inp = ClientCall a \<longrightarrow> \<not> raises m a) inps"
    and "entry w nl = Some L"
  shows "length (nl_free L) + length (nl_busy L) \<le> max 1 (unat m)"
proof -
  have "bounded m (pool (new_cworld m t j))"
    by (simp add: bounded_def new_cworld_def new_pool_def Pool_idle_timeout_def)
  then show ?thesis
    using bounded_entry [OF timed_run_bounded [OF assms(1) _ assms(2)] assms(3)] by simp
qed

theorem connections_bounded_witness:
  "\<exists>w L. timed_run demo_cext (limited 1 quiet_user) 1 (map (Pair 5000) (take 6 demo_cinputs))
      (new_cworld 1 60000 '''') = Some w \<and>
    entry w (Request_netloc demo_cext (demo_request ''a'')) = Some L \<and>
    length (nl_free L) + length (nl_busy L) \<le> max 1 (unat (1 :: u32))"
proof -
  let ?run = "timed_run demo_cext (limited 1 quiet_user) 1 (map (Pair 5000) (take 6 demo_cinputs))
      (new_cworld 1 60000 '''')"
  have "\<exists>w. ?run = Some w \<and> entry w (Request_netloc demo_cext (demo_request ''a'')) =
      Some \<lparr>nl_free = [], nl_busy = [0], nl_queue = [1], nl_version = 1\<rparr>"
    by (simp add: limited_def without_def demo_at_time cdemo_eval at_time_def)
  then obtain w L where "?run = Some w" "entry w (Request_netloc demo_cext (demo_request ''a'')) = Some L"
    by blast
  moreover from connections_bounded [OF this(1) _ this(2)]
  have "length (nl_free L) + length (nl_busy L) \<le> max 1 (unat (1 :: u32))"
    by (simp add: demo_cinputs_def raises_def)
  ultimately show ?thesis by blast
qed

end
