(* ===== verification/Answers.thy ===== *)
theory Answers
  imports PoolBounds
begin

text \<open>
  One answer for each request. The tally of a request counts its response events, and one more while
  the request is given to a client or waits in the pool; nothing changes it but a new submission, as
  long as no exception leaves a callback.
\<close>

section \<open>The tally\<close>

definition answered :: "crid \<Rightarrow> cevent \<Rightarrow> bool" where
  "answered r ev = (case ev of ResponseEvent q p err \<Rightarrow> q = r | _ \<Rightarrow> False)"

definition answers :: "crid \<Rightarrow> cworld \<Rightarrow> nat" where
  "answers r w = length (filter (answered r) (cevents w))"

definition given :: "cworld \<Rightarrow> crid set" where
  "given w = {q. cq_client (creq w q) \<noteq> None \<or> \<not> nowhere w q}"

definition tally :: "crid \<Rightarrow> cworld \<Rightarrow> nat" where
  "tally r w = answers r w + of_bool (r \<in> given w)"

lemma tally_cong:
  "cevents w' = cevents w \<Longrightarrow> given w' = given w \<Longrightarrow> tally r w' = tally r w"
  by (simp add: tally_def answers_def)

lemma given_cong:
  assumes "pool w' = pool w" and "\<And>q. cq_client (creq w' q) = cq_client (creq w q)"
  shows "given w' = given w"
  using assms nowhere_cong [OF assms(1)] by (simp add: given_def)

lemma given_upd [simp]:
  "given (upd_client c f w) = given w" "given (w\<lparr>cevents := es\<rparr>) = given w"
  "(\<And>q. cq_client (g q) = cq_client q) \<Longrightarrow> given (upd_creq r g w) = given w"
  by (rule given_cong; simp)+

lemma given_tcp [simp]:
  "given (tcp_reset c w) = given w" "given (tcp_weak c b w) = given w"
  by (rule given_cong; simp)+

lemma tally_upd [simp]:
  "tally r (upd_client c f w) = tally r w"
  "(\<And>q. cq_client (g q) = cq_client q) \<Longrightarrow> tally r (upd_creq q g w) = tally r w"
  by (rule tally_cong; simp)+

lemma tally_event:
  "tally r (w\<lparr>cevents := cevents w @ [ev]\<rparr>) = tally r w + of_bool (answered r ev)"
  by (simp add: tally_def answers_def)

section \<open>Operations that call nothing back\<close>

text \<open>Inside \<^verbatim>\<open>Client::request\<close>, once the client has claimed the request.\<close>

definition same_private :: "crequest \<Rightarrow> crequest \<Rightarrow> bool" where
  "same_private q q' \<longleftrightarrow>
     cq_client q' = cq_client q \<and> cq_timer q' = cq_timer q \<and> cq_timeout q' = cq_timeout q"

lemma same_private_refl [simp]: "same_private q q"
  by (simp add: same_private_def)

lemma same_private_trans: "same_private a b \<Longrightarrow> same_private b c \<Longrightarrow> same_private a c"
  by (simp add: same_private_def)

abbreviation keeps :: "clid \<Rightarrow> crid \<Rightarrow> cworld \<Rightarrow> cworld outcome \<Rightarrow> bool" where
  "keeps c r w out \<equiv>
     outcome_all UNIV (\<lambda>w'. only c r w w' \<and> same_private (creq w r) (creq w' r))
       (\<lambda>w'. only c r w w' \<and> same_private (creq w r) (creq w' r)) out"

lemma keeps_trans: "keeps c r w' out \<Longrightarrow> keeps c r w (Done w') \<Longrightarrow> keeps c r w out"
  by (erule post_mono) (auto intro: only_trans same_private_trans)

lemma keeps_run:
  assumes "\<And>f w. f \<in> set fs \<Longrightarrow> keeps c r w (f w)"
  shows "keeps c r w (run fs w)"
proof (rule post_run_inv)
  fix f v assume "f \<in> set fs" "only c r w v \<and> same_private (creq w r) (creq v r)"
  then show "keeps c r w (f v)" using keeps_trans [OF assms [of f v]] by simp
qed simp

lemma keeps_when: "(\<And>w. keeps c r w (f w)) \<Longrightarrow> keeps c r w (when_step b f w)"
  by (simp add: when_step_def)

lemma start_item_keeps: "keeps c r w (Done (snd (start_item c r k x w)))"
  by (cases x) (simp_all add: set_item_def same_private_def)

lemma form_loop_keeps: "keeps c r w (form_loop c r n w)"
proof (induction n arbitrary: w)
  case (Suc n)
  have "keeps c r w (form_loop c r n (upd_client c f (snd (start_item c r k x w))))" for f k x
    by (rule keeps_trans [OF Suc]) (use start_item_keeps in simp)
  then show ?case using start_item_keeps by (simp add: Let_def split_beta)
qed simp

lemma send_form_keeps: "cl_request (client w c) = Some r \<Longrightarrow> keeps c r w (send_form c w)"
proof -
  have "keeps c r w (run [form_loop c r n, pure_step (form_end c r)] w)" for n
    by (rule keeps_run) (auto simp: form_loop_keeps form_end_def, simp add: same_private_def)
  then show "cl_request (client w c) = Some r \<Longrightarrow> ?thesis" by (simp add: send_form_def)
qed

lemma open_connection_keeps: "keeps c r w (open_connection X c r w)"
  unfolding open_connection_def
  by (rule keeps_run)
    (auto simp: use_ssl_def use_proxy_def clear_filters_def drop_connection_def start_connect_def
      Let_def split: option.split sum.split)

lemma send_body_keeps: "cl_request (client w c) = Some r \<Longrightarrow> keeps c r w (send_body c r w)"
  using keeps_trans [OF send_form_keeps [of "upd_client c (\<lambda>k. k\<lparr>cl_form_field := 0\<rparr>) w" c r], of w]
  by (simp add: send_body_def same_private_def)

text \<open>What an operation that calls nothing back makes of the given requests.\<close>

abbreviation gives :: "cworld \<Rightarrow> crid set \<Rightarrow> cworld outcome \<Rightarrow> bool" where
  "gives w G out \<equiv>
     outcome_all UNIV (\<lambda>w'. cevents w' = cevents w \<and> given w' = G) (\<lambda>_. True) out"

lemma Client_request_keeps:
  assumes "\<And>w1 out. keeps c r (upd_creq r ensure_timer_active w1) out \<Longrightarrow>
    only c r w w1 \<Longrightarrow> cq_client (creq w1 r) = Some c \<Longrightarrow> outcome_all UNIV Q (\<lambda>_. True) out"
  shows "outcome_all UNIV Q (\<lambda>_. True) (Client_request X c r w)"
proof -
  define w0 where "w0 = upd_creq r (claim_request c) w"
  have steps: "outcome_all UNIV Q (\<lambda>_. True) (run [when_step (needs_connect X c r) (open_connection X c r),
      pure_step (upd_creq r ensure_timer_active), pure_step (tcp_weak c False),
      pure_step (upd_client c (\<lambda>k. k\<lparr>cl_request := Some r\<rparr>)), pure_step (upd_creq r (allow_compression X)),
      pure_step (write_request c r), send_body c r] w0)"
  proof (rule post_run_Cons, rule post_mono [OF keeps_when [OF open_connection_keeps]])
    fix v assume v: "only c r w0 v \<and> same_private (creq w0 r) (creq v r)"
    define v1 where "v1 = upd_creq r ensure_timer_active v"
    define v2 where "v2 = write_request c r (upd_creq r (allow_compression X)
      (upd_client c (\<lambda>k. k\<lparr>cl_request := Some r\<rparr>) (tcp_weak c False v1)))"
    have "keeps c r v1 (Done v2)"
      by (simp add: v2_def write_request_def allow_compression_def same_private_def)
    moreover have "cl_request (client v2 c) = Some r" by (simp add: v2_def write_request_def)
    ultimately have "keeps c r v1 (run [send_body c r] v2)"
      unfolding post_run_single by (intro keeps_trans [OF send_body_keeps])
    moreover have "only c r w v" "cq_client (creq v r) = Some c"
      using v by (simp_all add: w0_def only_def same_private_def claim_request_def)
    ultimately have "outcome_all UNIV Q (\<lambda>_. True) (run [send_body c r] v2)"
      using assms [of v] unfolding v1_def by blast
    then show "outcome_all UNIV Q (\<lambda>_. True) (run [pure_step (upd_creq r ensure_timer_active),
        pure_step (tcp_weak c False), pure_step (upd_client c (\<lambda>k. k\<lparr>cl_request := Some r\<rparr>)),
        pure_step (upd_creq r (allow_compression X)), pure_step (write_request c r), send_body c r] v)"
      by (simp only: run.simps(2) pure_step_apply outcome.case v2_def v1_def)
  qed simp_all
  then show ?thesis
    by (simp add: Client_request_def w0_def split: option.split)
qed

lemma Client_request_gives: "gives w (insert r (given w)) (Client_request X c r w)"
proof (rule Client_request_keeps)
  fix w1 out
  assume out: "keeps c r (upd_creq r ensure_timer_active w1) out" and w1: "only c r w w1"
    "cq_client (creq w1 r) = Some c"
  show "gives w (insert r (given w)) out"
  proof (rule post_mono [OF out])
    fix w' assume w': "only c r (upd_creq r ensure_timer_active w1) w' \<and>
      same_private (creq (upd_creq r ensure_timer_active w1) r) (creq w' r)"
    have "given w' = insert r (given w)"
    proof (rule set_eqI)
      fix q
      show "q \<in> given w' \<longleftrightarrow> q \<in> insert r (given w)"
        using w' w1 nowhere_cong [of w' w]
        by (cases "q = r") (auto simp: given_def only_def same_private_def ensure_timer_active_def)
    qed
    then show "cevents w' = cevents w \<and> given w' = insert r (given w)"
      using w' w1 by (simp add: only_def)
  qed simp_all
qed

text \<open>The queues of the pool.\<close>

definition elsewhere :: "netloc \<Rightarrow> cworld \<Rightarrow> crid \<Rightarrow> bool" where
  "elsewhere nl w q \<longleftrightarrow> (\<exists>nl' L. nl' \<noteq> nl \<and> entry w nl' = Some L \<and> q \<in> set (nl_queue L))"

lemma not_nowhere:
  "\<not> nowhere w q \<longleftrightarrow> elsewhere nl w q \<or> (\<exists>L. entry w nl = Some L \<and> q \<in> set (nl_queue L))"
  unfolding nowhere_def elsewhere_def by metis

lemma elsewhere_set_entry [simp]: "elsewhere nl (set_entry nl L w) q = elsewhere nl w q"
  by (auto simp: elsewhere_def)

lemma given_set_entry:
  "given (set_entry nl L w) = {q. cq_client (creq w q) \<noteq> None \<or> elsewhere nl w q \<or> q \<in> set (nl_queue L)}"
  by (simp add: given_def not_nowhere [of _ _ nl])

lemma given_at:
  "given w = {q. cq_client (creq w q) \<noteq> None \<or> elsewhere nl w q \<or>
     (\<exists>L. entry w nl = Some L \<and> q \<in> set (nl_queue L))}"
  by (simp add: given_def not_nowhere [of _ _ nl])

lemma given_new_queue:
  assumes "(case entry w nl of None \<Rightarrow> [] | Some L \<Rightarrow> nl_queue L) = nl_queue L'"
  shows "given (set_entry nl L' w) = given w"
  using assms by (auto simp: given_set_entry given_at [of w nl] split: option.splits)

lemma Pool_pick_gives:
  "case Pool_pick X r w of
     (None, w') \<Rightarrow> cevents w' = cevents w \<and> given w' = insert r (given w)
   | (Some c, w') \<Rightarrow> cevents w' = cevents w \<and> given w' = given w"
proof -
  let ?nl = "Request_netloc X (creq w r)"
  have new: "cevents (snd (make_client w)) = cevents w" "pool (snd (make_client w)) = pool w"
    "creq (snd (make_client w)) = creq w"
    by (simp_all add: make_client_def)
  then have "given (snd (make_client w)) = given w" by (intro given_cong) simp_all
  note new = new this
  have ensure: "given (upd_creq r ensure_timer_active v) = given v" for v
    by (simp add: ensure_timer_active_def)
  have kept: "given (set_entry ?nl L' w) = given w" "given (set_entry ?nl L' (snd (make_client w))) = given w"
    if "(case entry w ?nl of None \<Rightarrow> [] | Some L \<Rightarrow> nl_queue L) = nl_queue L'" for L'
    using given_new_queue [of w ?nl L'] given_new_queue [of "snd (make_client w)" ?nl L'] that new by simp_all
  show ?thesis
  proof (cases "entry w ?nl")
    case None
    then show ?thesis using kept(2) new by (simp add: Pool_pick_def Let_def split_beta)
  next
    case (Some L)
    have "given (set_entry ?nl (L\<lparr>nl_queue := nl_queue L @ [r], nl_version := v\<rparr>) w) = insert r (given w)" for v
      using Some by (auto simp: given_set_entry given_at [of w ?nl])
    then show ?thesis
      using Some kept new
      by (cases "nl_free L") (simp_all add: Pool_pick_def Let_def ensure split_beta del: remove1.simps)
  qed
qed

lemma Pool_request_gives: "gives w (insert r (given w)) (Pool_request X r w)"
proof -
  define w1 where "w1 = upd_creq r (\<lambda>q. q\<lparr>cq_pool := True\<rparr>) w"
  obtain cc w2 where p: "Pool_pick X r w1 = (cc, w2)" by fastforce
  have w1: "given w1 = given w" "cevents w1 = cevents w" by (simp_all add: w1_def)
  show ?thesis
    using Pool_pick_gives [where X = X and r = r and w = w1] Client_request_gives [where w = w2 and r = r and X = X] p w1
    by (auto simp: Pool_request_def w1_def [symmetric] split: option.splits)
qed

lemma Pool_putback_gives: "gives w (given w) (Pool_putback X c w)"
proof -
  let ?nl = "cl_netloc (client w c)"
  show ?thesis
  proof (cases "entry w ?nl")
    case None
    then show ?thesis by (simp add: Pool_putback_def)
  next
    case (Some L)
    show ?thesis
    proof (cases "nl_queue L")
      case Nil
      then show ?thesis
        using Some given_new_queue [of w ?nl] by (simp add: Pool_putback_def Let_def)
    next
      case (Cons q qs)
      define w1 where "w1 = set_entry ?nl (L\<lparr>nl_queue := qs, nl_version := Suc (nl_version L)\<rparr>) w"
      have "insert q (given w1) = given w" "cevents w1 = cevents w"
        using Some Cons by (auto simp: w1_def given_set_entry given_at [of w ?nl])
      then show ?thesis
        using Some Cons Client_request_gives [where w = w1 and r = q and X = X and c = c] by (simp add: Pool_putback_def Let_def w1_def)
    qed
  qed
qed

text \<open>
  A redirect that is followed: the request is cleaned up and leaves its client; then it is given again,
  through the pool or to the same client.
\<close>

lemma follow_redirect_gives:
  assumes r: "cl_request (client w c) = Some r" and "r \<in> given w"
  shows "gives w (given w) (follow_redirect X c w)"
proof (cases "cl_response (client w c)")
  case None
  then show ?thesis using r by (simp add: follow_redirect_def)
next
  case (Some p)
  define w1 where "w1 = redirect_left c r p w"
  have "q \<in> insert r (given w1) \<longleftrightarrow> q \<in> given w" for q
    using assms(2) nowhere_cong [of w1 w]
    by (cases "q = r") (simp_all add: given_def w1_def redirect_left_def)
  then have w1: "insert r (given w1) = given w" "cevents w1 = cevents w"
    by (auto simp: w1_def redirect_left_def)
  have "gives w (given w) (redirect_through_pool X c r w1)"
    unfolding redirect_through_pool_def
  proof (rule post_run_pure, rule post_run_Cons, rule Pool_putback_gives)
    fix w2 assume w2: "cevents w2 = cevents (upd_client c (\<lambda>k. k\<lparr>cl_last_activity := cx_now X\<rparr>) w1) \<and>
      given w2 = given (upd_client c (\<lambda>k. k\<lparr>cl_last_activity := cx_now X\<rparr>) w1)"
    show "gives w (given w) (run [pure_step (tcp_weak c True), Pool_request X r] w2)"
      by (rule post_run_pure, unfold post_run_single)
        (use Pool_request_gives [where w = "tcp_weak c True w2" and r = r and X = X] w2 w1 in simp)
  qed
  moreover have "gives w (given w) (Client_request X c r w1)"
    using Client_request_gives [where w = w1 and r = r and X = X and c = c] w1 by simp
  ultimately show ?thesis by (simp add: follow_redirect_run [OF r Some] w1_def)
qed

section \<open>The interface\<close>

abbreviation tallied :: "cext \<Rightarrow> frame \<Rightarrow> crid \<Rightarrow> nat \<Rightarrow> cworld outcome \<Rightarrow> bool" where
  "tallied X K r n out \<equiv> outcome_all UNIV (\<lambda>w. cinv X K w \<and> tally r w = n) (\<lambda>_. True) out"

lemma tally_finished:
  assumes "nowhere w q" and "q \<in> given w"
  shows "tally r (upd_creq q finished_request w) + of_bool (q = r) = tally r w"
proof -
  have "given (upd_creq q finished_request w) = given w - {q}"
    using assms(1) by (auto simp: given_def nowhere_def finished_request_def cleanup_after_redirect_def
        split: if_splits)
  then show ?thesis using assms(2) by (auto simp: tally_def answers_def)
qed

lemma tally_finished_queued:
  assumes "\<not> nowhere w q"
  shows "tally r (upd_creq q finished_request w) = tally r w"
proof -
  have "given (upd_creq q finished_request w) = given w"
    using assms by (auto simp: given_def nowhere_def finished_request_def cleanup_after_redirect_def
        split: if_splits)
  then show ?thesis by (simp add: tally_def answers_def)
qed

locale answer_contract = client_contract +
  fixes r :: crid
  assumes cb_tally: "cinv X K w \<Longrightarrow>
    outcome_all UNIV (\<lambda>w'. tally r w' = tally r w) (\<lambda>_. True) (cb ev w)"
begin

lemma with_inv:
  assumes "outcome_all D (cinv X K) (cinv X K) out" and "outcome_all UNIV (\<lambda>w. tally r w = n) (\<lambda>_. True) out"
  shows "tallied X K r n out"
  using assms by (cases out) simp_all

lemma fire_tally:
  assumes "cinv X K w"
  shows "tallied X K r (tally r w + of_bool (answered r ev)) (cfire cb ev w)"
proof (rule with_inv [OF cfire_inv [OF assms]])
  show "outcome_all UNIV (\<lambda>v. tally r v = tally r w + of_bool (answered r ev)) (\<lambda>_. True) (cfire cb ev w)"
    using cb_tally [of K "w\<lparr>cevents := cevents w @ [ev]\<rparr>" ev] assms
    by (simp add: cfire_def tally_event)
qed

lemma notify_tally:
  assumes "cinv X K (upd_creq q finished_request w)"
  shows "tallied X K r (tally r (upd_creq q finished_request w) + of_bool (q = r))
    (finish_and_notify cb q res err w)"
proof -
  define p where "p = (case res of None \<Rightarrow> empty_response | Some p \<Rightarrow> p)"
  have part: "tallied X K r (tally r v) (cfire cb (PartEvent q p err) v)" if "cinv X K v" for v
    using fire_tally [OF that, of "PartEvent q p err"] by (simp add: answered_def)
  have resp: "tallied X K r (tally r v + of_bool (q = r)) (cfire cb (ResponseEvent q p err) v)"
    if "cinv X K v" for v
    using fire_tally [OF that, of "ResponseEvent q p err"] by (simp add: answered_def)
  show ?thesis
    unfolding finish_and_notify_def Let_def p_def [symmetric]
    by (rule post_run_pure, rule post_run_Cons, rule part [OF assms], unfold post_run_single)
      (use resp in metis)
qed

lemma finish_request_tally:
  assumes "cinv X K w" and "cl_request (client w c) = Some q" and "cl_ctx (client w c) = None"
    and "fst K c = None \<or> cl_redirect_canceled (client w c)"
    and "err \<noteq> NoError \<or> cl_response (client w c) \<noteq> None"
  shows "tallied X K r (tally r w) (finish_request X cb c err w)"
proof -
  obtain w1 w2 p e kept where run: "finish_request X cb c err w = finish_and_notify cb q p e w2"
    and w1: "gave_up X K c q kept w w1" and w2: "w2 = w1 \<or> Pool_putback X c w1 = Done w2" "nowhere w2 q"
    and inv2: "cinv X K (upd_creq q finished_request w2)"
    using finish_request_ready [OF assms] finished_inv by blast
  have same1: "given w1 = given w" "cevents w1 = cevents w"
    by (rule given_cong) (use w1 in \<open>simp_all add: gave_up_def\<close>)
  moreover have same2: "given w2 = given w1" "cevents w2 = cevents w1"
    using w2(1) Pool_putback_gives [where w = w1 and X = X and c = c] by auto
  moreover have "q \<in> given w"
    using core_linked [OF cinv_core [OF assms(1)], of c q] assms(2) by (simp add: given_def)
  ultimately have "tally r (upd_creq q finished_request w2) + of_bool (q = r) = tally r w"
    using tally_finished [OF w2(2), of r] tally_cong [of w2 w r] by simp
  then show ?thesis
    using notify_tally [OF inv2] by (simp add: run)
qed

lemma Client_cancel_tally:
  assumes inv: "cinv X K w" and err: "err \<noteq> NoError"
  shows "tallied X K r (tally r w) (Client_cancel X cb c err w)"
proof (cases "cl_request (client w c)")
  case None
  then show ?thesis using inv by (simp add: Client_cancel_def)
next
  case (Some q)
  obtain w1 where w1: "Client_cancel X cb c err w = finish_request X cb c err w1" "cinv X K w1"
    "cl_request (client w1 c) = Some q" "cl_ctx (client w1 c) = None"
    "fst K c = None \<or> cl_redirect_canceled (client w1 c)"
    "creq w1 = creq w" "pool w1 = pool w" "cevents w1 = cevents w"
    using Client_cancel_starts [OF inv Some err] by blast
  have "tally r w1 = tally r w"
    using w1 by (intro tally_cong given_cong) simp_all
  then show ?thesis
    using finish_request_tally [OF w1(2-5), of err] err by (simp add: w1(1))
qed

lemma Pool_cancel_tally:
  assumes inv: "cinv X K w" and q: "cq_client (creq w q) = None" "cq_pool (creq w q)"
  shows "tallied X K r (tally r w) (Pool_cancel_request X cb q err w)"
proof -
  let ?nl = "Request_netloc X (creq w q)"
  obtain L K' where L: "entry w ?nl = Some L" "q \<in> set (nl_queue L)"
    and K': "K' = (fst K, insert (?nl, nl_version L, q) (snd K))"
    and inv1: "cinv X K' (upd_creq q finished_request w)"
    using Pool_cancel_frame [OF assms] by blast
  have "\<not> nowhere w q" using L by (auto simp: nowhere_def)
  then have told: "tallied X K' r (tally r w + of_bool (q = r)) (finish_and_notify cb q None err w)"
    using notify_tally [OF inv1, of None err] by (simp add: tally_finished_queued)
  have erase: "outcome_all UNIV (\<lambda>v. tally r v = tally r w) (\<lambda>_. True) (erase_queued ?nl (nl_version L) q w2)"
    if w2: "cinv X K' w2 \<and> tally r w2 = tally r w + of_bool (q = r)" for w2
  proof -
    obtain L2 where L2: "entry w2 ?nl = Some L2"
      "nl_version L2 = nl_version L \<Longrightarrow> q \<in> set (nl_queue L2)"
      using w2 by (auto simp: cinv_def control_def K' window_def)
    show ?thesis
    proof (cases "nl_version L2 = nl_version L")
      case True
      define w3 where "w3 = set_entry ?nl (L2\<lparr>nl_queue := remove1 q (nl_queue L2),
        nl_version := Suc (nl_version L2)\<rparr>) w2"
      have core: "core X (curA w2) (curN w2) (curE w2) (curP w2) w2"
        using w2 cinv_core by blast
      have mem: "q \<in> set (nl_queue L2)" by (rule L2(2) [OF True])
      have alone: "cq_client (creq w2 q) = None" "\<not> elsewhere ?nl w2 q" "distinct (nl_queue L2)"
        using core_queue_unique [OF core L2(1) mem] core_queue_unique [OF core, of _ _ q]
          core_entry [OF core L2(1)]
        by (auto simp: elsewhere_def entry_ok_def)
      then have "given w3 = given w2 - {q}" "q \<in> given w2" "cevents w3 = cevents w2"
        using L2(1) mem by (auto simp: w3_def given_set_entry given_at [of w2 ?nl])
      then have "tally r w3 + of_bool (q = r) = tally r w2"
        by (auto simp: tally_def answers_def)
      then show ?thesis
        using w2 L2(1) True by (simp add: erase_queued_def w3_def)
    next
      case False
      then show ?thesis using L2(1) by (simp add: erase_queued_def)
    qed
  qed
  have "outcome_all UNIV (\<lambda>v. tally r v = tally r w) (\<lambda>_. True)
      (run [finish_and_notify cb q None err, erase_queued ?nl (nl_version L) q] w)"
    by (rule post_run_Cons, rule told, unfold post_run_single) (rule erase)
  then show ?thesis
    using L by (intro with_inv [OF Pool_cancel_inv [OF assms]]) (simp add: Pool_cancel_request_def Let_def)
qed

lemma Request_cancel_tally:
  "cinv X K w \<Longrightarrow> err \<noteq> NoError \<Longrightarrow> tallied X K r (tally r w) (Request_cancel X cb q err w)"
  by (auto simp: Request_cancel_def Client_cancel_tally Pool_cancel_tally split: option.split)

lemma Request_on_timer_tally:
  "cinv X K w \<Longrightarrow> tallied X K r (tally r w) (Request_on_timer X cb q w)"
  by (auto simp: Request_on_timer_def Client_timed_out_def timed_out_error_def Client_cancel_tally
      Pool_cancel_tally split: option.split)

section \<open>Redirects and answers\<close>

lemma fire_redirect_tally:
  assumes "cinv X K w" and "cl_request (client w c) = Some q" and "cl_response (client w c) = Some p"
    and "cl_ctx (client w c) = None" and "fst K c = None" and "\<not> answered r ev"
  shows "outcome_all UNIV (\<lambda>w'. tally r w' = tally r w) (\<lambda>_. True) (fire_redirect X cb c ev w)"
proof -
  have "outcome_all UNIV (\<lambda>w'. tally r w' = tally r w) (\<lambda>_. True)
      (cfire cb ev (upd_client c (\<lambda>k. k\<lparr>cl_in_redirect := True\<rparr>) w))"
    by (rule post_mono [OF fire_tally [OF redirect_frame [OF assms(1-5)]]]) (use assms(6) in simp_all)
  then show ?thesis
    unfolding fire_redirect_def by (auto split: outcome.split)
qed

lemma redirect_to_tally:
  assumes inv: "cinv X K w" and q: "cl_request (client w c) = Some q" and p: "cl_response (client w c) = Some p"
    and ctx: "cl_ctx (client w c) = None" and frame: "fst K c = None"
  shows "tallied X K r (tally r w) (redirect_to X cb c q p w)"
proof (rule with_inv [OF redirect_to_inv [OF assms]])
  define u where "u = redirect_target X (the (cq_uri (creq w q))) (rp_location p)"
  define w1 where "w1 = upd_creq q (redirected u) w"
  define ev where "ev = RedirectEvent q p (redirect_ctx_of (creq w q))"
  have inv1: "cinv X K w1" unfolding w1_def by (rule redirected_inv [OF inv q u_def])
  have c1: "cl_request (client w1 c) = Some q" "cl_response (client w1 c) = Some p" "cl_ctx (client w1 c) = None"
    using q p ctx by (simp_all add: w1_def)
  have t1: "tally r w1 = tally r w" by (simp add: w1_def redirected_def)
  let ?step = "\<lambda>w. if cl_redirect_canceled (client w c)
      then Done (upd_client c (\<lambda>k. k\<lparr>cl_redirect_canceled := False\<rparr>) w) else follow_redirect X c w"
  have fired: "outcome_all UNIV (\<lambda>w'. tally r w' = tally r w \<and> (cl_redirect_canceled (client w' c) \<or>
      cinv X K w' \<and> cl_request (client w' c) = Some q)) (\<lambda>_. True) (fire_redirect X cb c ev w1)"
    using fire_redirect_inv [OF inv1 c1 frame, of ev] fire_redirect_tally [OF inv1 c1 frame, of ev]
    by (cases "fire_redirect X cb c ev w1") (auto simp: t1 ev_def answered_def)
  have "outcome_all UNIV (\<lambda>w'. tally r w' = tally r w) (\<lambda>_. True) (run [fire_redirect X cb c ev, ?step] w1)"
  proof (rule post_run_Cons, rule fired, unfold post_run_single)
    fix w'
    assume w': "tally r w' = tally r w \<and> (cl_redirect_canceled (client w' c) \<or>
      cinv X K w' \<and> cl_request (client w' c) = Some q)"
    have "outcome_all UNIV (\<lambda>v. tally r v = tally r w) (\<lambda>_. True) (follow_redirect X c w')"
      if "cinv X K w'" "cl_request (client w' c) = Some q"
    proof -
      have "q \<in> given w'"
        using core_linked [OF cinv_core [OF that(1)], of c q] that(2) by (simp add: given_def)
      from follow_redirect_gives [OF that(2) this, of X] show ?thesis
        by (rule post_mono) (use w' in \<open>auto simp: tally_def answers_def\<close>)
    qed
    then show "outcome_all UNIV (\<lambda>v. tally r v = tally r w) (\<lambda>_. True) (?step w')"
      using w' by auto
  qed
  then show "outcome_all UNIV (\<lambda>v. tally r v = tally r w) (\<lambda>_. True) (redirect_to X cb c q p w)"
    by (simp add: redirect_to_def Let_def redirect_ctx_of_def w1_def u_def ev_def)
qed

lemma redirect_request_tally:
  assumes inv: "cinv X K w" and q: "cl_request (client w c) = Some q" and p: "cl_response (client w c) = Some p"
    and ctx: "cl_ctx (client w c) = None" and frame: "fst K c = None"
  shows "tallied X K r (tally r w) (redirect_request X cb c q p w)"
proof -
  define w1 where "w1 = upd_creq q (\<lambda>q. q\<lparr>cq_counter := cq_counter q + 1\<rparr>) w"
  have inv1: "cinv X K w1" unfolding w1_def by (rule counted_inv [OF inv])
  have w1: "tally r w1 = tally r w" "cl_request (client w1 c) = Some q" "cl_response (client w1 c) = Some p"
    "cl_ctx (client w1 c) = None"
    using q p ctx by (simp_all add: w1_def)
  show ?thesis
    using redirect_to_tally [OF inv1 w1(2-4) frame] Client_cancel_tally [OF inv1, of _ c]
      Client_cancel_tally [OF inv, of _ c] w1(1)
    by (simp add: redirect_request_def Let_def w1_def [symmetric])
qed

lemma analyze_request_tally:
  assumes inv: "cinv X K w" and q: "cl_request (client w c) = Some q" and p: "cl_response (client w c) = Some p"
    and ctx: "rp_code p \<noteq> 100 \<longrightarrow> cl_ctx (client w c) = None" and frame: "fst K c = None"
  shows "tallied X K r (tally r w) (analyze_request X cb c w)"
proof (cases "rp_code p = 100")
  case True
  have told: "tallied X K r (tally r w) (cfire cb (ContinueEvent q) w)"
    using fire_tally [OF inv, of "ContinueEvent q"] by (simp add: answered_def)
  have "tallied X K r (tally r w)
      (run [cfire cb (ContinueEvent q), pure_step (upd_client c (\<lambda>k. k\<lparr>cl_response := None\<rparr>))] w)"
    by (rule post_run_Cons, rule told) (simp add: forget_response_inv frame)
  then show ?thesis using q p True by (simp add: analyze_request_def)
next
  case False
  then show ?thesis
    using q p ctx redirect_request_tally [OF inv q p _ frame] finish_request_tally [OF inv q, of NoError] frame
    by (simp add: analyze_request_def)
qed

lemma response_loop_tally:
  assumes "cinv X K w" and "fst K c = None" and "list_all context_law ps" and "c < next_clid w \<or> ps = []"
  shows "tallied X K r (tally r w) (response_loop X cb c ps w)"
proof (rule response_loop_post [where I = "\<lambda>v. cinv X K v \<and> tally r v = tally r w", OF _ assms(2-4)])
  fix v q p assume "cinv X K v \<and> tally r v = tally r w"
  then show "tallied X K r (tally r w) (cfire cb (PartEvent q p NoError) v)"
    using fire_tally [of K v "PartEvent q p NoError"] by (simp add: answered_def)
next
  fix v err assume "cinv X K v \<and> tally r v = tally r w" "err \<noteq> NoError"
  then show "tallied X K r (tally r w) (Client_cancel X cb c err v)"
    using Client_cancel_tally [of K v err c] by simp
next
  fix v q p
  assume v: "cinv X K v \<and> tally r v = tally r w" "cl_request (client v c) = Some q"
    "cl_response (client v c) = Some p" "rp_code p \<noteq> 100 \<longrightarrow> cl_ctx (client v c) = None"
  show "tallied X K r (tally r w) (analyze_request X cb c v)"
    using analyze_request_tally [OF _ v(2-4) assms(2)] v(1) by simp
qed (use assms(1) in \<open>simp_all add: tcp_reset_def take_response_def\<close>)

lemma Client_on_eof_tally:
  assumes inv: "cinv X K w" and frame: "fst K c = None" and lt: "c < next_clid w"
    and law: "rp_code (rr_response p) \<noteq> 100 \<longrightarrow> \<not> rr_context p"
  shows "tallied X K r (tally r w) (Client_on_eof X cb c p w)"
proof (cases "cl_request (client w c)")
  case None
  then show ?thesis
    using drop_connection_inv [OF inv lt] by (simp add: Client_on_eof_def tcp_reset_def)
next
  case (Some q)
  define w1 where "w1 = upd_client c (\<lambda>k. k\<lparr>cl_response := Some ((rr_response p)\<lparr>rp_done := True\<rparr>),
    cl_ctx := (if rr_context p then cl_ctx k else None)\<rparr>) w"
  have inv1: "cinv X K w1" unfolding w1_def by (rule received_inv [OF inv frame lt Some])
  have "tallied X K r (tally r w1) (analyze_request X cb c w1)"
    by (rule analyze_request_tally [OF inv1]) (use Some law frame in \<open>auto simp: w1_def\<close>)
  moreover have "tally r w1 = tally r w" by (simp add: w1_def)
  ultimately show ?thesis
    using Some Client_cancel_tally [OF inv1] by (simp add: Client_on_eof_def w1_def [symmetric] Let_def)
qed

end

section \<open>Calls and events\<close>

fun submits :: "crid \<Rightarrow> ccmd \<Rightarrow> bool" where
  "submits r (SubmitPool q) = (q = r)"
| "submits r (SubmitClient c q) = (q = r)"
| "submits r a = False"

lemma given_pool: "p_entries p = p_entries (pool w) \<Longrightarrow> given (w\<lparr>pool := p\<rparr>) = given w"
  by (simp add: given_def nowhere_def)

lemma tally_pool: "p_entries p = p_entries (pool w) \<Longrightarrow> tally r (w\<lparr>pool := p\<rparr>) = tally r w"
  by (rule tally_cong) (simp_all add: given_pool)

lemma tally_write: "tally r (tcp_write c x w) = tally r w"
  by (simp add: tcp_write_def)

lemma tally_gives:
  assumes "gives w (insert q (given w)) out" and "q \<noteq> r"
  shows "outcome_all UNIV (\<lambda>w'. tally r w' = tally r w) (\<lambda>_. True) out"
  by (rule post_mono [OF assms(1)]) (use assms(2) in \<open>auto simp: tally_def answers_def\<close>)

context answer_contract
begin

lemma exec_ccmd_tally:
  assumes inv: "cinv X K w" and a: "cpermitted w a" "\<not> submits r a"
  shows "tallied X K r (tally r w) (exec_ccmd X cb a w)"
proof (rule with_inv [OF exec_ccmd_inv [OF inv a(1)]])
  have chunk: "outcome_all UNIV (\<lambda>w'. tally r w' = tally r w) (\<lambda>_. True) (Request_send_chunk q x w)"
    "outcome_all UNIV (\<lambda>w'. tally r w' = tally r w) (\<lambda>_. True) (Request_send_final_chunk q x w)" for q x
    by (simp_all add: Request_send_chunk_def Request_send_final_chunk_def Client_send_chunk_def
        Client_send_final_chunk_def tally_write split: option.split)
  have "given (make_standalone w) = given w"
    by (rule given_cong) (simp_all add: make_standalone_def)
  then have new: "tally r (make_standalone w) = tally r w"
    by (intro tally_cong) (simp_all add: make_standalone_def)
  have "outcome_all UNIV (\<lambda>w'. tally r w' = tally r w) (\<lambda>_. True) out" if "tallied X K r (tally r w) out" for out
    by (rule post_mono [OF that]) simp_all
  then show "outcome_all UNIV (\<lambda>w'. tally r w' = tally r w) (\<lambda>_. True) (exec_ccmd X cb a w)"
    using a inv
    by (cases a) (simp_all add: chunk new tally_gives [OF Pool_request_gives] tally_gives [OF Client_request_gives]
      Request_cancel_tally Client_cancel_tally tally_pool set_public_def)
qed

lemma exec_cif_tally:
  assumes "cinv X K w" and "\<And>a. f w = Some a \<Longrightarrow> \<not> submits r a"
  shows "tallied X K r (tally r w) (exec_cif X cb f w)"
  using assms by (simp add: exec_cif_def exec_ccmd_tally split: option.split)

lemma purge_tally:
  assumes "cinv X K w"
  shows "tally r (upd_entries (purge keep) w) = tally r w"
proof (rule tally_cong)
  have "nowhere (upd_entries (purge keep) w) q = nowhere w q" for q
  proof -
    have "nl_queue L = []" if "entry w nl = Some L" "filter keep (nl_free L) = []" "nl_busy L = []" for nl L
      using core_entry [OF cinv_core [OF assms] that(1)] that(3) by (auto simp: entry_ok_def)
    then show ?thesis
      by (auto simp: nowhere_def map_of_purge [OF core_distinct [OF cinv_core [OF assms]]]
          split: option.splits if_splits) fastforce
  qed
  then show "given (upd_entries (purge keep) w) = given w" by (simp add: given_def)
qed simp

lemma chandle_tally:
  assumes inv: "cinv X top w" and en: "cenabled w inp" and a: "\<And>a. inp = ClientCall a \<Longrightarrow> \<not> submits r a"
  shows "tallied X top r (tally r w) (chandle X cb inp w)"
proof (cases inp)
  case (ClientConnected c err)
  have "tally r (connect_done c err w) = tally r w" by (simp add: connect_done_def)
  then show ?thesis
    using ClientConnected en connect_done_inv [OF inv, of c err]
      Client_cancel_tally [OF connect_done_inv [OF inv, of c err], of "NestedErrc connect_error err" c]
    by (simp add: Client_on_connect_def)
next
  case (ClientRead c buf err)
  then have "c < next_clid w" using en by (intro client_lt [OF inv]) (auto simp: new_client_def)
  then show ?thesis
    using ClientRead en response_loop_tally [OF inv] Client_cancel_tally [OF inv] by (simp add: Client_on_read_def)
next
  case (ClientEof c p)
  then have "c < next_clid w" using en by (intro client_lt [OF inv]) (auto simp: new_client_def)
  then show ?thesis using ClientEof en Client_on_eof_tally [OF inv] by simp
next
  case (RequestTimer q)
  have "tally r (upd_creq q timer_fired w) = tally r w" by (simp add: timer_fired_def)
  then show ?thesis
    using RequestTimer Request_on_timer_tally [OF timer_fired_inv [OF inv, of q], of q] by simp
next
  case (FileData q k data)
  then show ?thesis using en no_file [OF inv] by simp
next
  case (FileDone q k err)
  then show ?thesis using en no_file [OF inv] by simp
qed (use inv en a in \<open>simp_all add: Client_on_write_def Client_cancel_tally Pool_check_inactivity_def cinv_purge
    purge_tally exec_ccmd_tally\<close>)

end

section \<open>The interface holds for users who do not submit the request\<close>

lemma cuser_cb_tally:
  assumes "cx_verify_paths X"
  shows "cinv X K w \<Longrightarrow> tallied X K r (tally r w) (cuser_cb X (without (submits r) u) n ev w)"
proof (induction n arbitrary: K w ev)
  case 0
  then show ?case by simp
next
  case (Suc n)
  have "answer_contract X (cuser_cb X (without (submits r) u) n) {InvalidIterator, LoopBound} r"
  proof unfold_locales
    fix K w ev assume "cinv X K w"
    from Suc.IH [OF this] show "outcome_all UNIV (\<lambda>w'. tally r w' = tally r w) (\<lambda>_. True)
        (cuser_cb X (without (submits r) u) n ev w)"
      by (rule post_mono) simp_all
  qed (use assms cuser_cb_inv [OF assms] in auto)
  note step = answer_contract.exec_cif_tally [OF this]
  show ?case
    unfolding cuser_cb.simps
  proof (rule post_run_inv)
    fix g v
    assume "g \<in> set (map (exec_cif X (cuser_cb X (without (submits r) u) n)) (without (submits r) u ev w))"
      and v: "cinv X K v \<and> tally r v = tally r w"
    then obtain f where "g = exec_cif X (cuser_cb X (without (submits r) u) n) f" "f \<in> set (without (submits r) u ev w)"
      by auto
    then show "tallied X K r (tally r w) (g v)"
      using step [of K v f] v withoutD [of f "submits r" u ev w v] by auto
  qed (use Suc.prems in simp)
qed

interpretation answer_user:
  answer_contract "at_time X now" "cuser_cb (at_time X now) (without (submits r) u) n"
    "{InvalidIterator, LoopBound}" r
proof unfold_locales
  fix K w ev assume "cinv (at_time X now) K w"
  from cuser_cb_tally [OF _ this] show "outcome_all UNIV (\<lambda>w'. tally r w' = tally r w) (\<lambda>_. True)
      (cuser_cb (at_time X now) (without (submits r) u) n ev w)"
    by (rule post_mono) (simp_all add: at_time_def)
qed

section \<open>Runs\<close>

text \<open>
  The loop delivers events, each at its time; one that cannot happen does not. An exception leaves the
  loop.
\<close>

fun loop_run :: "cext \<Rightarrow> (cext \<Rightarrow> ccallbacks) \<Rightarrow> (u64 \<times> cinput) list \<Rightarrow> cworld call" where
  "loop_run X cbs [] w = Done w"
| "loop_run X cbs ((now, inp) # inps) w =
     (if cenabled w inp then
        (case chandle (at_time X now) (cbs (at_time X now)) inp w of
           Done w' \<Rightarrow> loop_run X cbs inps w'
         | Throw e w' \<Rightarrow> Throw e w'
         | Crash f \<Rightarrow> Crash f)
      else loop_run X cbs inps w)"

abbreviation user_cbs :: "cuser \<Rightarrow> nat \<Rightarrow> cext \<Rightarrow> ccallbacks" where
  "user_cbs u n \<equiv> (\<lambda>X. cuser_cb X u n)"

definition no_submission :: "crid \<Rightarrow> (u64 \<times> cinput) list \<Rightarrow> bool" where
  "no_submission r inps \<longleftrightarrow> list_all (\<lambda>(now, inp). case inp of ClientCall a \<Rightarrow> \<not> submits r a | _ \<Rightarrow> True) inps"

lemma loop_run_tally:
  assumes "loop_run X (user_cbs (without (submits r) u) n) inps w = Done w'" and "cinv X top w"
    and "no_submission r inps"
  shows "cinv X top w' \<and> tally r w' = tally r w"
  using assms
proof (induction X "user_cbs (without (submits r) u) n" inps w rule: loop_run.induct)
  case (2 X now inp inps w)
  show ?case
  proof (cases "cenabled w inp")
    case True
    have "tallied (at_time X now) top r (tally r w)
        (chandle (at_time X now) (cuser_cb (at_time X now) (without (submits r) u) n) inp w)"
      by (rule answer_user.chandle_tally) (use 2 True in \<open>auto simp: cinv_at_time no_submission_def\<close>)
    then show ?thesis
      using 2 True by (auto simp: cinv_at_time no_submission_def split: outcome.splits)
  next
    case False
    then show ?thesis using 2 by (simp add: no_submission_def)
  qed
qed simp

lemma idle_iff: "cinv X K w \<Longrightarrow> idle_request w r \<longleftrightarrow> r \<notin> given w"
  using queued_iff [OF core_distinct [OF cinv_core]] by (auto simp: idle_request_def given_def nowhere_def)

text \<open>
  C21: A request that was given to a client or to the pool is answered exactly once: over any run of
  events and callbacks that neither submits it again nor lets an exception out of a callback, there is
  exactly one response event for it if it has come to its end, and none as long as it is still in
  progress or waiting.
\<close>

theorem answered_once:
  assumes "creachable X v w" and "\<not> idle_request w r"
    and "loop_run X (user_cbs (without (submits r) u) n) inps w = Done w'" and "no_submission r inps"
  shows "answers r w' = answers r w + (if idle_request w' r then 1 else 0)"
proof -
  have inv: "cinv X top w" by (rule creachable_inv [OF assms(1)])
  have "cinv X top w' \<and> tally r w' = tally r w" by (rule loop_run_tally [OF assms(3) inv assms(4)])
  then show ?thesis
    using idle_iff [OF inv, of r] idle_iff [of X top w' r] assms(2) by (auto simp: tally_def)
qed

theorem answered_once_witness:
  "\<exists>w'. loop_run demo_cext (user_cbs (without (submits 0) quiet_user) 1)
      (map (Pair 5000) (drop 6 demo_cinputs)) (demo_cworld 6) = Done w' \<and>
    \<not> idle_request (demo_cworld 6) 0 \<and> idle_request w' 0 \<and>
    answers 0 w' = answers 0 (demo_cworld 6) + 1"
proof -
  let ?run = "loop_run demo_cext (user_cbs (without (submits 0) quiet_user) 1)
      (map (Pair 5000) (drop 6 demo_cinputs)) (demo_cworld 6)"
  have "\<exists>w'. ?run = Done w' \<and> idle_request w' 0"
    by (simp add: without_def demo_at_time cdemo_eval at_time_def)
  then obtain w' where w': "?run = Done w'" "idle_request w' 0" by blast
  have "\<not> idle_request (demo_cworld 6) 0" "no_submission 0 (map (Pair 5000) (drop 6 demo_cinputs))"
    by (simp_all add: cdemo_eval no_submission_def)
  then show ?thesis
    using answered_once [OF cdemo_reachable _ w'(1)] w' by auto
qed

end
