(* ===== verification/Timeouts.thy ===== *)
theory Timeouts
  imports Answers
begin

text \<open>
  No request with a timeout waits forever: as long as it is in progress its timer runs, and the request
  is its listener; and when the timer fires, the request ends.
\<close>

section \<open>The timer of a request in progress\<close>

definition timed :: "crequest \<Rightarrow> bool" where
  "timed q \<longleftrightarrow>
     ((cq_client q \<noteq> None \<or> cq_pool q) \<and> cq_timeout q \<noteq> 0 \<longrightarrow> cq_timer q = Some (True, True))"

definition timed_on :: "crid set \<Rightarrow> cworld \<Rightarrow> bool" where
  "timed_on S w \<longleftrightarrow> (\<forall>q\<in>S. timed (creq w q))"

abbreviation all_timed :: "cworld \<Rightarrow> bool" where
  "all_timed \<equiv> timed_on UNIV"

lemma timed_on_upd [simp]:
  "timed_on S (upd_client c f w) = timed_on S w" "timed_on S (upd_entries h w) = timed_on S w"
  "timed_on S (set_entry nl L w) = timed_on S w" "timed_on S (tcp_reset c w) = timed_on S w"
  "timed_on S (tcp_weak c b w) = timed_on S w" "timed_on S (tcp_write c x w) = timed_on S w"
  "timed_on S (w\<lparr>pool := p\<rparr>) = timed_on S w" "timed_on S (w\<lparr>cevents := es\<rparr>) = timed_on S w"
  by (simp_all add: timed_on_def)

lemma timed_on_creq:
  "timed_on (S - {r}) w \<Longrightarrow> timed (f (creq w r)) \<Longrightarrow> timed_on S (upd_creq r f w)"
  by (auto simp: timed_on_def)

lemma timed_on_mono: "timed_on S w \<Longrightarrow> T \<subseteq> S \<Longrightarrow> timed_on T w"
  by (auto simp: timed_on_def)

lemma timed_on_same:
  "timed_on S w \<Longrightarrow> (timed (creq w r) \<Longrightarrow> timed (f (creq w r))) \<Longrightarrow> timed_on S (upd_creq r f w)"
  by (auto simp: timed_on_def)

lemma timed_ensured: "timed (ensure_timer_active q)"
  by (simp add: timed_def ensure_timer_active_def)

lemma timed_finished: "timed (finished_request q)"
  by (simp add: timed_def)

section \<open>Operations that call nothing back\<close>

abbreviation times :: "crid set \<Rightarrow> cworld outcome \<Rightarrow> bool" where
  "times S out \<equiv> outcome_all UNIV (timed_on S) (\<lambda>_. True) out"

lemma Client_request_times:
  assumes "timed_on (S - {r}) w"
  shows "times S (Client_request X c r w)"
proof (rule Client_request_keeps)
  fix w1 out
  assume out: "keeps c r (upd_creq r ensure_timer_active w1) out" and w1: "only c r w w1"
  show "times S out"
  proof (rule post_mono [OF out])
    fix w' assume w': "only c r (upd_creq r ensure_timer_active w1) w' \<and>
      same_private (creq (upd_creq r ensure_timer_active w1) r) (creq w' r)"
    have "timed (creq w' r)"
      using w' by (auto simp: timed_def same_private_def ensure_timer_active_def)
    moreover have "creq w' q = creq w q" if "q \<noteq> r" for q
      using w' w1 that by (simp add: only_def)
    ultimately show "timed_on S w'"
      using assms unfolding timed_on_def by (metis DiffI singletonD)
  qed simp_all
qed

lemma Pool_putback_times:
  assumes "timed_on S w"
  shows "times S (Pool_putback X c w)"
proof -
  have "timed_on (S - {q}) (set_entry nl L w)" for q nl L
    using assms by (auto simp: timed_on_def)
  then show ?thesis
    using assms by (auto simp: Pool_putback_def Let_def Client_request_times split: option.split list.split)
qed

lemma Pool_request_times:
  assumes "timed_on (S - {r}) w"
  shows "times S (Pool_request X r w)"
proof -
  define w1 where "w1 = upd_creq r (\<lambda>q. q\<lparr>cq_pool := True\<rparr>) w"
  obtain cc w2 where p: "Pool_pick X r w1 = (cc, w2)" by fastforce
  have w1: "timed_on (S - {r}) w1" using assms by (auto simp: timed_on_def w1_def)
  then have ensured: "timed_on S (upd_creq r ensure_timer_active (set_entry nl L w1))" for nl L
    by (intro timed_on_creq timed_ensured) simp
  have "creq (snd (make_client w1)) = creq w1" by (simp add: make_client_def)
  then have "timed_on (S - {r}) (snd (make_client w1))" using w1 by (simp add: timed_on_def)
  then have "case cc of None \<Rightarrow> timed_on S w2 | Some c \<Rightarrow> timed_on (S - {r}) w2"
    using p w1 ensured
    by (auto simp: Pool_pick_def Let_def split_beta simp del: remove1.simps
        split: option.splits list.splits if_splits)
  then show ?thesis
    using p by (auto simp: Pool_request_def w1_def [symmetric] Client_request_times split: option.split)
qed

lemma follow_redirect_times:
  assumes "all_timed w" and r: "cl_request (client w c) = Some r"
  shows "times UNIV (follow_redirect X c w)"
proof (cases "cl_response (client w c)")
  case None
  then show ?thesis using r by (simp add: follow_redirect_def)
next
  case (Some p)
  define w1 where "w1 = redirect_left c r p w"
  have w1: "timed_on (UNIV - {r}) w1"
    using assms(1) by (auto simp: timed_on_def w1_def redirect_left_def)
  have "times UNIV (redirect_through_pool X c r w1)"
    unfolding redirect_through_pool_def
  proof (rule post_run_pure, rule post_run_Cons, rule Pool_putback_times)
    show "timed_on (UNIV - {r}) (upd_client c (\<lambda>k. k\<lparr>cl_last_activity := cx_now X\<rparr>) w1)" using w1 by simp
  next
    fix w2 assume "timed_on (UNIV - {r}) w2"
    then show "times UNIV (run [pure_step (tcp_weak c True), Pool_request X r] w2)"
      by (intro post_run_pure, unfold post_run_single) (simp add: Pool_request_times)
  qed
  then show ?thesis
    using Client_request_times [OF w1] by (simp add: follow_redirect_run [OF r Some] w1_def)
qed

section \<open>The interface\<close>

text \<open>Here an exception keeps the property as well, so it holds in all reachable states.\<close>

abbreviation timely :: "cext \<Rightarrow> frame \<Rightarrow> cworld outcome \<Rightarrow> bool" where
  "timely X K out \<equiv>
     outcome_all UNIV (\<lambda>w. cinv X K w \<and> all_timed w) (\<lambda>w. cinv X K w \<and> all_timed w) out"

locale timer_contract = client_contract +
  assumes cb_timed: "cinv X K w \<Longrightarrow> all_timed w \<Longrightarrow> outcome_all UNIV all_timed all_timed (cb ev w)"
begin

lemma with_times:
  assumes "outcome_all D (cinv X K) (cinv X K) out" and "outcome_all UNIV all_timed all_timed out"
  shows "timely X K out"
  using assms by (cases out) simp_all

lemma fire_timely: "cinv X K w \<Longrightarrow> all_timed w \<Longrightarrow> timely X K (cfire cb ev w)"
  by (rule with_times [OF cfire_inv]) (simp_all add: cfire_def cb_timed)

lemma timely_run:
  "(\<And>f w. f \<in> set fs \<Longrightarrow> cinv X K w \<and> all_timed w \<Longrightarrow> timely X K (f w)) \<Longrightarrow>
     cinv X K w \<Longrightarrow> all_timed w \<Longrightarrow> timely X K (run fs w)"
  by (rule post_run_inv) auto

lemma notify_timely:
  assumes "cinv X K (upd_creq q finished_request w)" and "timed_on (UNIV - {q}) w"
  shows "timely X K (finish_and_notify cb q res err w)"
  unfolding finish_and_notify_def Let_def
  by (rule post_run_pure, rule timely_run [OF _ assms(1)])
    (use assms(2) in \<open>auto simp: fire_timely timed_finished intro: timed_on_creq\<close>)

lemma finish_request_timely:
  assumes "cinv X K w" and "cl_request (client w c) = Some q" and "cl_ctx (client w c) = None"
    and "fst K c = None \<or> cl_redirect_canceled (client w c)"
    and "err \<noteq> NoError \<or> cl_response (client w c) \<noteq> None" and t: "timed_on (UNIV - {q}) w"
  shows "timely X K (finish_request X cb c err w)"
proof -
  obtain w1 w2 p e kept where run: "finish_request X cb c err w = finish_and_notify cb q p e w2"
    and w1: "gave_up X K c q kept w w1" and w2: "w2 = w1 \<or> Pool_putback X c w1 = Done w2"
    and inv2: "cinv X K (upd_creq q finished_request w2)"
    using finish_request_ready [OF assms(1-5)] finished_inv by blast
  have "timed_on (UNIV - {q}) w1" using t w1 by (simp add: timed_on_def gave_up_def)
  then have "timed_on (UNIV - {q}) w2"
    using w2 Pool_putback_times [of "UNIV - {q}" w1 X c] by auto
  then show ?thesis using notify_timely [OF inv2] by (simp add: run)
qed

lemma Client_cancel_timely:
  assumes inv: "cinv X K w" and err: "err \<noteq> NoError"
    and t: "timed_on (case cl_request (client w c) of None \<Rightarrow> UNIV | Some q \<Rightarrow> UNIV - {q}) w"
  shows "timely X K (Client_cancel X cb c err w)"
proof (cases "cl_request (client w c)")
  case None
  then show ?thesis using inv t by (simp add: Client_cancel_def)
next
  case (Some q)
  obtain w1 where w1: "Client_cancel X cb c err w = finish_request X cb c err w1" "cinv X K w1"
    "cl_request (client w1 c) = Some q" "cl_ctx (client w1 c) = None"
    "fst K c = None \<or> cl_redirect_canceled (client w1 c)" "creq w1 = creq w"
    using Client_cancel_starts [OF inv Some err] by blast
  have "timed_on (UNIV - {q}) w1" using t Some w1(6) by (simp add: timed_on_def)
  then show ?thesis
    using finish_request_timely [OF w1(2-5)] err by (simp add: w1(1))
qed

lemma cancel_timely: "cinv X K w \<Longrightarrow> err \<noteq> NoError \<Longrightarrow> all_timed w \<Longrightarrow> timely X K (Client_cancel X cb c err w)"
  by (rule Client_cancel_timely) (auto intro: timed_on_mono split: option.split)

lemma Pool_cancel_timely:
  assumes inv: "cinv X K w" and q: "cq_client (creq w q) = None" "cq_pool (creq w q)"
    and t: "timed_on (UNIV - {q}) w"
  shows "timely X K (Pool_cancel_request X cb q err w)"
proof (rule with_times [OF Pool_cancel_inv [OF inv q]])
  let ?nl = "Request_netloc X (creq w q)"
  obtain L K' where L: "entry w ?nl = Some L" "q \<in> set (nl_queue L)"
    and inv1: "cinv X K' (upd_creq q finished_request w)"
    using Pool_cancel_frame [OF inv q] by blast
  have erase: "outcome_all UNIV all_timed all_timed (erase_queued ?nl v q w2)" if "all_timed w2" for v w2
    using that by (simp add: erase_queued_def split: option.split)
  have told: "outcome_all UNIV all_timed all_timed (finish_and_notify cb q None err w)"
    by (rule post_mono [OF notify_timely [OF inv1 t]]) simp_all
  have "outcome_all UNIV all_timed all_timed
      (run [finish_and_notify cb q None err, erase_queued ?nl (nl_version L) q] w)"
    by (rule post_run_Cons, rule told, unfold post_run_single) (rule erase)
  then show "outcome_all UNIV all_timed all_timed (Pool_cancel_request X cb q err w)"
    using L by (simp add: Pool_cancel_request_def Let_def)
qed

lemma Request_cancel_timely:
  "cinv X K w \<Longrightarrow> err \<noteq> NoError \<Longrightarrow> all_timed w \<Longrightarrow> timely X K (Request_cancel X cb q err w)"
  using timed_on_mono [of UNIV w]
  by (auto simp: Request_cancel_def cancel_timely Pool_cancel_timely split: option.split)

text \<open>The timer of the request itself may have fired already.\<close>

lemma Request_on_timer_timely:
  assumes inv: "cinv X K w" and t: "timed_on (UNIV - {q}) w"
    and idle: "cq_client (creq w q) = None \<Longrightarrow> \<not> cq_pool (creq w q) \<Longrightarrow> all_timed w"
  shows "timely X K (Request_on_timer X cb q w)"
proof (cases "cq_client (creq w q)")
  case None
  then show ?thesis
    using Pool_cancel_timely [OF inv None _ t] inv idle by (simp add: Request_on_timer_def)
next
  case (Some c)
  then have "cl_request (client w c) = Some q"
    using core_linked [OF cinv_core [OF inv], of c q] by simp
  then show ?thesis
    using Some Client_cancel_timely [OF inv, of _ c] t
    by (simp add: Request_on_timer_def Client_timed_out_def timed_out_error_def)
qed

lemma fire_redirect_timely:
  assumes inv: "cinv X K w" and "cl_request (client w c) = Some q" and "cl_response (client w c) = Some p"
    and "cl_ctx (client w c) = None" and "fst K c = None" and t: "all_timed w"
  shows "outcome_all UNIV all_timed all_timed (fire_redirect X cb c ev w)"
proof -
  note inv1 = redirect_frame [OF assms(1-5)]
  have t1: "all_timed (upd_client c (\<lambda>k. k\<lparr>cl_in_redirect := True\<rparr>) w)" using t by simp
  note fired = fire_timely [OF inv1 t1, of ev]
  show ?thesis
  proof (cases "cfire cb ev (upd_client c (\<lambda>k. k\<lparr>cl_in_redirect := True\<rparr>) w)")
    case (Done w2)
    then show ?thesis using fired by (simp add: fire_redirect_def)
  next
    case (Throw e w2)
    define w3 where "w3 = upd_client c (\<lambda>k. k\<lparr>cl_in_redirect := False, cl_redirect_canceled := False\<rparr>) w2"
    have "cinv X K w3"
      unfolding w3_def by (rule redirect_leave [OF assms(1-5)]) (use Throw fired in simp)
    moreover have "all_timed w3" using Throw fired by (simp add: w3_def)
    ultimately have "timely X K (Client_cancel X cb c (StdErrc operation_canceled) w3)"
      by (intro cancel_timely) simp_all
    then show ?thesis
      using Throw by (auto simp: fire_redirect_def w3_def [symmetric] split: outcome.split)
  next
    case (Crash f)
    then show ?thesis by (simp add: fire_redirect_def)
  qed
qed

lemma redirect_to_timely:
  assumes inv: "cinv X K w" and q: "cl_request (client w c) = Some q" and p: "cl_response (client w c) = Some p"
    and ctx: "cl_ctx (client w c) = None" and frame: "fst K c = None" and t: "all_timed w"
  shows "timely X K (redirect_to X cb c q p w)"
proof (rule with_times [OF redirect_to_inv [OF assms(1-5)]])
  define u where "u = redirect_target X (the (cq_uri (creq w q))) (rp_location p)"
  define w1 where "w1 = upd_creq q (redirected u) w"
  define ev where "ev = RedirectEvent q p (redirect_ctx_of (creq w q))"
  have inv1: "cinv X K w1" unfolding w1_def by (rule redirected_inv [OF inv q u_def])
  have c1: "cl_request (client w1 c) = Some q" "cl_response (client w1 c) = Some p" "cl_ctx (client w1 c) = None"
    using q p ctx by (simp_all add: w1_def)
  have t1: "all_timed w1"
    unfolding w1_def by (rule timed_on_same [OF t]) (simp add: timed_def redirected_def)
  let ?step = "\<lambda>w. if cl_redirect_canceled (client w c)
      then Done (upd_client c (\<lambda>k. k\<lparr>cl_redirect_canceled := False\<rparr>) w) else follow_redirect X c w"
  have fired: "outcome_all UNIV (\<lambda>w'. all_timed w' \<and> (cl_redirect_canceled (client w' c) \<or>
      cinv X K w' \<and> cl_request (client w' c) = Some q \<and> cl_response (client w' c) = Some p \<and>
      cl_ctx (client w' c) = None)) all_timed (fire_redirect X cb c ev w1)"
    using fire_redirect_inv [OF inv1 c1 frame, of ev] fire_redirect_timely [OF inv1 c1 frame t1, of ev]
    by (cases "fire_redirect X cb c ev w1") auto
  have "outcome_all UNIV all_timed all_timed (run [fire_redirect X cb c ev, ?step] w1)"
  proof (rule post_run_Cons, rule fired, unfold post_run_single)
    fix w'
    assume w': "all_timed w' \<and> (cl_redirect_canceled (client w' c) \<or> cinv X K w' \<and>
      cl_request (client w' c) = Some q \<and> cl_response (client w' c) = Some p \<and> cl_ctx (client w' c) = None)"
    show "outcome_all UNIV all_timed all_timed (?step w')"
    proof (cases "cl_redirect_canceled (client w' c)")
      case False
      then obtain w2 where "follow_redirect X c w' = Done w2"
        using follow_redirect_inv [of K w' c q p] w' frame by auto
      then show ?thesis using False w' follow_redirect_times [of w' c q X] by simp
    qed (use w' in simp)
  qed
  then show "outcome_all UNIV all_timed all_timed (redirect_to X cb c q p w)"
    by (simp add: redirect_to_def Let_def redirect_ctx_of_def w1_def u_def ev_def)
qed

lemma analyze_request_timely:
  assumes inv: "cinv X K w" and q: "cl_request (client w c) = Some q" and p: "cl_response (client w c) = Some p"
    and ctx: "rp_code p \<noteq> 100 \<longrightarrow> cl_ctx (client w c) = None" and frame: "fst K c = None" and t: "all_timed w"
  shows "timely X K (analyze_request X cb c w)"
proof (cases "rp_code p = 100")
  case True
  have "timely X K (run [cfire cb (ContinueEvent q), pure_step (upd_client c (\<lambda>k. k\<lparr>cl_response := None\<rparr>))] w)"
    by (rule timely_run [OF _ inv t]) (auto simp: fire_timely forget_response_inv frame)
  then show ?thesis using q p True by (simp add: analyze_request_def)
next
  case False
  define w1 where "w1 = upd_creq q (\<lambda>q. q\<lparr>cq_counter := cq_counter q + 1\<rparr>) w"
  have w1: "cinv X K w1" "all_timed w1" "cl_request (client w1 c) = Some q" "cl_response (client w1 c) = Some p"
    "cl_ctx (client w1 c) = None"
    using counted_inv [OF inv, of q] q p ctx False timed_on_same [OF t, of q]
    by (simp_all add: w1_def timed_def)
  have "timely X K (redirect_request X cb c q p w)"
    using redirect_to_timely [OF w1(1,3,4,5) frame w1(2)] cancel_timely [OF w1(1) _ w1(2)] cancel_timely [OF inv _ t]
    by (simp add: redirect_request_def Let_def w1_def [symmetric])
  then show ?thesis
    using q p ctx False finish_request_timely [OF inv q, of NoError] frame timed_on_mono [OF t]
    by (simp add: analyze_request_def)
qed

lemma response_loop_timely:
  assumes "cinv X K w" and "fst K c = None" and "list_all context_law ps" and "c < next_clid w \<or> ps = []"
    and "all_timed w"
  shows "timely X K (response_loop X cb c ps w)"
  by (rule response_loop_post [where I = "\<lambda>v. cinv X K v \<and> all_timed v", OF _ assms(2-4)])
    (use assms in \<open>simp_all add: take_response_def cancel_timely fire_timely analyze_request_timely\<close>)

lemma Client_on_eof_timely:
  assumes inv: "cinv X K w" and frame: "fst K c = None" and lt: "c < next_clid w"
    and law: "rp_code (rr_response p) \<noteq> 100 \<longrightarrow> \<not> rr_context p" and t: "all_timed w"
  shows "timely X K (Client_on_eof X cb c p w)"
proof (cases "cl_request (client w c)")
  case None
  then show ?thesis using drop_connection_inv [OF inv lt] t by (simp add: Client_on_eof_def)
next
  case (Some q)
  define w1 where "w1 = upd_client c (\<lambda>k. k\<lparr>cl_response := Some ((rr_response p)\<lparr>rp_done := True\<rparr>),
    cl_ctx := (if rr_context p then cl_ctx k else None)\<rparr>) w"
  have inv1: "cinv X K w1" unfolding w1_def by (rule received_inv [OF inv frame lt Some])
  have t1: "all_timed w1" using t by (simp add: w1_def)
  have "timely X K (analyze_request X cb c w1)"
    by (rule analyze_request_timely [OF inv1 _ _ _ frame t1]) (use Some law in \<open>auto simp: w1_def\<close>)
  then show ?thesis
    using Some cancel_timely [OF inv1 _ t1] by (simp add: Client_on_eof_def w1_def [symmetric] Let_def)
qed

section \<open>Calls and events\<close>

lemma idle_no_pool: "cinv X K w \<Longrightarrow> idle_request w q \<Longrightarrow> \<not> cq_pool (creq w q)"
  using coreD(4) [OF cinv_core, of X K w] nowhereD [OF idle_away, of X K w q]
  by (auto simp: waiting_ok_def idle_request_def)

lemma exec_ccmd_timely:
  assumes inv: "cinv X K w" and a: "cpermitted w a" and t: "all_timed w"
  shows "timely X K (exec_ccmd X cb a w)"
proof (rule with_times [OF exec_ccmd_inv [OF inv a]])
  have same: "all_timed (upd_creq q f w)" if "\<And>z. timed z \<Longrightarrow> timed (f z)" for q f
    by (rule timed_on_same [OF t]) (rule that)
  have chunk: "outcome_all UNIV all_timed all_timed (Request_send_chunk q x w)"
    "outcome_all UNIV all_timed all_timed (Request_send_final_chunk q x w)" for q x
    using t same [of "\<lambda>z. z\<lparr>cq_transferred := True\<rparr>"]
    by (simp_all add: Request_send_chunk_def Request_send_final_chunk_def Client_send_chunk_def
        Client_send_final_chunk_def timed_def split: option.split)
  have pooled: "outcome_all UNIV all_timed all_timed (Pool_request X q w)" if idle: "idle_request w q" for q
  proof (cases "Request_check (creq w q)")
    case None
    have "core X (curA w) (curN w) (curE w) ((curP w)(q := False)) w"
      by (rule core_mono [OF cinv_core [OF inv]]) (auto split: if_splits)
    then obtain w' where "Pool_request X q w = Done w'"
      using Pool_request_inv [OF verify _ cinv_control [OF inv], of q] idle_away [OF inv idle] idle None
        core_plain [OF cinv_core [OF inv]]
      by (auto simp: idle_request_def acceptable_def)
    then show ?thesis
      using Pool_request_times [of UNIV q w X] timed_on_mono [OF t] by simp
  qed (use t in \<open>simp add: Pool_request_def\<close>)
  have direct: "outcome_all UNIV all_timed all_timed (Client_request X c q w)"
    if "cpermitted w (SubmitClient c q)" for c q
  proof (cases "Client_request X c q w")
    case (Done w')
    then show ?thesis using Client_request_times [of UNIV q w X c] timed_on_mono [OF t] by simp
  next
    case (Throw e w')
    then show ?thesis using submit_client_throws [OF inv that Throw] t by simp
  qed simp
  have timely: "outcome_all UNIV all_timed all_timed out" if "timely X K out" for out
    by (rule post_mono [OF that]) simp_all
  have "all_timed (upd_creq q (set_public z) w)" if "idle_request w q" for q z
    by (rule timed_on_creq)
      (use t idle_no_pool [OF inv that] that in
        \<open>auto simp: timed_on_def timed_def set_public_def idle_request_def\<close>)
  moreover have "all_timed (make_standalone w)" using t by (simp add: make_standalone_def timed_on_def)
  ultimately show "outcome_all UNIV all_timed all_timed (exec_ccmd X cb a w)"
    using a t chunk pooled direct timely [OF Request_cancel_timely [OF inv _ t]] timely [OF cancel_timely [OF inv _ t]]
      same
    by (cases a) (simp_all add: timed_def)
qed

lemma chandle_timely:
  assumes inv: "cinv X top w" and en: "cenabled w inp" and t: "all_timed w"
  shows "timely X top (chandle X cb inp w)"
proof (cases inp)
  case (ClientConnected c err)
  have "all_timed (connect_done c err w)" using t by (simp add: connect_done_def)
  then show ?thesis
    using ClientConnected en connect_done_inv [OF inv, of c err]
      cancel_timely [OF connect_done_inv [OF inv, of c err], of "NestedErrc connect_error err" c]
    by (simp add: Client_on_connect_def)
next
  case (ClientRead c buf err)
  then have "c < next_clid w" using en by (intro client_lt [OF inv]) (auto simp: new_client_def)
  then show ?thesis
    using ClientRead en response_loop_timely [OF inv] cancel_timely [OF inv] t by (simp add: Client_on_read_def)
next
  case (ClientEof c p)
  then have "c < next_clid w" using en by (intro client_lt [OF inv]) (auto simp: new_client_def)
  then show ?thesis using ClientEof en Client_on_eof_timely [OF inv] t by simp
next
  case (RequestTimer q)
  have "timed_on (UNIV - {q}) (upd_creq q timer_fired w)" using t by (simp add: timed_on_def)
  moreover have "all_timed (upd_creq q timer_fired w)"
    if "cq_client (creq w q) = None" "\<not> cq_pool (creq w q)"
    by (rule timed_on_creq) (use t that in \<open>auto simp: timed_on_def timed_def timer_fired_def\<close>)
  ultimately show ?thesis
    using RequestTimer Request_on_timer_timely [OF timer_fired_inv [OF inv, of q], of q]
    by (simp add: timer_fired_def)
next
  case (FileData q k data)
  then show ?thesis using en no_file [OF inv] by simp
next
  case (FileDone q k err)
  then show ?thesis using en no_file [OF inv] by simp
qed (use inv en t in \<open>simp_all add: Client_on_write_def cancel_timely Pool_check_inactivity_def cinv_purge
    exec_ccmd_timely\<close>)

end

section \<open>The interface holds for the user code of the model\<close>

lemma exec_cif_timely:
  assumes "timer_contract X cb D" and "cinv X K w" and "all_timed w"
  shows "timely X K (exec_cif X cb f w)"
  using assms(2,3) timer_contract.exec_ccmd_timely [OF assms(1)] by (auto simp: exec_cif_def split: option.split)

lemma cuser_cb_timely:
  assumes "cx_verify_paths X"
  shows "cinv X K w \<Longrightarrow> all_timed w \<Longrightarrow> timely X K (cuser_cb X u n ev w)"
proof (induction n arbitrary: K w ev)
  case 0
  then show ?case by simp
next
  case (Suc n)
  have "timer_contract X (cuser_cb X u n) {InvalidIterator, LoopBound}"
  proof unfold_locales
    fix K w ev assume "cinv X K w" "all_timed w"
    from Suc.IH [OF this] show "outcome_all UNIV all_timed all_timed (cuser_cb X u n ev w)"
      by (rule post_mono) simp_all
  qed (use assms cuser_cb_inv [OF assms] in auto)
  note step = exec_cif_timely [OF this, of K]
  show ?case
    unfolding cuser_cb.simps by (rule post_run_inv) (use step Suc.prems in auto)
qed

interpretation timer_user:
  timer_contract "at_time X now" "cuser_cb (at_time X now) u n" "{InvalidIterator, LoopBound}"
proof unfold_locales
  fix K w ev assume "cinv (at_time X now) K w" "all_timed w"
  from cuser_cb_timely [OF _ this] show "outcome_all UNIV all_timed all_timed (cuser_cb (at_time X now) u n ev w)"
    by (rule post_mono) (simp_all add: at_time_def)
qed

lemma creachable_timed: "creachable X u w \<Longrightarrow> all_timed w"
proof (induction rule: creachable.induct)
  case (start m t j)
  then show ?case by (simp add: timed_on_def timed_def new_cworld_def default_request_def)
next
  case (returns w inp now n w')
  then show ?case
    using timer_user.chandle_timely [of X now w inp u n] creachable_inv [of X u w] by (simp add: cinv_at_time)
next
  case (throws w inp now n e w')
  then show ?case
    using timer_user.chandle_timely [of X now w inp u n] creachable_inv [of X u w] by (simp add: cinv_at_time)
qed

section \<open>Timeouts\<close>

definition timeout_errors :: "error_code set" where
  "timeout_errors = {StdErrc timed_out, NestedErrc connect_error (StdErrc timed_out)}"

lemma over_facts:
  assumes "request_over X c r kept w w'"
  shows "cevents w' = cevents w" "creq w' r = finished_request (creq w r)"
  using assms by (simp_all add: request_over_def)

lemma on_timer_ends:
  assumes X: "cx_verify_paths X" and inv: "cinv X top w"
    and q: "cq_client (creq w r) \<noteq> None \<or> cq_pool (creq w r)"
  shows "\<exists>w' p e. Request_on_timer X (\<lambda>ev. Done) r w = Done w' \<and> e \<in> timeout_errors \<and>
    cevents w' = cevents w @ [PartEvent r p e, ResponseEvent r p e] \<and>
    creq w' r = finished_request (creq w r)"
proof (cases "cq_client (creq w r)")
  case None
  then show ?thesis
    using Pool_cancel_quiet [OF inv None, of "StdErrc timed_out"] q
    by (auto simp: Request_on_timer_def timeout_errors_def)
next
  case (Some c)
  let ?e = "timed_out_error (client w c)"
  have req: "cl_request (client w c) = Some r"
    using core_linked [OF cinv_core [OF inv], of c r] Some by simp
  have e: "?e \<noteq> NoError" "?e \<in> timeout_errors" by (simp_all add: timed_out_error_def timeout_errors_def)
  obtain w1 p where w1: "Client_cancel X (\<lambda>ev. Done) c ?e w =
      run [cfire (\<lambda>ev. Done) (PartEvent r p ?e), cfire (\<lambda>ev. Done) (ResponseEvent r p ?e)] w1"
    "request_over X c r False w w1"
    using Client_cancel_over [OF X inv req e(1) refl, of "\<lambda>ev. Done"] by blast
  show ?thesis
    using w1(1) over_facts [OF w1(2)] e(2)
    by (auto simp: Request_on_timer_def Some Client_timed_out_def cfire_def)
qed

text \<open>
  C25: A request with a timeout cannot wait for ever.  Whenever it is in progress, at a client or in a
  queue, and after any history with any user code, its timer runs and the request listens to it, so the
  timer can fire; and when it fires, the request ends: the response event is delivered with the timeout
  as its error (wrapped as a connection error when the connection was still being made), and the request
  is idle again with its timer stopped.  (Stated for callbacks that do not act themselves.)
\<close>

theorem timeouts_fire:
  assumes "creachable X u w" and "cq_client (creq w r) \<noteq> None \<or> cq_pool (creq w r)"
    and "cq_timeout (creq w r) \<noteq> 0"
  shows "cenabled w (RequestTimer r) \<and>
    (\<exists>w' p e. chandle (at_time X now) (\<lambda>ev. Done) (RequestTimer r) w = Done w' \<and>
      e \<in> {StdErrc timed_out, NestedErrc connect_error (StdErrc timed_out)} \<and>
      cevents w' = cevents w @ [PartEvent r p e, ResponseEvent r p e] \<and>
      cq_client (creq w' r) = None \<and> \<not> cq_pool (creq w' r) \<and> \<not> timer_active (creq w' r))"
proof
  have "timed (creq w r)" using creachable_timed [OF assms(1)] by (simp add: timed_on_def)
  then show "cenabled w (RequestTimer r)" using assms(2,3) by (auto simp: timed_def)
  let ?w = "upd_creq r timer_fired w"
  have inv: "cinv (at_time X now) top ?w"
    using timer_fired_inv [OF creachable_inv [OF assms(1)], of r] by (simp add: cinv_at_time)
  show "\<exists>w' p e. chandle (at_time X now) (\<lambda>ev. Done) (RequestTimer r) w = Done w' \<and>
      e \<in> {StdErrc timed_out, NestedErrc connect_error (StdErrc timed_out)} \<and>
      cevents w' = cevents w @ [PartEvent r p e, ResponseEvent r p e] \<and>
      cq_client (creq w' r) = None \<and> \<not> cq_pool (creq w' r) \<and> \<not> timer_active (creq w' r)"
    using on_timer_ends [OF _ inv, of r] assms(2)
    by (auto simp: timer_fired_def timeout_errors_def [symmetric] at_time_def)
qed

theorem timeouts_fire_witness:
  "cenabled (demo_cworld 6) (RequestTimer 1) \<and>
    (\<exists>w' p e. chandle (at_time demo_cext 0) (\<lambda>ev. Done) (RequestTimer 1) (demo_cworld 6) = Done w' \<and>
      e \<in> {StdErrc timed_out, NestedErrc connect_error (StdErrc timed_out)} \<and>
      cevents w' = cevents (demo_cworld 6) @ [PartEvent 1 p e, ResponseEvent 1 p e] \<and>
      cq_client (creq w' 1) = None \<and> \<not> cq_pool (creq w' 1) \<and> \<not> timer_active (creq w' 1))"
  by (rule timeouts_fire [OF cdemo_reachable]) (simp_all add: cdemo_eval)

end
