(* ===== verification/EventLog.thy ===== *)
theory EventLog
  imports Answers "HOL-Library.Sublist"
begin

text \<open>
  The events of the client side are a log: whatever happens, what was fired stays fired. The interface
  \<open>logging\<close> asks it of the callbacks; every operation that returns keeps it then.
\<close>

section \<open>Operations that fire nothing\<close>

definition since :: "cevent list \<Rightarrow> cworld \<Rightarrow> bool" where
  "since es w \<longleftrightarrow> prefix es (cevents w)"

abbreviation logs :: "cevent list \<Rightarrow> cworld outcome \<Rightarrow> bool" where
  "logs es out \<equiv> outcome_all UNIV (since es) (\<lambda>_. True) out"

lemma since_upd [simp]:
  "since es (upd_client c f w) = since es w" "since es (upd_creq r g w) = since es w"
  "since es (upd_entries h w) = since es w" "since es (set_entry nl L w) = since es w"
  "since es (tcp_reset c w) = since es w" "since es (tcp_weak c b w) = since es w"
  "since es (tcp_write c x w) = since es w" "since es (w\<lparr>pool := p\<rparr>) = since es w"
  by (simp_all add: since_def)

lemma logs_run:
  "(\<And>f w. f \<in> set fs \<Longrightarrow> since es w \<Longrightarrow> logs es (f w)) \<Longrightarrow> since es w \<Longrightarrow> logs es (run fs w)"
  by (rule post_run_inv)

lemma logs_when: "(\<And>w. since es w \<Longrightarrow> logs es (f w)) \<Longrightarrow> since es w \<Longrightarrow> logs es (when_step b f w)"
  by (simp add: when_step_def)

lemma logs_gives: "gives w G out \<Longrightarrow> since es w \<Longrightarrow> logs es out"
  by (erule post_mono) (simp_all add: since_def)

lemma silent_logs:
  "since es w \<Longrightarrow> logs es (Client_request X c r w)" "since es w \<Longrightarrow> logs es (Pool_request X r w)"
  "since es w \<Longrightarrow> logs es (Pool_putback X c w)"
  using Client_request_gives Pool_request_gives Pool_putback_gives by (blast intro: logs_gives)+

lemma start_item_since [simp]: "since es (snd (start_item c r k x w)) = since es w"
  by (cases x) simp_all

lemma form_loop_logs: "since es w \<Longrightarrow> logs es (form_loop c r n w)"
  by (induction n arbitrary: w) (simp_all add: Let_def split_beta)

lemma send_form_logs: "since es w \<Longrightarrow> logs es (send_form c w)"
proof -
  assume w: "since es w"
  have "logs es (run [form_loop c r n, pure_step (form_end c r)] w)" for r n
    by (rule logs_run [OF _ w]) (auto simp: form_loop_logs form_end_def)
  then show ?thesis using w by (simp add: send_form_def split: option.split)
qed

lemma stop_form_logs: "since es w \<Longrightarrow> logs es (stop_form c r w)"
proof -
  assume w: "since es w"
  have "logs es (stop_item r k x v)" if "since es v" for k x v
    using that by (cases "(r, k, x, v)" rule: stop_item.cases) simp_all
  then have "logs es (run [stop_item r k x, pure_step (upd_client c (\<lambda>k. k\<lparr>cl_form_field := - 1\<rparr>))] w)" for k x
    by (intro logs_run [OF _ w]) auto
  then show ?thesis using w by (simp add: stop_form_def Let_def del: run.simps)
qed

lemma settle_connection_logs: "since es w \<Longrightarrow> logs es (settle_connection c err res q w)"
  by (simp add: settle_connection_def drop_connection_def split: option.split)

lemma chunk_logs:
  "since es w \<Longrightarrow> logs es (Request_send_chunk r x w)" "since es w \<Longrightarrow> logs es (Request_send_final_chunk r x w)"
  by (simp_all add: Request_send_chunk_def Request_send_final_chunk_def Client_send_chunk_def
      Client_send_final_chunk_def split: option.split)

lemma follow_redirect_logs:
  assumes "since es w"
  shows "logs es (follow_redirect X c w)"
proof -
  have again: "logs es (run [pure_step (upd_client c (\<lambda>k. k\<lparr>cl_last_activity := cx_now X\<rparr>)),
      Pool_putback X c, pure_step (tcp_weak c True), Pool_request X r] w)" if "since es w" for r w
    by (rule logs_run [OF _ that]) (auto simp: silent_logs)
  have step: "logs es (run [pure_step (upd_client c (\<lambda>k. k\<lparr>cl_request := None, cl_response := None\<rparr>)),
      pure_step (\<lambda>w. if rp_keep p then w else tcp_reset c w), pure_step (upd_creq r cleanup_after_redirect),
      if b then run [pure_step (upd_client c (\<lambda>k. k\<lparr>cl_last_activity := cx_now X\<rparr>)),
        Pool_putback X c, pure_step (tcp_weak c True), Pool_request X r] else Client_request X c r]
      (upd_creq r h w))" for p :: cresponse and r b h
    by (rule logs_run) (use assms again in \<open>auto simp: silent_logs simp del: run.simps split: if_splits\<close>)
  show ?thesis
    using step [of _ _ True] step [of _ _ False]
    by (simp add: follow_redirect_def Let_def del: run.simps split: option.split)
qed

section \<open>The interface\<close>

locale logging =
  fixes X :: cext and cb :: ccallbacks
  assumes cb_logs: "since es w \<Longrightarrow> logs es (cb ev w)"
begin

lemma fire_logs: "since es w \<Longrightarrow> logs es (cfire cb ev w)"
  by (simp add: cfire_def cb_logs since_def)

lemma notify_logs: "since es w \<Longrightarrow> logs es (finish_and_notify cb r res err w)"
  unfolding finish_and_notify_def Let_def by (rule logs_run) (auto simp: fire_logs)

lemma finish_request_logs:
  assumes "since es w"
  shows "logs es (finish_request X cb c err w)"
proof -
  have "logs es (run [pure_step (upd_client c (\<lambda>k. k\<lparr>cl_request := None, cl_response := None\<rparr>)),
      settle_connection c e res q, stop_form c r,
      pure_step (upd_client c (\<lambda>k. k\<lparr>cl_last_activity := cx_now X\<rparr>)),
      when_step (\<lambda>w. cl_pooled (client w c)) (Pool_putback X c), finish_and_notify cb r res e] w)" for e res q r
    by (rule logs_run [OF _ assms])
      (auto simp: silent_logs notify_logs settle_connection_logs stop_form_logs intro: logs_when)
  then show ?thesis by (simp add: finish_request_def Let_def del: run.simps split: option.split)
qed

lemma Client_cancel_logs: "since es w \<Longrightarrow> logs es (Client_cancel X cb c err w)"
  unfolding Client_cancel_def by (auto intro!: logs_run simp: finish_request_logs simp del: run.simps)

lemma Pool_cancel_logs:
  assumes "since es w"
  shows "logs es (Pool_cancel_request X cb r err w)"
proof -
  have "logs es (run [finish_and_notify cb r None err, erase_queued nl v r] w)" for nl v
    by (rule logs_run [OF _ assms]) (auto simp: notify_logs erase_queued_def split: option.split)
  then show ?thesis by (simp add: Pool_cancel_request_def Let_def del: run.simps split: option.split)
qed

lemma Request_cancel_logs: "since es w \<Longrightarrow> logs es (Request_cancel X cb r err w)"
  by (simp add: Request_cancel_def Client_cancel_logs Pool_cancel_logs split: option.split)

lemma Request_on_timer_logs: "since es w \<Longrightarrow> logs es (Request_on_timer X cb r w)"
  by (simp add: Request_on_timer_def Client_timed_out_def Client_cancel_logs Pool_cancel_logs split: option.split)

lemma fire_redirect_logs:
  assumes "since es w"
  shows "logs es (fire_redirect X cb c ev w)"
proof -
  have "logs es (cfire cb ev (upd_client c (\<lambda>k. k\<lparr>cl_in_redirect := True\<rparr>) w))" (is "logs es ?out")
    by (rule fire_logs) (simp add: assms)
  then show ?thesis unfolding fire_redirect_def by (cases ?out) (auto split: outcome.split)
qed

lemma analyze_request_logs:
  assumes "since es w"
  shows "logs es (analyze_request X cb c w)"
proof -
  have "logs es (run [cfire cb ev, pure_step (upd_client c (\<lambda>k. k\<lparr>cl_response := None\<rparr>))] w)" for ev
    by (rule logs_run [OF _ assms]) (auto simp: fire_logs)
  moreover have "logs es (redirect_to X cb c r p v)" if "since es v" for r p v
    unfolding redirect_to_def Let_def
    by (rule logs_run [OF _ that]) (auto simp: fire_redirect_logs follow_redirect_logs)
  then have "logs es (redirect_request X cb c r p w)" for r p
    using assms by (simp add: redirect_request_def Let_def Client_cancel_logs)
  ultimately show ?thesis
    using assms by (simp add: analyze_request_def finish_request_logs del: run.simps split: option.split)
qed

lemma response_loop_logs: "since es w \<Longrightarrow> logs es (response_loop X cb c ps w)"
proof (induction ps arbitrary: w)
  case (Cons p ps)
  have take: "since es (take_response c p w)" using Cons.prems by (simp add: take_response_def)
  have deliver: "since es w \<Longrightarrow> logs es (deliver_part cb c w)" for w
    by (simp add: deliver_part_def fire_logs split: option.split)
  have "logs es (run [if rr_state p \<noteq> StDone then deliver_part cb c else analyze_request X cb c,
      response_loop X cb c ps] (take_response c p w))"
    by (rule logs_run [OF _ take]) (auto simp: deliver analyze_request_logs Cons.IH split: if_splits)
  then show ?case
    using take Cons.prems by (simp add: Let_def drop_connection_def Client_cancel_logs del: run.simps)
qed simp

lemma exec_ccmd_logs: "since es w \<Longrightarrow> logs es (exec_ccmd X cb a w)"
  by (cases a) (simp_all add: make_standalone_def Request_cancel_logs Client_cancel_logs chunk_logs silent_logs
      since_def [of es "next_clid_update f w" for f], simp_all add: since_def)

lemma chandle_logs: "since es w \<Longrightarrow> logs es (chandle X cb inp w)"
  by (cases inp) (simp_all add: ClientOutput_write_def Client_on_connect_def connect_done_def Client_on_write_def Client_cancel_logs
      Client_on_read_def response_loop_logs Client_on_eof_def Let_def analyze_request_logs Request_on_timer_logs
      Pool_check_inactivity_def form_file_complete_def finish_request_logs send_form_logs exec_ccmd_logs
      split: option.split)

end

section \<open>The interface holds for the user code of the model\<close>

lemma cuser_cb_logs: "since es w \<Longrightarrow> logs es (cuser_cb X u n ev w)"
proof (induction n arbitrary: es w ev)
  case 0
  then show ?case by simp
next
  case (Suc n)
  have "logging (cuser_cb X u n)" by unfold_locales (rule Suc.IH)
  from logging.exec_ccmd_logs [OF this] Suc.prems show ?case
    unfolding cuser_cb.simps by (intro logs_run) (auto simp: exec_cif_def split: option.split)
qed

interpretation log_user: logging X "cuser_cb X u n"
  by unfold_locales (rule cuser_cb_logs)

lemma loop_run_logs:
  "loop_run X (user_cbs u n) inps w = Done w' \<Longrightarrow> since es w \<Longrightarrow> since es w'"
proof (induction X "user_cbs u n" inps w rule: loop_run.induct)
  case (2 X now inp inps w)
  then show ?case
    using log_user.chandle_logs [of es w "at_time X now" u n inp]
    by (auto split: if_splits outcome.splits)
qed simp

end
