(* ===== verification/HttpSync.thy ===== *)
theory HttpSync
  imports EventLog
begin

text \<open>
  The functions of \<^verbatim>\<open>http.h\<close> and \<^verbatim>\<open>http.icc\<close>: a request by the pool of a loop, and a synchronous one,
  which runs a loop of its own until the request is answered.
\<close>

section \<open>Loops and their pools\<close>

text \<open>
  Each loop has its world; the loops that have a pool are in the order in which \<^verbatim>\<open>Pool::instance\<close> made
  them. Loop 0 is the default one. \<open>hs_stale\<close> are the requests of the synchronous loop that still have
  the callback of a synchronous call that is over.
\<close>

record http_state =
  hs_world :: "nat \<Rightarrow> cworld"
  hs_instances :: "nat list"
  hs_loops :: nat
  hs_sync_loop :: "nat option"
  hs_busy :: bool
  hs_stale :: "crid set"

definition Pool_instance :: "nat \<Rightarrow> http_state \<Rightarrow> http_state" where
  "Pool_instance l h =
     (if l \<in> set (hs_instances h) then h
      else h\<lparr>hs_instances := hs_instances h @ [l],
             hs_world := (hs_world h)(l := (hs_world h l)
               \<lparr>pool := new_pool POOL_MAX_CONNECTIONS POOL_IDLE_TIMEOUT\<rparr>)\<rparr>)"

definition in_loop :: "nat \<Rightarrow> cworld call \<Rightarrow> http_state call" where
  "in_loop l f h =
     (case f (hs_world h l) of
        Done w \<Rightarrow> Done (h\<lparr>hs_world := (hs_world h)(l := w)\<rparr>)
      | Throw e w \<Rightarrow> Throw e (h\<lparr>hs_world := (hs_world h)(l := w)\<rparr>)
      | Crash f \<Rightarrow> Crash f)"

definition http_request :: "cext \<Rightarrow> crid \<Rightarrow> nat option \<Rightarrow> http_state call" where
  "http_request X r loop h =
     (let l = (case loop of None \<Rightarrow> 0 | Some l \<Rightarrow> l)
      in in_loop l (Pool_request X r) (Pool_instance l h))"

text \<open>\<open>r\<close> is the new request object; \<open>q\<close> is what its class is by default.\<close>

definition new_get :: "crequest \<Rightarrow> uri \<Rightarrow> crequest" where
  "new_get q u = q\<lparr>cq_uri := Some u, cq_method := ''GET''\<rparr>"

definition put_request :: "nat \<Rightarrow> crid \<Rightarrow> crequest \<Rightarrow> http_state \<Rightarrow> http_state" where
  "put_request l r q h = h\<lparr>hs_world := (hs_world h)(l := upd_creq r (\<lambda>_. q) (hs_world h l))\<rparr>"

definition http_get :: "cext \<Rightarrow> crequest \<Rightarrow> crid \<Rightarrow> uri \<Rightarrow> nat option \<Rightarrow> http_state call" where
  "http_get X q r u loop h =
     http_request X r loop (put_request (case loop of None \<Rightarrow> 0 | Some l \<Rightarrow> l) r (new_get q u) h)"

section \<open>The synchronous request\<close>

text \<open>
  The callback that the call adds to the request writes the result: an error, or a response that is
  null at first.
\<close>

type_synonym sync_result = "error_code + cresponse option"

fun told :: "crid \<Rightarrow> cevent \<Rightarrow> sync_result \<Rightarrow> sync_result" where
  "told r (ResponseEvent q p err) ret =
     (if q \<noteq> r then ret else if err \<noteq> NoError then Inl err else Inr (Some p))"
| "told r ev ret = ret"

definition sync_result :: "crid \<Rightarrow> cevent list \<Rightarrow> sync_result" where
  "sync_result r evs = fold (told r) evs (Inr None)"

text \<open>
  The callback is not removed. It refers to a variable of the call: when it is called after the call is
  over, the behaviour is undefined.
\<close>

definition dangling :: "crid set \<Rightarrow> cevent list \<Rightarrow> bool" where
  "dangling stale evs \<longleftrightarrow> list_ex (\<lambda>ev. case ev of ResponseEvent q p err \<Rightarrow> q \<in> stale | _ \<Rightarrow> False) evs"

text \<open>\<open>sync_pool\<close>: the loop and the pool are made by the first call.\<close>

definition sync_pool :: "http_state \<Rightarrow> http_state" where
  "sync_pool h =
     (case hs_sync_loop h of
        Some l \<Rightarrow> h
      | None \<Rightarrow> Pool_instance (hs_loops h)
                 (h\<lparr>hs_sync_loop := Some (hs_loops h), hs_loops := Suc (hs_loops h)\<rparr>))"

text \<open>
  What the call does in its loop. The events that the loop delivers come from outside: \<open>before\<close> in the
  round before the request, if the pool has connections, and \<open>inps\<close> until nothing is left to wait for.
\<close>

definition sync_steps ::
  "cext \<Rightarrow> (cext \<Rightarrow> ccallbacks) \<Rightarrow> (u64 \<times> cinput) list \<Rightarrow> (u64 \<times> cinput) list \<Rightarrow> crid \<Rightarrow>
   cworld call" where
  "sync_steps X cbs before inps r =
     run [when_step (\<lambda>w. \<not> Pool_empty (pool w)) (loop_run X cbs before),
          Pool_request X r,
          loop_run X cbs inps]"

text \<open>The guard is released and the callback is left behind, whether the call returns or throws.\<close>

definition leave_sync :: "nat \<Rightarrow> crid \<Rightarrow> cworld \<Rightarrow> http_state \<Rightarrow> http_state" where
  "leave_sync l r w h =
     h\<lparr>hs_world := (hs_world h)(l := w), hs_busy := False, hs_stale := insert r (hs_stale h)\<rparr>"

definition http_request_sync ::
  "cext \<Rightarrow> (cext \<Rightarrow> ccallbacks) \<Rightarrow> (u64 \<times> cinput) list \<Rightarrow> (u64 \<times> cinput) list \<Rightarrow> crid \<Rightarrow>
   http_state \<Rightarrow> http_state outcome \<times> sync_result" where
  "http_request_sync X cbs before inps r h0 =
     (let h = sync_pool h0;
          l = the (hs_sync_loop h);
          fired = (\<lambda>w. drop (length (cevents (hs_world h l))) (cevents w))
      in if hs_busy h then
           (Throw (PandaException ''recursive syncronous http request detected'') h, Inr None)
         else
           (case sync_steps X cbs before inps r (hs_world h l) of
              Done w \<Rightarrow>
                (if dangling (hs_stale h) (fired w) then Crash DanglingReference
                 else Done (leave_sync l r w h), sync_result r (fired w))
            | Throw e w \<Rightarrow>
                (if dangling (hs_stale h) (fired w) then Crash DanglingReference
                 else Throw e (leave_sync l r w h), Inr None)
            | Crash f \<Rightarrow> (Crash f, Inr None)))"

definition http_get_sync ::
  "cext \<Rightarrow> (cext \<Rightarrow> ccallbacks) \<Rightarrow> (u64 \<times> cinput) list \<Rightarrow> (u64 \<times> cinput) list \<Rightarrow> crequest \<Rightarrow> crid \<Rightarrow>
   uri \<Rightarrow> http_state \<Rightarrow> http_state outcome \<times> sync_result" where
  "http_get_sync X cbs before inps q r u h0 =
     (let h = sync_pool h0
      in http_request_sync X cbs before inps r (put_request (the (hs_sync_loop h)) r (new_get q u) h))"

section \<open>The result\<close>






text \<open>The request 0 of the demo, sent by a synchronous call.\<close>

definition demo_http :: http_state where
  "demo_http = \<lparr>hs_world = (\<lambda>_. demo_cworld 3), hs_instances = [1], hs_loops = 2, hs_sync_loop = Some 1,
     hs_busy = False, hs_stale = {}\<rparr>"

definition demo_answer :: "(u64 \<times> cinput) list" where
  "demo_answer = map (Pair 5000) [ClientConnected 0 NoError, ClientRead 0 [answer 200 ''''] NoError]"



section \<open>Recursive calls, and requests that are used again\<close>

text \<open>While a call runs, another one throws and changes nothing.\<close>

lemma recursive_call_refused:
  assumes "hs_busy h" and "hs_sync_loop h = Some l"
  shows "http_request_sync X cbs before inps r h =
    (Throw (PandaException ''recursive syncronous http request detected'') h, Inr None)"
  using assms by (simp add: http_request_sync_def sync_pool_def)

text \<open>
  A request that was used for a synchronous call can not be used again: its second answer calls the
  callback that the first call has left behind.
\<close>

lemma request_used_twice_dangles:
  "\<exists>h'. fst (http_request_sync demo_cext (user_cbs quiet_user 1) [] demo_answer 0 demo_http) = Done h' \<and>
    fst (http_request_sync demo_cext (user_cbs quiet_user 1) [] [(5000, ClientRead 0 [answer 200 ''''] NoError)] 0 h') =
      Crash DanglingReference"
  by (simp add: http_request_sync_def sync_pool_def sync_steps_def demo_http_def demo_answer_def
      demo_at_time cdemo_eval at_time_def dangling_def leave_sync_def sync_result_def Pool_empty_def)

end
