(* ===== verification/Builders.thy ===== *)
theory Builders
  imports ServerConfig HttpSync
begin

text \<open>
  Objects that are put together step by step: the setters of a location of the server
  (\<^verbatim>\<open>Server.h\<close>) and \<^verbatim>\<open>Request::Builder\<close> (\<^verbatim>\<open>Request.h\<close>).
\<close>

section \<open>Locations\<close>

datatype location_step =
    SetHost string
  | SetPort "16 word"
  | SetPath string
  | SetReusePort bool
  | SetBacklog "32 word"
  | SetDomain int
  | SetSslCtx "nat option"
  | SetSock "nat option"
  | SetTcpNodelay bool

fun set_location :: "location_step \<Rightarrow> location \<Rightarrow> location" where
  "set_location (SetHost v) l = l\<lparr>loc_host := v\<rparr>"
| "set_location (SetPort v) l = l\<lparr>loc_port := v\<rparr>"
| "set_location (SetPath v) l = l\<lparr>loc_path := v\<rparr>"
| "set_location (SetReusePort v) l = l\<lparr>loc_reuse_port := v\<rparr>"
| "set_location (SetBacklog v) l = l\<lparr>loc_backlog := v\<rparr>"
| "set_location (SetDomain v) l = l\<lparr>loc_domain := v\<rparr>"
| "set_location (SetSslCtx v) l = l\<lparr>loc_ssl_ctx := v\<rparr>"
| "set_location (SetSock v) l = l\<lparr>loc_sock := v\<rparr>"
| "set_location (SetTcpNodelay v) l = l\<lparr>loc_tcp_nodelay := v\<rparr>"

definition location_of :: "int \<Rightarrow> string \<Rightarrow> 16 word \<Rightarrow> 32 word \<Rightarrow> nat option \<Rightarrow> location" where
  "location_of af_inet host port backlog ctx =
     (default_location af_inet)\<lparr>loc_host := host, loc_port := port, loc_backlog := backlog, loc_ssl_ctx := ctx\<rparr>"

text \<open>The constructor is the default location after three setters and the backlog.\<close>

lemma location_of_steps:
  "location_of af_inet host port backlog ctx =
     fold set_location [SetHost host, SetPort port, SetBacklog backlog, SetSslCtx ctx] (default_location af_inet)"
  by (simp add: location_of_def)

section \<open>Requests\<close>

text \<open>
  The steps of the builder but for the callbacks, which belong to the user code here. The items of a
  form turn streaming on (\<^verbatim>\<open>form_stream\<close> of the message class). A file is given as an input, a handle.
\<close>

datatype builder_step =
    Timeout u64
  | ConnectTimeout u64
  | FollowRedirect bool
  | RedirectionLimit "16 word"
  | SslCtx "nat option"
  | SslCheckCert bool
  | UseProxy "proxy option"
  | TcpNodelay bool
  | WithField string string
  | WithItem form_item
  | WithData string string string string
  | WithFile string nat string string

definition add_item :: "form_item \<Rightarrow> crequest \<Rightarrow> crequest" where
  "add_item x q = q\<lparr>cq_streaming := True, cq_form := cq_form q @ [x]\<rparr>"

fun build_step :: "builder_step \<Rightarrow> crequest \<Rightarrow> crequest" where
  "build_step (Timeout v) q = q\<lparr>cq_timeout := v\<rparr>"
| "build_step (ConnectTimeout v) q = q\<lparr>cq_connect_timeout := v\<rparr>"
| "build_step (FollowRedirect v) q = q\<lparr>cq_follow := v\<rparr>"
| "build_step (RedirectionLimit v) q = q\<lparr>cq_limit := v\<rparr>"
| "build_step (SslCtx v) q = q\<lparr>cq_ssl_ctx := v\<rparr>"
| "build_step (SslCheckCert v) q = q\<lparr>cq_check_cert := v\<rparr>"
| "build_step (UseProxy v) q = q\<lparr>cq_proxy := v\<rparr>"
| "build_step (TcpNodelay v) q = q\<lparr>cq_nodelay := v\<rparr>"
| "build_step (WithField name content) q = add_item (FormField name content) q"
| "build_step (WithItem x) q = add_item x q"
| "build_step (WithData name content mime filename) q =
     add_item (FormEmbeddedFile name content mime filename) q"
| "build_step (WithFile name inp mime filename) q =
     add_item (FormFile name (Some inp) mime filename None) q"

definition build :: "builder_step list \<Rightarrow> crequest \<Rightarrow> crequest" where
  "build steps q = fold build_step steps q"

text \<open>The mime type of a form's files by default.\<close>

definition DEFAULT_MIME :: string where
  "DEFAULT_MIME = ''application/octet-stream''"

section \<open>What a builder makes\<close>

text \<open>
  The private state of the request is that of a new one, so giving a request what a builder makes is a
  \<open>SetRequest\<close> of the user code, and all theorems on reachable states cover built requests.
\<close>

lemma build_private:
  "cq_counter (build steps q) = cq_counter q" "cq_transferred (build steps q) = cq_transferred q"
  "cq_client (build steps q) = cq_client q" "cq_pool (build steps q) = cq_pool q"
  "cq_timer (build steps q) = cq_timer q"
proof -
  have step: "cq_counter (build_step s z) = cq_counter z \<and> cq_transferred (build_step s z) = cq_transferred z \<and>
    cq_client (build_step s z) = cq_client z \<and> cq_pool (build_step s z) = cq_pool z \<and>
    cq_timer (build_step s z) = cq_timer z" for s z
    by (cases s) (simp_all add: add_item_def)
  have "cq_counter (build steps q) = cq_counter q \<and> cq_transferred (build steps q) = cq_transferred q \<and>
    cq_client (build steps q) = cq_client q \<and> cq_pool (build steps q) = cq_pool q \<and>
    cq_timer (build steps q) = cq_timer q"
    unfolding build_def by (induction steps arbitrary: q) (simp_all add: step)
  then show "cq_counter (build steps q) = cq_counter q" "cq_transferred (build steps q) = cq_transferred q"
    "cq_client (build steps q) = cq_client q" "cq_pool (build steps q) = cq_pool q"
    "cq_timer (build steps q) = cq_timer q" by simp_all
qed

lemma build_is_set_request:
  "exec_ccmd X cb (SetRequest r (build steps (creq w r))) w = Done (upd_creq r (build steps) w)"
proof -
  have "set_public (build steps q) q = build steps q" for q
    by (rule crequest.equality) (simp_all add: set_public_def build_private)
  then show ?thesis by (simp add: upd_creq_def)
qed

text \<open>The form of a built request has the items in the order in which they were given.\<close>

fun item_of :: "builder_step \<Rightarrow> form_item list" where
  "item_of (WithField name content) = [FormField name content]"
| "item_of (WithItem x) = [x]"
| "item_of (WithData name content mime filename) = [FormEmbeddedFile name content mime filename]"
| "item_of (WithFile name inp mime filename) = [FormFile name (Some inp) mime filename None]"
| "item_of s = []"

lemma build_form: "cq_form (build steps q) = cq_form q @ concat (map item_of steps)"
proof -
  have "cq_form (build_step s z) = cq_form z @ item_of s" for s z
    by (cases s) (simp_all add: add_item_def)
  then show ?thesis
    unfolding build_def by (induction steps arbitrary: q) simp_all
qed

end
