(* ===== verification/Printing.thy ===== *)
theory Printing
  imports ServerConfig HttpDate ClientState
begin

text \<open>
  What the sources print of configurations and locations (\<^verbatim>\<open>Server.cc\<close>, \<^verbatim>\<open>Request.icc\<close>), and the addresses
  they report (\<^verbatim>\<open>ServerConnection.cc\<close>, \<^verbatim>\<open>ServerRequest.icc\<close>).
\<close>

section \<open>Numbers and truth values in a stream\<close>

function decimal :: "nat \<Rightarrow> string" where
  "decimal n = (if n < 10 then [digit_char (int n)] else decimal (n div 10) @ [digit_char (int (n mod 10))])"
  by auto
termination by (relation "measure id") auto

declare decimal.simps [simp del]

definition print_int :: "int \<Rightarrow> string" where
  "print_int n = (if n < 0 then ''-'' @ decimal (nat (- n)) else decimal (nat n))"

definition print_bool :: "bool \<Rightarrow> string" where
  "print_bool b = (if b then ''1'' else ''0'')"

lemma read_digits_append: "read_digits (xs @ ys) acc = read_digits ys (read_digits xs acc)"
  by (induction xs acc rule: read_digits.induct) simp_all

text \<open>What is printed can be read back.\<close>

lemma read_decimal: "read_digits (decimal n) 0 = int n"
proof (induction n rule: decimal.induct)
  case (1 n)
  show ?case
  proof (cases "n < 10")
    case True
    then have "decimal n = [digit_char (int n)]" by (subst decimal.simps) simp
    then show ?thesis using char_digit_digit_char [of "int n"] True by simp
  next
    case False
    then have "decimal n = decimal (n div 10) @ [digit_char (int (n mod 10))]"
      by (subst decimal.simps) (simp only: if_False)
    moreover have "char_digit (digit_char (int (n mod 10))) = int (n mod 10)"
      by (rule char_digit_digit_char) simp_all
    ultimately have "read_digits (decimal n) 0 = 10 * int (n div 10) + int (n mod 10)"
      using 1 [OF False] by (simp only: read_digits_append read_digits.simps)
    also have "\<dots> = int (10 * (n div 10) + n mod 10)" by (simp only: of_nat_add of_nat_mult of_nat_numeral)
    finally show ?thesis by (simp only: mult_div_mod_eq)
  qed
qed

lemma decimal_inject: "decimal m = decimal n \<longleftrightarrow> m = n"
  by (metis read_decimal of_nat_eq_iff)

section \<open>\<^verbatim>\<open>operator<<\<close>\<close>

text \<open>
  \<^verbatim>\<open>getsockname\<close> of a custom socket, outside the repository, gives an IP address and a port, or fails.
\<close>

definition print_location :: "(nat \<Rightarrow> (string \<times> nat) option) \<Rightarrow> location \<Rightarrow> string" where
  "print_location getsockname l =
     ''{uri: '' @ (if loc_ssl_ctx l \<noteq> None then ''https://'' else ''http://'') @
     (if loc_path l \<noteq> '''' then ''<unix:'' @ loc_path l @ ''>''
      else case loc_sock l of
        Some s \<Rightarrow>
          (case getsockname s of
             Some (ip, port) \<Rightarrow> ip @ '':'' @ decimal port @ '', reuse_port: false''
           | None \<Rightarrow> ''<unknown custom socket>'') @
          '', tcp_nodelay: '' @ print_bool (loc_tcp_nodelay l)
      | None \<Rightarrow>
          loc_host l @ '':'' @ decimal (unat (loc_port l)) @
          '', reuse_port: '' @ print_bool (loc_reuse_port l) @
          '', tcp_nodelay: '' @ print_bool (loc_tcp_nodelay l)) @
     '', backlog: '' @ print_int (sint (loc_backlog l)) @ ''}''"

definition print_config ::
  "(nat \<Rightarrow> (string \<times> nat) option) \<Rightarrow> u64 \<Rightarrow> config \<Rightarrow> string" where
  "print_config getsockname size_unlimited c =
     ''{idle_timeout: '' @ decimal (unat (cf_idle_timeout c div 1000)) @ ''s'' @
     '', max_headers_size: '' @ decimal (unat (cf_max_headers_size c)) @
     (if cf_max_body_size c \<noteq> size_unlimited
      then '', max_body_size: '' @ decimal (unat (cf_max_body_size c)) else '''') @
     (if cf_max_keepalive_requests c \<noteq> 0
      then '', max_keepalive_requests: '' @ decimal (unat (cf_max_keepalive_requests c)) else '''') @
     '', tcp_nodelay: '' @ print_bool (cf_tcp_nodelay c) @ '', locations: ['' @
     concat (map (\<lambda>l. print_location getsockname l @ '', '') (cf_locations c)) @ '']}''"

definition print_netloc :: "netloc \<Rightarrow> string" where
  "print_netloc n = nl_host n @ '':'' @ decimal (unat (nl_port n))"

lemma split_at_first:
  "xs @ c # as = ys @ c # bs \<Longrightarrow> c \<notin> set xs \<Longrightarrow> c \<notin> set ys \<Longrightarrow> xs = ys \<and> as = bs"
proof (induction xs arbitrary: ys)
  case Nil
  then show ?case by (cases ys) simp_all
next
  case (Cons x xs)
  then show ?case by (cases ys) auto
qed

text \<open>The text of a network location has its host and port, if the host has no colon.\<close>

lemma print_netloc_inject:
  assumes "print_netloc a = print_netloc b" and "CHR '':'' \<notin> set (nl_host a)" and "CHR '':'' \<notin> set (nl_host b)"
  shows "nl_host a = nl_host b \<and> nl_port a = nl_port b"
proof -
  have "nl_host a = nl_host b \<and> decimal (unat (nl_port a)) = decimal (unat (nl_port b))"
    using split_at_first [OF _ assms(2,3)] assms(1) by (simp add: print_netloc_def)
  then show ?thesis by (simp add: decimal_inject word_unat_eq_iff)
qed

section \<open>Addresses\<close>

text \<open>
  What a stream reports, outside the repository: for a TCP stream its addresses, for a pipe its names.
\<close>

datatype stream_names =
    TcpNames "error_code + string" "error_code + string"
  | PipeNames "error_code + string" "error_code + string"

fun get_sockaddr :: "(string \<Rightarrow> string) \<Rightarrow> stream_names \<Rightarrow> error_code + string" where
  "get_sockaddr unix (TcpNames addr peer) = addr"
| "get_sockaddr unix (PipeNames name peer) = (case name of Inl e \<Rightarrow> Inl e | Inr n \<Rightarrow> Inr (unix n))"

fun get_peeraddr :: "(string \<Rightarrow> string) \<Rightarrow> stream_names \<Rightarrow> error_code + string" where
  "get_peeraddr unix (TcpNames addr peer) = peer"
| "get_peeraddr unix (PipeNames name peer) = (case peer of Inl e \<Rightarrow> Inl e | Inr n \<Rightarrow> Inr (unix n))"

text \<open>
  \<^verbatim>\<open>ServerRequest::sockaddr\<close>: an empty address without a connection; otherwise \<^verbatim>\<open>value()\<close> of what the
  connection reports, which throws if that is an error.
\<close>

definition request_addr :: "string \<Rightarrow> (error_code + string) option \<Rightarrow> exn + string" where
  "request_addr none a =
     (case a of
        None \<Rightarrow> Inr none
      | Some (Inl e) \<Rightarrow> Inl BadExpectedAccess
      | Some (Inr s) \<Rightarrow> Inr s)"

definition ServerRequest_sockaddr ::
  "(string \<Rightarrow> string) \<Rightarrow> string \<Rightarrow> stream_names option \<Rightarrow> exn + string" where
  "ServerRequest_sockaddr unix none conn = request_addr none (map_option (get_sockaddr unix) conn)"

definition ServerRequest_peeraddr ::
  "(string \<Rightarrow> string) \<Rightarrow> string \<Rightarrow> stream_names option \<Rightarrow> exn + string" where
  "ServerRequest_peeraddr unix none conn = request_addr none (map_option (get_peeraddr unix) conn)"

end
