(* ===== verification/Spec2Isabelle.thy ===== *)
theory Spec2Isabelle
  imports Defects ClientDefects UserAgent Timeouts Builders Printing
begin

text \<open>
  A verification development for UniEvent-HTTP, an asynchronous HTTP server and client in C++ on top
  of the event loop UniEvent and the message parser Protocol-HTTP. The sources are in
  \<^verbatim>\<open>src/panda/unievent/http\<close>.

  \<^bold>\<open>The program.\<close> A \<^verbatim>\<open>Server\<close> listens on the locations of its configuration and owns a map of
  \<^verbatim>\<open>ServerConnection\<close>s. A connection is the listener of its stream: it feeds what arrives to the
  parser, queues the requests, calls the user's callbacks (route, receive, request, partial, error,
  drop, finish), and writes the responses in the order of the requests, whenever they are given. The
  user answers through the \<^verbatim>\<open>ServerRequest\<close> and the \<^verbatim>\<open>ServerResponse\<close> objects, from inside a
  callback or later, as a whole or in chunks.

  On the other side, a \<^verbatim>\<open>Client\<close> is a connection that works for one \<^verbatim>\<open>Request\<close> at a time: it connects
  if it has to, writes the request and the items of its \<^verbatim>\<open>Form\<close>, reads the answer, follows redirects
  and tells the user by the events of the request. A \<^verbatim>\<open>Pool\<close> keeps the clients for each network
  location, free or busy, up to a limit, and a queue of the requests that wait for one. A \<^verbatim>\<open>UserAgent\<close>
  adds cookies and defaults to requests that go through a pool. A synchronous request runs an event
  loop of its own until it is answered.

  \<^bold>\<open>Shared theories.\<close>
  \<^item> \<open>Errors\<close>: \<^verbatim>\<open>error.h\<close>, \<^verbatim>\<open>error.icc\<close>; exceptions and undefined behaviour as values.
  \<^item> \<open>Prelude\<close>: outcomes of calls, sequencing, postconditions.

  \<^bold>\<open>Theories of the server.\<close>
  \<^item> \<open>HttpDate\<close>: \<^verbatim>\<open>rfc822_date\<close> of \<^verbatim>\<open>Server.cc\<close>.
  \<^item> \<open>ServerConfig\<close>: \<^verbatim>\<open>Location\<close>, \<^verbatim>\<open>Config\<close> and their checks (\<^verbatim>\<open>Server.h\<close>, \<^verbatim>\<open>Server.cc\<close>).
  \<^item> \<open>ServerState\<close>: the objects as records in one store, the \<open>world\<close>; the reference-counted pointers
    of the code are identities there. The stream keeps what is written to it, in messages.
  \<^item> \<open>ServerCore\<close>, \<open>ServerConnection\<close>, \<open>ServerRequest\<close>, \<open>Server\<close>: the methods of these classes, one
    definition each, as calls on the world. A callback is an arbitrary call, and the state is read
    again after it, so that what the user does from inside a callback is part of the model.
  \<^item> \<open>Wire\<close>: the abstract specification of a connection, a grammar of what it sends.
  \<^item> \<open>Inert\<close>, \<open>ServerInv\<close>, \<open>ServerUpdates\<close>, \<open>ServerSafe\<close>, \<open>ServerHandlers\<close>: the invariant of the
    server, and that every method keeps it; the interfaces \<open>inert_callbacks\<close> and
    \<open>callback_contract\<close> say what is asked of the user code.
  \<^item> \<open>ServerUser\<close>: the user code as programs of calls on the public interface, the events of streams
    and timers, and the reachable states; the interfaces are interpreted on the user code.
  \<^item> \<open>ServerDemo\<close>: concrete runs, at which the theorems are instantiated.
  \<^item> \<open>Pipeline\<close>, \<open>Closing\<close>, \<open>Stopping\<close>, \<open>Listening\<close>, \<open>Chronicle\<close>, \<open>LastAnswer\<close>: what the
    operations do, on their branches.
  \<^item> \<open>Defects\<close>: runs of the code that end in undefined behaviour or lose data.

  \<^bold>\<open>Theories of the client side.\<close>
  \<^item> \<open>ClientState\<close>: requests, clients and the pool as one store, the \<open>cworld\<close> (\<^verbatim>\<open>Request.h\<close>,
    \<^verbatim>\<open>Response.h\<close>, \<^verbatim>\<open>Form.h\<close>, \<^verbatim>\<open>Client.h\<close>, \<^verbatim>\<open>Pool.h\<close>).
  \<^item> \<open>ClientRequest\<close>, \<open>Pool\<close>, \<open>Client\<close>: the methods, up to \<^verbatim>\<open>Client::request\<close> (\<^verbatim>\<open>Request.icc\<close>,
    \<^verbatim>\<open>Form.cc\<close>, \<^verbatim>\<open>Client.cc\<close>), of the pool (\<^verbatim>\<open>Pool.cc\<close>), and from the answer to the end of a request.
  \<^item> \<open>ClientUser\<close>: user code, events and reachable states.
  \<^item> \<open>ClientServe\<close>, \<open>ClientInv\<close>, \<open>ClientSafe\<close>, \<open>ClientHandlers\<close>, \<open>ClientReach\<close>: the invariant, that
    every operation keeps it (interface \<open>client_contract\<close>), and that every reachable state has it.
  \<^item> \<open>ClientDemo\<close>: a concrete run.
  \<^item> \<open>PoolSpec\<close>: the abstract pool of idle, busy and waiting, and that the operations refine it.
  \<^item> \<open>ClientSends\<close>, \<open>RequestEnds\<close>, \<open>Redirects\<close>, \<open>PoolTheorems\<close>, \<open>PoolBounds\<close>: what sending, the end
    of a request and a redirect do; the properties of the pool, among them those that every change of
    its entries keeps (interface \<open>pool_kept\<close>).
  \<^item> \<open>Timeouts\<close>: a request in progress with a timeout has a running timer that ends it (interface \<open>timer_contract\<close>).
  \<^item> \<open>Answers\<close>, \<open>EventLog\<close>: one answer for each request (interface \<open>answer_contract\<close>), and that fired
    events stay fired (interface \<open>logging\<close>).
  \<^item> \<open>HttpSync\<close>: \<^verbatim>\<open>http.h\<close> and \<^verbatim>\<open>http.icc\<close>, with the synchronous request.
  \<^item> \<open>UserAgent\<close>: the user agent (\<^verbatim>\<open>UserAgent.h\<close>, \<^verbatim>\<open>UserAgent.cc\<close>).
  \<^item> \<open>ClientDefects\<close>: runs of the client side that go wrong.

  \<^bold>\<open>Small parts.\<close>
  \<^item> \<open>Builders\<close>: the setters of locations and \<^verbatim>\<open>Request::Builder\<close>.
  \<^item> \<open>Printing\<close>: the text of configurations and locations, and reported addresses.

  \<^bold>\<open>Rules of the user code.\<close> On the server, the theorems on reachable states hold for user code that
  keeps two rules: in a callback for a request that has left its connection it makes only calls that
  have no effect for such a request, and it upgrades a request only before it answers it. \<open>Defects\<close>
  shows that the first is needed. On the client side (\<open>cpermitted\<close>, \<open>plain\<close>), a request is changed and
  submitted only while it is idle; its URI has a scheme, its proxy is of a supported kind, it has no
  SSL context of its own and no file in its form; a cancellation has an error; and the clients of the
  pool are left to the pool. \<open>ClientDefects\<close> shows what happens without a scheme, with an SSL context,
  with an unsupported proxy and with a file.

  \<^bold>\<open>Bounds.\<close> The loops of the code that depend on callbacks have a bound on their rounds, the number
  of requests or connections when they start; that it is enough is the theorem \<open>loops_bounded\<close>, and
  \<open>stop_closes_everything\<close> for \<^verbatim>\<open>Server::stop\<close>. The loop over the items of a form is bounded by the
  items that are left, which is enough by \<open>form_loop_plain\<close>. \<open>user_cb\<close> and \<open>cuser_cb\<close> bound the
  depth of callbacks within callbacks by an argument over which the reachable states quantify.

  \<^bold>\<open>Parameters.\<close> Code outside the repository is an argument: the clock, the reason phrases, the case
  insensitive comparison, the addresses of sockets and whether they can be bound are fields of the
  record \<open>ext\<close>; for the client side, the parser of URIs, the default SSL contexts, the lookup of headers
  and the order of addresses of client objects are fields of \<open>cext\<close>, and the cookie jar is a \<open>jar_ext\<close>.
  The parser is the sequence of its results on a buffer, of which \<open>parser_law\<close> says that it makes a new
  request object exactly when the last one is complete, and \<open>context_law\<close> that a complete final
  response ends its context.

  \<^bold>\<open>Not modelled.\<close> The memory of objects: a reference that the code keeps alive by a smart pointer is
  valid here, and the raw pointers are only followed while their target exists. Objects that nothing
  refers to stay in the store; the destructor of a request on the server, which unlinks its response,
  is left out. A response object is
  used for one request. Custom factories, SSL contexts and the addresses reported for streams are
  only passed on by the code. The streamer that reads a file of a form is outside the repository; the
  pieces it passes on and its end are events. A form item belongs to one request. The hash of a network location and the log have no effect on the state. What a
  request writes to a stream is kept in messages, not in bytes: their text is made outside the
  repository.
\<close>

section \<open>What a connection sends\<close>

text \<open>
  C1: Whatever the user code does (within its two rules), whatever the clients send and in whatever
  order the events come: what the server writes to a connection is a sequence of whole messages, one
  response after the other in the order of the requests, a chunked response not interrupted by
  anything else, an interim response only before the response of its request, and nothing after a
  response that ends the connection.
\<close>

theorem responses_well_formed:
  assumes "reachable conf u w"
  shows "wire_ok (st_out (stream (conn w i)))"
  using reachable_good [OF assms] good_wire_ok by blast

theorem responses_well_formed_witness:
  "wire_ok [Head 0 1 False True [''first''], Head 1 0 False True [''second''],
     Head 2 2 True False [], Chunk 2 ''a'', Final 2 ''b'']"
  using responses_well_formed [OF demo_reachable, of 7 1] by (simp only: demo_world_7)








section \<open>Invariants of the server\<close>



text \<open>
  C16: A request is in the queue of exactly the connection it points back to, and it points to the
  server only while it is in a queue; a request and its response point at each other. The queue of a
  connection holds its requests in the order of their arrival, without repetition, and at most one
  of them, the one that is being parsed, has not been received in full.
\<close>

theorem queues_and_links:
  assumes "reachable conf u w"
  shows "(\<forall>r i. r_conn (req w r) = Some i \<longleftrightarrow> r \<in> set (requests (conn w i))) \<and>
    (\<forall>r. r_server (req w r) \<longrightarrow> r_conn (req w r) \<noteq> None) \<and>
    (\<forall>r s. r_resp (req w r) = Some s \<longleftrightarrow> s_req (res w s) = Some r) \<and>
    (\<forall>i. sorted_wrt (<) (requests (conn w i)) \<and> distinct (requests (conn w i)) \<and>
       length (filter (\<lambda>r. \<not> r_done (req w r)) (requests (conn w i))) \<le> 1)"
proof -
  obtain K where K: "base_inv K w"
    using reachable_good [OF assms] by (auto simp: good_def)
  then have sorted: "sorted_wrt (<) (requests (conn w i))" for i by (rule base_sorted)
  have "length (filter (\<lambda>r. \<not> r_done (req w r)) (requests (conn w i))) \<le> 1" for i
  proof -
    have "filter (\<lambda>r. \<not> r_done (req w r)) (requests (conn w i)) =
        filter (\<lambda>r. \<not> r_done (req w r) \<and> cur (conn w i) = Some r) (requests (conn w i))"
      using base_undone [OF K] by (intro filter_cong) auto
    moreover have "length (filter (\<lambda>r. \<not> r_done (req w r) \<and> Q = Some r) xs) \<le> 1"
      if "distinct xs" for Q and xs :: "rid list"
      using that by (induction xs) (auto simp: filter_empty_conv)
    ultimately show ?thesis
      using sorted_wrt_less_distinct [OF sorted] by metis
  qed
  moreover have "links_ok w" "resp_ok w"
    using K by (simp_all add: base_inv_def)
  ultimately show ?thesis
    using sorted sorted_wrt_less_distinct [OF sorted] unfolding links_ok_def resp_ok_def by blast
qed

theorem queues_and_links_witness:
  "sorted_wrt (<) (requests (conn (demo_world 2) 1)) \<and> r_conn (req (demo_world 2) 1) = Some 1"
  using queues_and_links [OF demo_reachable, of 2] by (simp add: demo_2)

text \<open>
  C17: The idle timer of a connection runs only while it has no request, so that the timer never
  meets one: when it fires, the assertion of its callback holds and the connection is closed.
\<close>

theorem idle_timer_closes:
  assumes "reachable conf u w" and "enabled w (IdleTimer i)"
  shows "requests (conn w i) = [] \<and>
    handle X cb (IdleTimer i) w = close cb i NoError (stop_timer i w)"
proof -
  have "requests (conn w i) = []"
    using reachable_good [OF assms(1)] assms(2)
    by (auto simp: good_def base_inv_def queue_ok_def)
  then show ?thesis
    by (simp add: on_idle_timer_def Let_def stop_timer_def)
qed

theorem idle_timer_closes_witness:
  "handle demo_ext silent (IdleTimer 1) (demo_world 1) =
     close silent 1 NoError (stop_timer 1 (demo_world 1))"
  using idle_timer_closes [OF demo_reachable, of 1 1 demo_ext silent]
  by (simp add: demo_1 del: One_nat_def)




end
